(* ===== verification/Prelude.thy ===== *)
theory Prelude
  imports
    Main
    "HOL-Library.Word"
    "HOL-Library.List_Lexorder"
    "HOL-Library.Char_ord"
    "HOL-Library.Option_ord"
    "HOL-Library.Product_Lexorder"
    "HOL-Library.Code_Target_Nat"
begin

text \<open>
  Shared vocabulary of the development: the machine integers of the Rust sources, the result
  type, and the parts of the Rust standard library the components use (saturating arithmetic,
  \<^verbatim>\<open>str::trim\<close>, \<^verbatim>\<open>to_ascii_lowercase\<close>, \<^verbatim>\<open>strip_prefix\<close>, \<^verbatim>\<open>str::parse::<usize>\<close>, decimal
  formatting and line splitting).

  A Rust \<^verbatim>\<open>String\<close> is a \<^typ>\<open>string\<close>: HOL characters are bytes, so a string is the UTF-8 byte
  sequence, its order is the byte-wise lexicographic order of Rust's \<^verbatim>\<open>Ord\<close>, and its length
  counts bytes.  \<^verbatim>\<open>u64\<close> is \<^typ>\<open>64 word\<close>, whose \<open>+\<close> wraps as the release profile does;
  \<^verbatim>\<open>usize\<close> counters are \<^typ>\<open>nat\<close>, with the saturation of \<^verbatim>\<open>usize::MAX\<close> written out where
  the source saturates.
\<close>

section \<open>Types and automation\<close>

type_synonym u8 = "8 word"
type_synonym u32 = "32 word"
type_synonym u64 = "64 word"
type_synonym ('e, 'a) result = "'e + 'a"

named_theorems u64_simps "arithmetic of 64-bit counters"
named_theorems model_defs "definitions unfolded when a concrete run is evaluated"

section \<open>64-bit counters\<close>

abbreviation u64_max :: u64 where
  "u64_max \<equiv> - 1"

definition u64_saturating_add1 :: "u64 \<Rightarrow> u64" where
  "u64_saturating_add1 x = (if x = u64_max then u64_max else x + 1)"

definition usize_max :: nat where
  "usize_max = 2 ^ 64 - 1"

definition usize_saturating_add1 :: "nat \<Rightarrow> nat" where
  "usize_saturating_add1 n = min (n + 1) usize_max"

lemma u64_unat_succ: "x \<noteq> u64_max \<Longrightarrow> unat (x + 1 :: u64) = unat x + 1"
  by (metis Suc_eq_plus1 add.commute add_eq_0_iff unatSuc)

lemma u64_less_succ [u64_simps]: "x < (x + 1 :: u64) \<longleftrightarrow> x \<noteq> u64_max"
proof (cases "x = u64_max")
  case False
  then show ?thesis by (simp add: word_less_nat_alt u64_unat_succ)
qed simp

lemma u64_le_succ: "x \<noteq> u64_max \<Longrightarrow> x \<le> (x + 1 :: u64)"
  by (simp add: u64_less_succ order.strict_implies_order)

lemma u64_less_succ_iff: "x \<noteq> u64_max \<Longrightarrow> y < (x + 1 :: u64) \<longleftrightarrow> y \<le> x"
  by (simp add: word_less_nat_alt word_le_nat_alt u64_unat_succ less_Suc_eq_le)

lemma u64_succ_le_iff: "x \<noteq> u64_max \<Longrightarrow> x + 1 \<le> y \<longleftrightarrow> x < (y :: u64)"
  by (metis linorder_not_less u64_less_succ_iff)

lemma u64_succ_neq [u64_simps, simp]: "x + 1 \<noteq> (x :: u64)" "x \<noteq> (x + 1 :: u64)"
  by simp_all

lemma u64_max_unat: "(x :: u64) \<noteq> u64_max \<longleftrightarrow> unat x + 1 < 2 ^ 64"
proof -
  have "unat u64_max = 2 ^ 64 - 1" by (simp add: unsigned_minus_1_eq_mask mask_eq_exp_minus_1)
  moreover have "unat x < 2 ^ 64" using unsigned_less [of x] by simp
  ultimately show ?thesis by (auto simp: word_unat_eq_iff)
qed

lemma u64_saturating_ge [u64_simps]: "x \<le> u64_saturating_add1 x"
  by (simp add: u64_saturating_add1_def u64_le_succ)

lemma u64_saturating_greater: "x \<noteq> u64_max \<Longrightarrow> x < u64_saturating_add1 x"
  by (simp add: u64_saturating_add1_def u64_less_succ)

lemma u64_saturating_exact: "x \<noteq> u64_max \<Longrightarrow> u64_saturating_add1 x = x + 1"
  by (simp add: u64_saturating_add1_def)

lemma usize_saturating_ge: "n \<le> usize_max \<Longrightarrow> n \<le> usize_saturating_add1 n"
  by (simp add: usize_saturating_add1_def)

section \<open>Strings\<close>

text \<open>
  The UTF-8 encodings of the code points with the Unicode property \<^verbatim>\<open>White_Space\<close>, which is
  what \<^verbatim>\<open>char::is_whitespace\<close> tests: U+0009 to U+000D, U+0020, U+0085, U+00A0, U+1680, U+2000 to
  U+200A, U+2028, U+2029, U+202F, U+205F and U+3000.
\<close>

definition whitespace :: "string list" where
  "whitespace =
     [[CHR 0x09], [CHR 0x0A], [CHR 0x0B], [CHR 0x0C], [CHR 0x0D], [CHR 0x20],
      [CHR 0xC2, CHR 0x85], [CHR 0xC2, CHR 0xA0], [CHR 0xE1, CHR 0x9A, CHR 0x80]] @
     map (\<lambda>c. [CHR 0xE2, CHR 0x80, c])
       [CHR 0x80, CHR 0x81, CHR 0x82, CHR 0x83, CHR 0x84, CHR 0x85, CHR 0x86, CHR 0x87,
        CHR 0x88, CHR 0x89, CHR 0x8A, CHR 0xA8, CHR 0xA9, CHR 0xAF] @
     [[CHR 0xE2, CHR 0x81, CHR 0x9F], [CHR 0xE3, CHR 0x80, CHR 0x80]]"

definition strip_prefix :: "string \<Rightarrow> string \<Rightarrow> string option" where
  "strip_prefix p s = (if take (length p) s = p then Some (drop (length p) s) else None)"

fun strip_any :: "string list \<Rightarrow> string \<Rightarrow> string option" where
  "strip_any [] s = None"
| "strip_any (w # ws) s =
     (if w \<noteq> [] \<and> take (length w) s = w then Some (drop (length w) s) else strip_any ws s)"

lemma strip_any_shorter: "strip_any ws s = Some t \<Longrightarrow> length t < length s"
  by (cases s; induction ws) (auto split: if_splits simp: neq_Nil_conv)

function trim_with :: "string list \<Rightarrow> string \<Rightarrow> string" where
  "trim_with ws s = (case strip_any ws s of None \<Rightarrow> s | Some t \<Rightarrow> trim_with ws t)"
  by pat_completeness auto
termination
  by (relation "measure (\<lambda>(ws, s). length s)") (auto dest: strip_any_shorter)

declare trim_with.simps [simp del]

definition trim :: "string \<Rightarrow> string" where
  "trim s = rev (trim_with (map rev whitespace) (rev (trim_with whitespace s)))"

definition ascii_lower :: "char \<Rightarrow> char" where
  "ascii_lower c =
     (if CHR ''A'' \<le> c \<and> c \<le> CHR ''Z'' then char_of (of_char c + 32 :: nat) else c)"

definition to_ascii_lowercase :: "string \<Rightarrow> string" where
  "to_ascii_lowercase s = map ascii_lower s"

section \<open>Decimal numbers\<close>

fun show_nat :: "nat \<Rightarrow> string" where
  "show_nat n =
     (if n < 10 then [char_of (48 + n)] else show_nat (n div 10) @ [char_of (48 + n mod 10)])"

declare show_nat.simps [simp del]

text \<open>\<^verbatim>\<open>std::num::ParseIntError\<close>, as far as unsigned parsing produces it, with its messages.\<close>

datatype ParseIntError = Empty | InvalidDigit | PosOverflow

fun display_ParseIntError :: "ParseIntError \<Rightarrow> string" where
  "display_ParseIntError Empty = ''cannot parse integer from empty string''"
| "display_ParseIntError InvalidDigit = ''invalid digit found in string''"
| "display_ParseIntError PosOverflow = ''number too large to fit in target type''"

definition is_digit :: "char \<Rightarrow> bool" where
  "is_digit c \<longleftrightarrow> CHR ''0'' \<le> c \<and> c \<le> CHR ''9''"

definition digit_val :: "char \<Rightarrow> nat" where
  "digit_val c = of_char c - 48"

text \<open>
  \<^verbatim>\<open>usize::from_str\<close>: an optional \<open>+\<close>, then one or more digits; the digits are consumed from
  the left and the first failure (a bad digit or an overflow) is the error.
\<close>

fun parse_digits :: "nat \<Rightarrow> string \<Rightarrow> (ParseIntError, nat) result" where
  "parse_digits acc [] = Inr acc"
| "parse_digits acc (c # cs) =
     (if \<not> is_digit c then Inl InvalidDigit
      else if usize_max < acc * 10 + digit_val c then Inl PosOverflow
      else parse_digits (acc * 10 + digit_val c) cs)"

definition parse_usize :: "string \<Rightarrow> (ParseIntError, nat) result" where
  "parse_usize s =
     (case s of
        [] \<Rightarrow> Inl Empty
      | c # cs \<Rightarrow> if c = CHR ''+'' then (if cs = [] then Inl InvalidDigit else parse_digits 0 cs)
                  else parse_digits 0 s)"

lemma of_char_digit: "d < 10 \<Longrightarrow> of_char (char_of (48 + d :: nat)) = (48 + d :: nat)"
  by simp

lemma is_digit_char_of: "d < 10 \<Longrightarrow> is_digit (char_of (48 + d :: nat))"
  by (simp add: is_digit_def less_eq_char_def)

lemma digit_val_char_of [simp]: "d < 10 \<Longrightarrow> digit_val (char_of (48 + d :: nat)) = d"
  by (simp add: digit_val_def)

lemma parse_digits_append:
  "parse_digits acc (s @ t) =
     (case parse_digits acc s of Inl e \<Rightarrow> Inl e | Inr n \<Rightarrow> parse_digits n t)"
  by (induction s arbitrary: acc) auto

lemma parse_digits_show_nat:
  "n \<le> usize_max \<Longrightarrow> parse_digits 0 (show_nat n) = Inr n"
proof (induction n rule: show_nat.induct)
  case (1 n)
  show ?case
  proof (cases "n < 10")
    case True
    with 1 show ?thesis
      by (simp add: show_nat.simps [of n] is_digit_char_of)
  next
    case False
    with 1 have "parse_digits 0 (show_nat (n div 10)) = Inr (n div 10)"
      by (simp add: order_trans [OF div_le_dividend])
    with False 1 show ?thesis
      by (simp add: show_nat.simps [of n] parse_digits_append is_digit_char_of)
  qed
qed

lemma show_nat_digits: "c \<in> set (show_nat n) \<Longrightarrow> is_digit c"
proof (induction n rule: show_nat.induct)
  case (1 n)
  then show ?case
    by (cases "n < 10") (auto simp: show_nat.simps [of n] is_digit_char_of)
qed

lemma show_nat_nonempty [simp]: "show_nat n \<noteq> []"
  by (simp add: show_nat.simps [of n])

lemma parse_usize_show_nat: "n \<le> usize_max \<Longrightarrow> parse_usize (show_nat n) = Inr n"
proof -
  assume n: "n \<le> usize_max"
  obtain c cs where s: "show_nat n = c # cs"
    by (cases "show_nat n") auto
  have "is_digit c" using show_nat_digits [of c n] s by simp
  then have "c \<noteq> CHR ''+''" by (auto simp: is_digit_def less_eq_char_def)
  with s parse_digits_show_nat [OF n] show ?thesis by (simp add: parse_usize_def)
qed

section \<open>Lines\<close>

text \<open>
  \<^verbatim>\<open>BufRead::lines\<close>: the content is split after every line feed, a final line without one still
  counts, and a carriage return before the line feed is dropped.
\<close>

definition chomp_cr :: "string \<Rightarrow> string" where
  "chomp_cr s = (if s \<noteq> [] \<and> last s = CHR 0x0D then butlast s else s)"

fun lines_acc :: "string \<Rightarrow> string \<Rightarrow> string list" where
  "lines_acc acc [] = (if acc = [] then [] else [rev acc])"
| "lines_acc acc (c # cs) =
     (if c = CHR 0x0A then chomp_cr (rev acc) # lines_acc [] cs else lines_acc (c # acc) cs)"

definition lines :: "string \<Rightarrow> string list" where
  "lines s = lines_acc [] s"

definition unlines :: "string list \<Rightarrow> string" where
  "unlines ls = concat (map (\<lambda>l. l @ [CHR 0x0A]) ls)"

text \<open>
  A line has to be text: \<^verbatim>\<open>lines\<close> gives an error for a line that is not valid UTF-8.  The line feed
  and the carriage return that were cut off are characters of their own, so the rest is judged alone.
\<close>

definition byte_in :: "nat \<Rightarrow> nat \<Rightarrow> char \<Rightarrow> bool" where
  "byte_in lo hi c \<longleftrightarrow> lo \<le> of_char c \<and> (of_char c :: nat) \<le> hi"

fun utf8_valid :: "string \<Rightarrow> bool" where
  "utf8_valid [] \<longleftrightarrow> True"
| "utf8_valid (a # s) \<longleftrightarrow>
     (if byte_in 0x00 0x7F a then utf8_valid s
      else if byte_in 0xC2 0xDF a then
        (case s of b # t \<Rightarrow> byte_in 0x80 0xBF b \<and> utf8_valid t | _ \<Rightarrow> False)
      else if byte_in 0xE0 0xEF a then
        (case s of
           b # c # t \<Rightarrow>
             byte_in (if a = CHR 0xE0 then 0xA0 else 0x80) (if a = CHR 0xED then 0x9F else 0xBF) b
             \<and> byte_in 0x80 0xBF c \<and> utf8_valid t
         | _ \<Rightarrow> False)
      else if byte_in 0xF0 0xF4 a then
        (case s of
           b # c # d # t \<Rightarrow>
             byte_in (if a = CHR 0xF0 then 0x90 else 0x80) (if a = CHR 0xF4 then 0x8F else 0xBF) b
             \<and> byte_in 0x80 0xBF c \<and> byte_in 0x80 0xBF d \<and> utf8_valid t
         | _ \<Rightarrow> False)
      else False)"

definition invalid_utf8 :: string where
  "invalid_utf8 = ''stream did not contain valid UTF-8''"

lemma utf8_valid_ascii: "list_all (byte_in 0x00 0x7F) s \<Longrightarrow> utf8_valid s"
  by (induction s) auto

text \<open>A line that survives being written with a line feed and read back.\<close>

definition plain_line :: "string \<Rightarrow> bool" where
  "plain_line l \<longleftrightarrow> CHR 0x0A \<notin> set l \<and> (l = [] \<or> last l \<noteq> CHR 0x0D)"

lemma lines_acc_append:
  "CHR 0x0A \<notin> set l \<Longrightarrow>
     lines_acc acc (l @ CHR 0x0A # rest) = chomp_cr (rev acc @ l) # lines_acc [] rest"
  by (induction l arbitrary: acc) auto

lemma lines_unlines:
  assumes "\<forall>l \<in> set ls. plain_line l"
  shows "lines (unlines ls @ rest) = ls @ lines rest"
  using assms
proof (induction ls)
  case Nil
  then show ?case by (simp add: unlines_def)
next
  case (Cons l ls)
  then have "plain_line l" by simp
  then have "chomp_cr l = l" "CHR 0x0A \<notin> set l"
    by (auto simp: plain_line_def chomp_cr_def)
  with Cons show ?case
    by (simp add: lines_def unlines_def lines_acc_append)
qed

lemma lines_Nil [simp]: "lines [] = []"
  by (simp add: lines_def)

lemma lines_unlines_id: "\<forall>l \<in> set ls. plain_line l \<Longrightarrow> lines (unlines ls) = ls"
  using lines_unlines [of ls "[]"] by simp

lemma unlines_append [simp]: "unlines (xs @ ys) = unlines xs @ unlines ys"
  by (simp add: unlines_def)

lemma unlines_Nil [simp]: "unlines [] = []"
  by (simp add: unlines_def)

section \<open>Lists\<close>

text \<open>\<^verbatim>\<open>Vec::dedup\<close> removes consecutive repetitions.\<close>

fun dedup :: "'a list \<Rightarrow> 'a list" where
  "dedup (x # y # zs) = (if x = y then dedup (y # zs) else x # dedup (y # zs))"
| "dedup xs = xs"

lemma set_dedup [simp]: "set (dedup xs) = set xs"
  by (induction xs rule: dedup.induct) auto

lemma dedup_Nil_iff [simp]: "dedup xs = [] \<longleftrightarrow> xs = []"
  by (induction xs rule: dedup.induct) auto

lemma sorted_dedup: "sorted xs \<Longrightarrow> sorted_wrt (<) (dedup xs)"
proof (induction xs rule: dedup.induct)
  case (1 x y zs)
  then show ?case by (cases "x = y") (auto simp: less_le)
qed auto

lemma sort_dedup_cong:
  fixes xs ys :: "'a::linorder list"
  assumes "set xs = set ys"
  shows "dedup (sort xs) = dedup (sort ys)"
proof (rule sorted_distinct_set_unique)
  show "sorted (dedup (sort xs))" "distinct (dedup (sort xs))"
    using sorted_dedup [of "sort xs"] by (simp_all add: strict_sorted_iff)
  show "sorted (dedup (sort ys))" "distinct (dedup (sort ys))"
    using sorted_dedup [of "sort ys"] by (simp_all add: strict_sorted_iff)
  show "set (dedup (sort xs)) = set (dedup (sort ys))" using assms by simp
qed

lemma last_append_if: "last (xs @ ys) = (if ys = [] then last xs else last ys)"
  by (simp add: last_append)

end
