(* ===== verification/Ordered_Map.thy ===== *)
theory Ordered_Map
  imports Prelude
begin

text \<open>
  \<^verbatim>\<open>std::collections::BTreeMap\<close> and \<^verbatim>\<open>BTreeSet\<close>: finite maps iterated in key order.  A map is the
  list of its entries with strictly increasing keys; the invariant is part of the type, so two
  maps with the same lookups are equal.  Every operation is executable through the entry list.
  The locale \<open>ordered_map\<close> states the laws clients use and is interpreted on the operations here.
\<close>

section \<open>Sorted entry lists\<close>

definition strict_keys :: "('k::linorder \<times> 'v) list \<Rightarrow> bool" where
  "strict_keys es \<longleftrightarrow> sorted_wrt (<) (map fst es)"

fun put_sorted :: "'k::linorder \<Rightarrow> 'v \<Rightarrow> ('k \<times> 'v) list \<Rightarrow> ('k \<times> 'v) list" where
  "put_sorted k v [] = [(k, v)]"
| "put_sorted k v (e # es) =
     (if k < fst e then (k, v) # e # es
      else if k = fst e then (k, v) # es
      else e # put_sorted k v es)"

lemma strict_keys_Nil [simp]: "strict_keys []"
  by (simp add: strict_keys_def)

lemma strict_keys_Cons:
  "strict_keys (e # es) \<longleftrightarrow> (\<forall>x \<in> fst ` set es. fst e < x) \<and> strict_keys es"
  by (auto simp: strict_keys_def)

lemma fst_put_sorted: "fst ` set (put_sorted k v es) = insert k (fst ` set es)"
  by (induction es) auto

lemma strict_keys_put_sorted: "strict_keys es \<Longrightarrow> strict_keys (put_sorted k v es)"
  by (induction es) (auto simp: strict_keys_Cons fst_put_sorted)

lemma strict_keys_filter: "strict_keys es \<Longrightarrow> strict_keys (filter P es)"
  by (induction es) (auto simp: strict_keys_Cons)

lemma strict_keys_map: "strict_keys es \<Longrightarrow> strict_keys (map (\<lambda>e. (fst e, f (fst e) (snd e))) es)"
  by (simp add: strict_keys_def comp_def)

lemma strict_keys_distinct: "strict_keys es \<Longrightarrow> distinct (map fst es)"
  by (simp add: strict_keys_def strict_sorted_iff)

lemma map_of_put_sorted: "map_of (put_sorted k v es) = (map_of es)(k \<mapsto> v)"
  by (induction es) auto

lemma map_of_strict_iff: "strict_keys es \<Longrightarrow> map_of es k = Some v \<longleftrightarrow> (k, v) \<in> set es"
  by (simp add: map_of_eq_Some_iff strict_keys_distinct)

lemma map_of_filter_entries:
  assumes "strict_keys es"
  shows "map_of (filter (\<lambda>e. P (fst e) (snd e)) es) k =
    (case map_of es k of None \<Rightarrow> None | Some v \<Rightarrow> if P k v then Some v else None)"
  using assms
proof (induction es)
  case (Cons e es)
  have "map_of es (fst e) = None"
    using Cons.prems by (auto simp: strict_keys_Cons map_of_eq_None_iff)
  with Cons show ?case by (auto simp: strict_keys_Cons split: option.splits)
qed simp

lemma strict_keys_ext:
  assumes "strict_keys xs" "strict_keys ys" "map_of xs = map_of ys"
  shows "xs = ys"
proof -
  have s: "set xs = set ys"
    using assms map_of_strict_iff [of xs] map_of_strict_iff [of ys] by auto
  have "map fst xs = map fst ys"
  proof (rule sorted_distinct_set_unique)
    show "set (map fst xs) = set (map fst ys)" using s by simp
  qed (use assms in \<open>simp_all add: strict_keys_def strict_sorted_iff\<close>)
  then show ?thesis using assms s
    by (metis map_fst_zip_take map_of_strict_iff distinct_map inj_on_map_eq_map
        strict_keys_distinct inj_onI sup.idem)
qed

section \<open>The map type\<close>

typedef (overloaded) ('k::linorder, 'v) btree = "{es :: ('k \<times> 'v) list. strict_keys es}"
  morphisms bt_entries Btree
  by (rule exI [of _ "[]"]) simp

setup_lifting type_definition_btree

type_synonym 'a btset = "('a, unit) btree"

lift_definition bt_empty :: "('k::linorder, 'v) btree" is "[]"
  by simp

lift_definition bt_insert :: "'k::linorder \<Rightarrow> 'v \<Rightarrow> ('k, 'v) btree \<Rightarrow> ('k, 'v) btree"
  is put_sorted
  by (rule strict_keys_put_sorted)

lift_definition bt_filter :: "('k::linorder \<Rightarrow> 'v \<Rightarrow> bool) \<Rightarrow> ('k, 'v) btree \<Rightarrow> ('k, 'v) btree"
  is "\<lambda>P. filter (\<lambda>e. P (fst e) (snd e))"
  by (rule strict_keys_filter)

lift_definition bt_map :: "('k::linorder \<Rightarrow> 'v \<Rightarrow> 'w) \<Rightarrow> ('k, 'v) btree \<Rightarrow> ('k, 'w) btree"
  is "\<lambda>f. map (\<lambda>e. (fst e, f (fst e) (snd e)))"
  by (rule strict_keys_map)

lift_definition bt_get :: "('k::linorder, 'v) btree \<Rightarrow> 'k \<Rightarrow> 'v option" is map_of .

definition bt_remove :: "'k::linorder \<Rightarrow> ('k, 'v) btree \<Rightarrow> ('k, 'v) btree" where
  "bt_remove k m = bt_filter (\<lambda>k' _. k' \<noteq> k) m"

definition bt_contains_key :: "('k::linorder, 'v) btree \<Rightarrow> 'k \<Rightarrow> bool" where
  "bt_contains_key m k = (bt_get m k \<noteq> None)"

definition bt_keys :: "('k::linorder, 'v) btree \<Rightarrow> 'k list" where
  "bt_keys m = map fst (bt_entries m)"

definition bt_values :: "('k::linorder, 'v) btree \<Rightarrow> 'v list" where
  "bt_values m = map snd (bt_entries m)"

definition bt_len :: "('k::linorder, 'v) btree \<Rightarrow> nat" where
  "bt_len m = length (bt_entries m)"

text \<open>\<^verbatim>\<open>FromIterator\<close>: later pairs replace earlier ones with the same key.\<close>

definition bt_extend :: "('k::linorder, 'v) btree \<Rightarrow> ('k \<times> 'v) list \<Rightarrow> ('k, 'v) btree" where
  "bt_extend m ps = fold (\<lambda>p. bt_insert (fst p) (snd p)) ps m"

definition bt_of_list :: "('k::linorder \<times> 'v) list \<Rightarrow> ('k, 'v) btree" where
  "bt_of_list ps = bt_extend bt_empty ps"

text \<open>
  \<^verbatim>\<open>split_off(k)\<close> keeps the entries below \<open>k\<close> in place and returns those from \<open>k\<close> on.
\<close>

definition bt_below :: "'k::linorder \<Rightarrow> ('k, 'v) btree \<Rightarrow> ('k, 'v) btree" where
  "bt_below k m = bt_filter (\<lambda>k' _. k' < k) m"

definition bt_from :: "'k::linorder \<Rightarrow> ('k, 'v) btree \<Rightarrow> ('k, 'v) btree" where
  "bt_from k m = bt_filter (\<lambda>k' _. k \<le> k') m"

text \<open>\<^verbatim>\<open>values().next_back()\<close>: the value with the greatest key.\<close>

definition bt_last :: "('k::linorder, 'v) btree \<Rightarrow> 'v option" where
  "bt_last m = (case rev (bt_entries m) of [] \<Rightarrow> None | e # _ \<Rightarrow> Some (snd e))"

instantiation btree :: (linorder, equal) equal
begin

definition equal_btree :: "('a, 'b) btree \<Rightarrow> ('a, 'b) btree \<Rightarrow> bool" where
  "equal_btree m m' \<longleftrightarrow> bt_entries m = bt_entries m'"

instance
  by standard (simp add: equal_btree_def bt_entries_inject)

end

section \<open>Laws\<close>

lemma strict_keys_entries [simp]: "strict_keys (bt_entries m)"
  using bt_entries [of m] by simp

lemma bt_get_empty [simp]: "bt_get bt_empty k = None"
  by transfer simp

lemma bt_get_insert: "bt_get (bt_insert k v m) k' = (if k' = k then Some v else bt_get m k')"
  by transfer (simp add: map_of_put_sorted)

lemma bt_get_insert_same [simp]: "bt_get (bt_insert k v m) k = Some v"
  by (simp add: bt_get_insert)

lemma bt_get_insert_other [simp]: "k' \<noteq> k \<Longrightarrow> bt_get (bt_insert k v m) k' = bt_get m k'"
  by (simp add: bt_get_insert)

lemma bt_get_filter:
  "bt_get (bt_filter P m) k =
     (case bt_get m k of None \<Rightarrow> None | Some v \<Rightarrow> if P k v then Some v else None)"
  by transfer (rule map_of_filter_entries)

lemma bt_get_remove: "bt_get (bt_remove k m) k' = (if k' = k then None else bt_get m k')"
  by (simp add: bt_remove_def bt_get_filter split: option.split)

lemma bt_get_below: "bt_get (bt_below k m) k' = (if k' < k then bt_get m k' else None)"
  by (simp add: bt_below_def bt_get_filter split: option.split)

lemma bt_get_from: "bt_get (bt_from k m) k' = (if k \<le> k' then bt_get m k' else None)"
  by (simp add: bt_from_def bt_get_filter split: option.split)

lemma bt_get_map: "bt_get (bt_map f m) k = map_option (f k) (bt_get m k)"
proof (transfer, goal_cases)
  case (1 f es k)
  then show ?case by (induction es) (auto simp: strict_keys_Cons)
qed

lemma bt_get_iff: "bt_get m k = Some v \<longleftrightarrow> (k, v) \<in> set (bt_entries m)"
  by transfer (rule map_of_strict_iff)

lemma bt_eqI: "(\<And>k. bt_get m k = bt_get m' k) \<Longrightarrow> m = m'"
  by transfer (auto intro: strict_keys_ext)

lemma bt_eq_iff: "m = m' \<longleftrightarrow> (\<forall>k. bt_get m k = bt_get m' k)"
  by (auto intro: bt_eqI)

lemma bt_insert_same: "bt_get m k = Some v \<Longrightarrow> bt_insert k v m = m"
  by (rule bt_eqI) (simp add: bt_get_insert)

lemma bt_remove_absent: "bt_get m k = None \<Longrightarrow> bt_remove k m = m"
  by (rule bt_eqI) (simp add: bt_get_remove)

lemma bt_insert_insert [simp]: "bt_insert k v (bt_insert k w m) = bt_insert k v m"
  by (rule bt_eqI) (simp add: bt_get_insert)

lemma bt_insert_commute: "k \<noteq> k' \<Longrightarrow> bt_insert k v (bt_insert k' w m) = bt_insert k' w (bt_insert k v m)"
  by (rule bt_eqI) (simp add: bt_get_insert)

lemma bt_remove_insert_same [simp]: "bt_remove k (bt_insert k v m) = bt_remove k m"
  by (rule bt_eqI) (simp add: bt_get_insert bt_get_remove)

lemma bt_keys_sorted: "sorted_wrt (<) (bt_keys m)"
  using strict_keys_entries [of m] by (simp add: bt_keys_def strict_keys_def)

lemma bt_keys_distinct [simp]: "distinct (bt_keys m)"
  using bt_keys_sorted [of m] by (simp add: strict_sorted_iff)

lemma set_bt_keys: "set (bt_keys m) = {k. bt_get m k \<noteq> None}"
  by (force simp: bt_keys_def bt_get_iff)

lemma bt_keys_iff: "k \<in> set (bt_keys m) \<longleftrightarrow> (\<exists>v. bt_get m k = Some v)"
  by (simp add: set_bt_keys)

lemma bt_contains_key_iff: "bt_contains_key m k \<longleftrightarrow> k \<in> set (bt_keys m)"
  by (simp add: bt_contains_key_def set_bt_keys)

lemma set_bt_values: "set (bt_values m) = {v. \<exists>k. bt_get m k = Some v}"
  by (force simp: bt_values_def bt_get_iff)

lemma length_bt_keys [simp]: "length (bt_keys m) = bt_len m"
  by (simp add: bt_keys_def bt_len_def)

lemma bt_entries_empty [simp]: "bt_entries bt_empty = []"
  by (rule bt_empty.rep_eq)

lemma bt_keys_empty_iff [simp]: "bt_keys m = [] \<longleftrightarrow> m = bt_empty"
  by (metis bt_entries_empty bt_entries_inject bt_keys_def map_is_Nil_conv)

lemma bt_keys_map [simp]: "bt_keys (bt_map f m) = bt_keys m"
  by (simp add: bt_keys_def bt_map.rep_eq comp_def)

lemma bt_get_extend:
  "bt_get (bt_extend m ps) k = (case map_of (rev ps) k of None \<Rightarrow> bt_get m k | Some v \<Rightarrow> Some v)"
proof (induction ps arbitrary: m)
  case (Cons p ps)
  then show ?case
    by (simp add: bt_extend_def bt_get_insert map_add_def split: option.split)
qed (simp add: bt_extend_def)

lemma bt_get_of_list: "bt_get (bt_of_list ps) k = map_of (rev ps) k"
  by (simp add: bt_of_list_def bt_get_extend split: option.split)

lemma bt_get_of_list_distinct:
  "distinct (map fst ps) \<Longrightarrow> bt_get (bt_of_list ps) k = map_of ps k"
  by (metis bt_get_of_list distinct_rev map_of_inject_set rev_map set_rev)

lemma bt_extend_append [simp]: "bt_extend m (ps @ qs) = bt_extend (bt_extend m ps) qs"
  by (simp add: bt_extend_def)

lemma bt_extend_Nil [simp]: "bt_extend m [] = m"
  by (simp add: bt_extend_def)

lemma bt_extend_Cons [simp]: "bt_extend m (p # ps) = bt_extend (bt_insert (fst p) (snd p) m) ps"
  by (simp add: bt_extend_def)

lemma bt_of_list_entries: "bt_of_list (bt_entries m) = m"
proof (rule bt_eqI)
  fix k
  have "map_of (bt_entries m) k = bt_get m k" by (simp add: bt_get.rep_eq)
  then show "bt_get (bt_of_list (bt_entries m)) k = bt_get m k"
    by (simp add: bt_get_of_list_distinct strict_keys_distinct)
qed

lemma bt_last_empty [simp]: "bt_last bt_empty = None"
  by (simp add: bt_last_def)

lemma bt_last_get:
  assumes "bt_get m k = Some v" "\<And>k'. bt_get m k' \<noteq> None \<Longrightarrow> k' \<le> k"
  shows "bt_last m = Some v"
proof (cases "rev (bt_entries m)")
  case Nil
  then show ?thesis using assms(1) by (simp add: bt_get_iff)
next
  case (Cons e es)
  then have es: "bt_entries m = rev es @ [e]" by (simp add: rev_swap)
  have "bt_get m (fst e) = Some (snd e)" using es by (simp add: bt_get_iff)
  then have le: "fst e \<le> k" using assms(2) by simp
  have "(k, v) \<in> set (bt_entries m)" using assms(1) by (simp add: bt_get_iff)
  moreover have "sorted_wrt (<) (map fst (rev es) @ [fst e])"
    using strict_keys_entries [of m] es by (simp add: strict_keys_def)
  then have "\<forall>x \<in> fst ` set es. x < fst e" by (simp add: sorted_wrt_append)
  ultimately have "(k, v) = e" using es le by force
  then show ?thesis using Cons by (auto simp: bt_last_def)
qed

lemma bt_last_None: "bt_last m = None \<longleftrightarrow> m = bt_empty"
  by (auto simp: bt_last_def split: list.splits)
     (metis bt_entries_empty bt_entries_inject)

lemma bt_last_in: "bt_last m = Some v \<Longrightarrow> \<exists>k. bt_get m k = Some v"
  by (fastforce simp: bt_last_def bt_get_iff rev_swap split: list.splits)

section \<open>Sets\<close>

definition bs_insert :: "'a::linorder \<Rightarrow> 'a btset \<Rightarrow> 'a btset" where
  "bs_insert x s = bt_insert x () s"

definition bs_contains :: "'a::linorder btset \<Rightarrow> 'a \<Rightarrow> bool" where
  "bs_contains s x = (bt_get s x \<noteq> None)"

definition bs_remove :: "'a::linorder \<Rightarrow> 'a btset \<Rightarrow> 'a btset" where
  "bs_remove x s = bt_remove x s"

definition bs_of_list :: "'a::linorder list \<Rightarrow> 'a btset" where
  "bs_of_list xs = fold bs_insert xs bt_empty"

lemma bs_contains_empty [simp]: "\<not> bs_contains bt_empty x"
  by (simp add: bs_contains_def)

lemma bs_contains_insert [simp]: "bs_contains (bs_insert x s) y \<longleftrightarrow> y = x \<or> bs_contains s y"
  by (simp add: bs_contains_def bs_insert_def bt_get_insert)

lemma bs_contains_remove [simp]: "bs_contains (bs_remove x s) y \<longleftrightarrow> y \<noteq> x \<and> bs_contains s y"
  by (simp add: bs_contains_def bs_remove_def bt_get_remove)

lemma bs_eqI: "(\<And>x. bs_contains s x = bs_contains t x) \<Longrightarrow> s = t"
  by (rule bt_eqI) (metis bs_contains_def not_None_eq old.unit.exhaust)

lemma bs_keys_contains: "x \<in> set (bt_keys s) \<longleftrightarrow> bs_contains s x"
  by (simp add: bs_contains_def set_bt_keys)

lemma bs_contains_fold:
  "bs_contains (fold bs_insert xs s) y \<longleftrightarrow> y \<in> set xs \<or> bs_contains s y"
  by (induction xs arbitrary: s) auto

lemma bs_contains_of_list [simp]: "bs_contains (bs_of_list xs) y \<longleftrightarrow> y \<in> set xs"
  by (simp add: bs_of_list_def bs_contains_fold)

section \<open>The interface\<close>

text \<open>
  What a client of an ordered map relies on: lookups after insertions and removals, and iteration
  in strictly increasing key order over exactly the present keys.
\<close>

locale ordered_map =
  fixes get :: "'m \<Rightarrow> 'k::linorder \<Rightarrow> 'v option"
    and insert_at :: "'k \<Rightarrow> 'v \<Rightarrow> 'm \<Rightarrow> 'm"
    and remove_at :: "'k \<Rightarrow> 'm \<Rightarrow> 'm"
    and iter :: "'m \<Rightarrow> ('k \<times> 'v) list"
  assumes get_insert_at: "get (insert_at k v m) k' = (if k' = k then Some v else get m k')"
    and get_remove_at: "get (remove_at k m) k' = (if k' = k then None else get m k')"
    and iter_sorted: "sorted_wrt (<) (map fst (iter m))"
    and iter_get: "(k, v) \<in> set (iter m) \<longleftrightarrow> get m k = Some v"
begin

lemma iter_remove_at: "set (iter (remove_at k m)) = {e \<in> set (iter m). fst e \<noteq> k}"
  by (auto simp: iter_get get_remove_at split: if_splits)

lemma iter_insert_at:
  "set (iter (insert_at k v m)) = insert (k, v) {e \<in> set (iter m). fst e \<noteq> k}"
  by (auto simp: iter_get get_insert_at split: if_splits)

lemma iter_length_insert_at:
  "length (iter (insert_at k v m)) = length (iter m) + (if get m k = None then 1 else 0)"
proof -
  have d: "distinct (iter m')" for m'
    using iter_sorted [of m'] by (metis distinct_map strict_sorted_iff)
  have c: "length (iter m') = card (set (iter m'))" for m'
    using d [of m'] by (simp add: distinct_card)
  show ?thesis
  proof (cases "get m k")
    case None
    then have "{e \<in> set (iter m). fst e \<noteq> k} = set (iter m)" by (auto simp: iter_get)
    moreover have "(k, v) \<notin> set (iter m)" using None by (simp add: iter_get)
    ultimately show ?thesis using None by (simp add: c iter_insert_at)
  next
    case (Some w)
    define rest where "rest = {e \<in> set (iter m). fst e \<noteq> k}"
    have "finite rest" "(k, w) \<notin> rest" by (simp_all add: rest_def)
    moreover have "set (iter m) = insert (k, w) rest"
      using Some by (auto simp: rest_def iter_get)
    ultimately have "card (set (iter m)) = Suc (card rest)" by simp
    moreover have "(k, v) \<notin> rest" by (simp add: rest_def)
    ultimately show ?thesis
      using Some \<open>finite rest\<close> by (simp add: c iter_insert_at flip: rest_def)
  qed
qed

end

interpretation bt: ordered_map bt_get bt_insert bt_remove bt_entries
proof
  show "sorted_wrt (<) (map fst (bt_entries m))" for m :: "('a, 'b) btree"
    using strict_keys_entries [of m] by (simp add: strict_keys_def)
qed (simp_all add: bt_get_insert bt_get_remove bt_get_iff)

lemma bt_len_insert: "bt_len (bt_insert k v m) = bt_len m + (if bt_get m k = None then 1 else 0)"
  by (simp add: bt_len_def bt.iter_length_insert_at)

end
