(* ===== verification/Core_Model.thy ===== *)
theory Core_Model
  imports Ordered_Map
begin

text \<open>
  The domain-neutral metadata model of \<^verbatim>\<open>ganglion-core/src/lib.rs\<close>: resource identities, node
  records, durability policies, partition assignments, fencing epochs, the coordination snapshot
  and the pair-sequence encoding of its assignments.  The copy-on-write wrapper \<^verbatim>\<open>Shared<T>\<close>
  around the collections of a snapshot has value semantics, which theory \<open>Shared_Value\<close> proves of a heap
  model; here the collections are plain values.
\<close>

section \<open>Resource identities\<close>

record ResourceIdentity =
  ri_namespace :: string
  ri_name :: string
  ri_partition :: u64
  ri_group :: "string option"

definition ResourceIdentity_new ::
    "string \<Rightarrow> string \<Rightarrow> u64 \<Rightarrow> string option \<Rightarrow> ResourceIdentity" where
  "ResourceIdentity_new namespace name part grp =
     \<lparr>ri_namespace = namespace, ri_name = name, ri_partition = part, ri_group = grp\<rparr>"

definition with_namespace_part :: "ResourceIdentity \<Rightarrow> string \<Rightarrow> ResourceIdentity" where
  "with_namespace_part self namespace = self\<lparr>ri_namespace := namespace\<rparr>"

text \<open>
  The derived \<^verbatim>\<open>Ord\<close>: lexicographic in the order of the fields, with \<^verbatim>\<open>None\<close> below \<^verbatim>\<open>Some\<close>.
\<close>

definition ri_key :: "('a::linorder) ResourceIdentity_scheme \<Rightarrow>
    string \<times> string \<times> u64 \<times> string option \<times> 'a" where
  "ri_key r = (ri_namespace r, ri_name r, ri_partition r, ri_group r, ResourceIdentity.more r)"

lemma ri_key_inject: "ri_key r = ri_key s \<longleftrightarrow> r = s"
  by (cases r; cases s) (simp add: ri_key_def)

instantiation ResourceIdentity_ext :: (linorder) linorder
begin

definition less_ResourceIdentity_ext ::
    "'a ResourceIdentity_ext \<Rightarrow> 'a ResourceIdentity_ext \<Rightarrow> bool" where
  "less_ResourceIdentity_ext a b \<longleftrightarrow> ri_key a < ri_key b"

definition less_eq_ResourceIdentity_ext ::
    "'a ResourceIdentity_ext \<Rightarrow> 'a ResourceIdentity_ext \<Rightarrow> bool" where
  "less_eq_ResourceIdentity_ext a b \<longleftrightarrow> ri_key a \<le> ri_key b"

instance
  by standard (auto simp: less_ResourceIdentity_ext_def less_eq_ResourceIdentity_ext_def
      simp flip: ri_key_inject)

end

section \<open>Nodes\<close>

record NodeInfo =
  ni_node_id :: string
  ni_endpoint :: string
  ni_admin_endpoint :: "string option"
  ni_labels :: "(string, string) btree"

definition NodeInfo_new :: "string \<Rightarrow> string \<Rightarrow> string option \<Rightarrow> NodeInfo" where
  "NodeInfo_new node_id endpoint admin_endpoint =
     \<lparr>ni_node_id = node_id, ni_endpoint = endpoint, ni_admin_endpoint = admin_endpoint,
      ni_labels = bt_empty\<rparr>"

definition NodeInfo_default :: NodeInfo where
  "NodeInfo_default = NodeInfo_new ''node-unknown'' ''127.0.0.1:0'' None"

section \<open>Durability policies\<close>

datatype ReplicationDurabilityPolicy =
    LocalDurable
  | ReplicaAccepted nat
  | ReplicaDurable nat
  | MajorityDurable

definition ReplicationDurabilityPolicy_default :: ReplicationDurabilityPolicy where
  "ReplicationDurabilityPolicy_default = LocalDurable"

datatype ReplicationAcknowledgement = Accepted | Durable

record ReplicationDurabilityRequirement =
  rd_nodes :: nat
  rd_acknowledgement :: ReplicationAcknowledgement

datatype ReplicationDurabilityError = ZeroNodes | NotEnoughAssignedNodes nat nat

definition requirement_validate ::
    "ReplicationDurabilityRequirement \<Rightarrow> nat \<Rightarrow> (ReplicationDurabilityError, unit) result" where
  "requirement_validate self assigned_nodes =
     (if rd_nodes self = 0 then Inl ZeroNodes
      else if assigned_nodes < rd_nodes self
        then Inl (NotEnoughAssignedNodes (rd_nodes self) assigned_nodes)
      else Inr ())"

definition policy_requirement ::
    "ReplicationDurabilityPolicy \<Rightarrow> nat \<Rightarrow> ReplicationDurabilityRequirement" where
  "policy_requirement self assigned_nodes =
     (case self of
        LocalDurable \<Rightarrow> \<lparr>rd_nodes = 1, rd_acknowledgement = Durable\<rparr>
      | ReplicaAccepted nodes \<Rightarrow> \<lparr>rd_nodes = nodes, rd_acknowledgement = Accepted\<rparr>
      | ReplicaDurable nodes \<Rightarrow> \<lparr>rd_nodes = nodes, rd_acknowledgement = Durable\<rparr>
      | MajorityDurable \<Rightarrow> \<lparr>rd_nodes = assigned_nodes div 2 + 1, rd_acknowledgement = Durable\<rparr>)"

definition policy_resolve ::
    "ReplicationDurabilityPolicy \<Rightarrow> nat \<Rightarrow>
     (ReplicationDurabilityError, ReplicationDurabilityRequirement) result" where
  "policy_resolve self assigned_nodes =
     (let requirement = policy_requirement self assigned_nodes in
      case requirement_validate requirement assigned_nodes of
        Inl e \<Rightarrow> Inl e
      | Inr _ \<Rightarrow> Inr requirement)"

section \<open>Assignments\<close>

record PartitionAssignment =
  pa_resource :: ResourceIdentity
  pa_owner :: string
  pa_followers :: "string list"
  pa_epoch :: u64
  pa_durability :: ReplicationDurabilityPolicy

definition PartitionAssignment_new ::
    "ResourceIdentity \<Rightarrow> string \<Rightarrow> string list \<Rightarrow> u64 \<Rightarrow> PartitionAssignment" where
  "PartitionAssignment_new resource owner followers epoch =
     \<lparr>pa_resource = resource, pa_owner = owner, pa_followers = followers, pa_epoch = epoch,
      pa_durability = LocalDurable\<rparr>"

definition is_owned_by :: "PartitionAssignment \<Rightarrow> string \<Rightarrow> bool" where
  "is_owned_by self node_id \<longleftrightarrow> pa_owner self = node_id"

definition is_followed_by :: "PartitionAssignment \<Rightarrow> string \<Rightarrow> bool" where
  "is_followed_by self node_id \<longleftrightarrow> list_ex (\<lambda>follower. follower = node_id) (pa_followers self)"

definition replica_set_size :: "PartitionAssignment \<Rightarrow> nat" where
  "replica_set_size self = 1 + length (pa_followers self)"

definition durability_requirement ::
    "PartitionAssignment \<Rightarrow> (ReplicationDurabilityError, ReplicationDurabilityRequirement) result" where
  "durability_requirement self = policy_resolve (pa_durability self) (replica_set_size self)"

lemma is_followed_by_iff: "is_followed_by a n \<longleftrightarrow> n \<in> set (pa_followers a)"
  by (auto simp: is_followed_by_def list_ex_iff)

section \<open>The coordination snapshot\<close>

record CoordinationSnapshot =
  cs_nodes :: "(string, NodeInfo) btree"
  cs_assignments :: "(ResourceIdentity, PartitionAssignment) btree"
  cs_resources :: "ResourceIdentity btset"
  cs_attributes :: "(string, string) btree"
  cs_generation :: u64

definition CoordinationSnapshot_default :: CoordinationSnapshot where
  "CoordinationSnapshot_default =
     \<lparr>cs_nodes = bt_empty, cs_assignments = bt_empty, cs_resources = bt_empty,
      cs_attributes = bt_empty, cs_generation = 0\<rparr>"

definition assignment_for :: "CoordinationSnapshot \<Rightarrow> ResourceIdentity \<Rightarrow> PartitionAssignment option" where
  "assignment_for self resource = bt_get (cs_assignments self) resource"

definition owned_by :: "CoordinationSnapshot \<Rightarrow> string \<Rightarrow> PartitionAssignment list" where
  "owned_by self node_id =
     filter (\<lambda>assignment. is_owned_by assignment node_id) (bt_values (cs_assignments self))"

definition followed_by :: "CoordinationSnapshot \<Rightarrow> string \<Rightarrow> PartitionAssignment list" where
  "followed_by self node_id =
     filter (\<lambda>assignment. is_followed_by assignment node_id) (bt_values (cs_assignments self))"

text \<open>
  Module \<^verbatim>\<open>assignment_pairs\<close>: the assignments are serialized as the sequence of their pairs and
  collected back into a map.
\<close>

definition assignment_pairs_serialize ::
    "(ResourceIdentity, PartitionAssignment) btree \<Rightarrow> (ResourceIdentity \<times> PartitionAssignment) list" where
  "assignment_pairs_serialize m = bt_entries m"

definition assignment_pairs_deserialize ::
    "(ResourceIdentity \<times> PartitionAssignment) list \<Rightarrow> (ResourceIdentity, PartitionAssignment) btree" where
  "assignment_pairs_deserialize pairs = bt_of_list pairs"

section \<open>Fencing epochs\<close>

datatype EpochTransition = Unchanged | OwnerChanged | NewAssignment

definition next_assignment_epoch ::
    "PartitionAssignment option \<Rightarrow> string \<Rightarrow> u64 \<times> EpochTransition" where
  "next_assignment_epoch committed desired_owner =
     (case committed of
        None \<Rightarrow> (1, NewAssignment)
      | Some current \<Rightarrow>
          if pa_owner current = desired_owner then (pa_epoch current, Unchanged)
          else (pa_epoch current + 1, OwnerChanged))"

definition fence_assignment_epoch :: "PartitionAssignment \<Rightarrow> u64" where
  "fence_assignment_epoch committed = pa_epoch committed + 1"

definition stamp_assignment_epochs ::
    "CoordinationSnapshot \<Rightarrow> CoordinationSnapshot \<Rightarrow>
     CoordinationSnapshot \<times> (ResourceIdentity \<times> EpochTransition) list" where
  "stamp_assignment_epochs committed desired =
     (let rule = (\<lambda>resource assignment.
            next_assignment_epoch (bt_get (cs_assignments committed) resource) (pa_owner assignment))
      in (desired\<lparr>cs_assignments :=
            bt_map (\<lambda>resource assignment. assignment\<lparr>pa_epoch := fst (rule resource assignment)\<rparr>)
              (cs_assignments desired)\<rparr>,
          map (\<lambda>e. (fst e, snd (rule (fst e) (snd e)))) (bt_entries (cs_assignments desired))))"

lemmas snapshot_defs [model_defs] = CoordinationSnapshot_default_def ResourceIdentity_new_def
  NodeInfo_new_def NodeInfo_default_def PartitionAssignment_new_def

section \<open>Properties\<close>

lemma stamp_get:
  "assignment_for (fst (stamp_assignment_epochs committed desired)) r =
     map_option (\<lambda>a. a\<lparr>pa_epoch :=
         fst (next_assignment_epoch (assignment_for committed r) (pa_owner a))\<rparr>)
       (assignment_for desired r)"
  by (simp add: stamp_assignment_epochs_def assignment_for_def bt_get_map Let_def)

lemma stamp_other_fields [simp]:
  "cs_nodes (fst (stamp_assignment_epochs c d)) = cs_nodes d"
  "cs_resources (fst (stamp_assignment_epochs c d)) = cs_resources d"
  "cs_attributes (fst (stamp_assignment_epochs c d)) = cs_attributes d"
  "cs_generation (fst (stamp_assignment_epochs c d)) = cs_generation d"
  by (simp_all add: stamp_assignment_epochs_def Let_def)

lemma set_owned_by:
  "set (owned_by s n) = {a. \<exists>r. assignment_for s r = Some a \<and> pa_owner a = n}"
  by (auto simp: owned_by_def set_bt_values assignment_for_def is_owned_by_def)

lemma set_followed_by:
  "set (followed_by s n) = {a. \<exists>r. assignment_for s r = Some a \<and> n \<in> set (pa_followers a)}"
  by (auto simp: followed_by_def set_bt_values assignment_for_def is_followed_by_iff)

text \<open>
  C8. Stamping a planned snapshot fences every ownership change: each planned resource keeps its
  owner, followers and durability, gets epoch 1 when it was not committed, the committed epoch
  when its owner stays, and a strictly greater epoch when its owner moves; resources that were
  not planned stay absent.  The committed epochs are assumed below the 64-bit maximum.
\<close>

theorem stamp_fences_owner_changes:
  assumes bound: "\<forall>c. assignment_for committed r = Some c \<longrightarrow> pa_epoch c \<noteq> u64_max"
    and desired: "assignment_for desired r = Some d"
  shows "\<exists>s t. assignment_for (fst (stamp_assignment_epochs committed desired)) r = Some s
    \<and> pa_owner s = pa_owner d \<and> pa_followers s = pa_followers d \<and> pa_durability s = pa_durability d
    \<and> (r, t) \<in> set (snd (stamp_assignment_epochs committed desired))
    \<and> (case assignment_for committed r of
         None \<Rightarrow> t = NewAssignment \<and> pa_epoch s = 1
       | Some c \<Rightarrow> if pa_owner c = pa_owner d then t = Unchanged \<and> pa_epoch s = pa_epoch c
                   else t = OwnerChanged \<and> pa_epoch c < pa_epoch s)"
proof -
  let ?e = "next_assignment_epoch (assignment_for committed r) (pa_owner d)"
  have "(r, d) \<in> set (bt_entries (cs_assignments desired))"
    using desired by (simp add: assignment_for_def bt_get_iff)
  then have "(r, snd ?e) \<in> set (snd (stamp_assignment_epochs committed desired))"
    by (force simp: stamp_assignment_epochs_def assignment_for_def Let_def)
  moreover have "assignment_for (fst (stamp_assignment_epochs committed desired)) r
      = Some (d\<lparr>pa_epoch := fst ?e\<rparr>)"
    by (simp add: stamp_get desired)
  moreover have "case assignment_for committed r of
         None \<Rightarrow> ?e = (1, NewAssignment)
       | Some c \<Rightarrow> ?e = (if pa_owner c = pa_owner d then (pa_epoch c, Unchanged)
                         else (pa_epoch c + 1, OwnerChanged))"
    by (simp add: next_assignment_epoch_def split: option.split)
  ultimately show ?thesis
    using bound by (intro exI [of _ "d\<lparr>pa_epoch := fst ?e\<rparr>"] exI [of _ "snd ?e"])
      (cases "assignment_for committed r"; simp add: u64_less_succ)
qed

definition demo_resource :: ResourceIdentity where
  "demo_resource = ResourceIdentity_new ''ns'' ''topic-a'' 0 None"

definition demo_snapshot :: "string \<Rightarrow> string list \<Rightarrow> u64 \<Rightarrow> u64 \<Rightarrow> CoordinationSnapshot" where
  "demo_snapshot owner followers epoch generation = CoordinationSnapshot_default\<lparr>
     cs_assignments := bt_insert demo_resource
       (PartitionAssignment_new demo_resource owner followers epoch) bt_empty,
     cs_generation := generation\<rparr>"

lemma demo_assignment [simp]:
  "assignment_for (demo_snapshot ow fs e g) demo_resource =
     Some (PartitionAssignment_new demo_resource ow fs e)"
  by (simp add: demo_snapshot_def assignment_for_def)

theorem stamp_fences_owner_changes_witness:
  "\<exists>s t. assignment_for (fst (stamp_assignment_epochs (demo_snapshot ''a'' [''b''] 7 1)
       (demo_snapshot ''b'' [''a''] 0 2))) demo_resource = Some s
     \<and> pa_owner s = ''b'' \<and> t = OwnerChanged \<and> 7 < pa_epoch s"
  using stamp_fences_owner_changes [of "demo_snapshot ''a'' [''b''] 7 1" demo_resource
      "demo_snapshot ''b'' [''a''] 0 2" "PartitionAssignment_new demo_resource ''b'' [''a''] 0"]
  by (auto simp: PartitionAssignment_new_def)

text \<open>
  The 64-bit boundary of the fencing rule: \<^verbatim>\<open>next_assignment_epoch\<close> and
  \<^verbatim>\<open>fence_assignment_epoch\<close> add one without saturation, so from the maximal epoch an ownership
  change (or an operator fence) yields epoch 0, below the committed one.
\<close>

theorem epoch_wraps_at_max:
  "\<exists>c owner. pa_owner c \<noteq> owner
     \<and> next_assignment_epoch (Some c) owner = (0, OwnerChanged)
     \<and> fence_assignment_epoch c = 0 \<and> 0 < pa_epoch c"
  by (rule exI [of _ "PartitionAssignment_new demo_resource ''a'' [] u64_max"],
      rule exI [of _ "''b''"])
     (simp add: next_assignment_epoch_def fence_assignment_epoch_def PartitionAssignment_new_def
       word_gt_0)

text \<open>
  C35. Quorum intersection of \<^verbatim>\<open>MajorityDurable\<close>: on every assignment with this policy the requirement
  resolves to durable writes on a number of nodes that the replica set can provide, and any two sets of
  replicas, taken from the owner and the followers, that reach this number have a common member.
\<close>

theorem majority_durable_quorums_intersect:
  assumes "pa_durability a = MajorityDurable"
  shows "\<exists>q. durability_requirement a = Inr q \<and> rd_acknowledgement q = Durable
    \<and> rd_nodes q \<le> replica_set_size a
    \<and> (\<forall>A B. A \<union> B \<subseteq> insert (pa_owner a) (set (pa_followers a)) \<and> rd_nodes q \<le> card A \<and> rd_nodes q \<le> card B
         \<longrightarrow> A \<inter> B \<noteq> {})"
proof -
  let ?n = "replica_set_size a"
  let ?q = "\<lparr>rd_nodes = ?n div 2 + 1, rd_acknowledgement = Durable\<rparr>"
  have q: "durability_requirement a = Inr ?q" "?n div 2 + 1 \<le> ?n"
    using assms by (simp_all add: durability_requirement_def policy_resolve_def policy_requirement_def
        requirement_validate_def replica_set_size_def Let_def)
  have "A \<inter> B \<noteq> {}" if sub: "A \<union> B \<subseteq> insert (pa_owner a) (set (pa_followers a))"
      and big: "?n div 2 + 1 \<le> card A" "?n div 2 + 1 \<le> card B" for A B
  proof
    assume "A \<inter> B = {}"
    moreover have "finite (A \<union> B)" using sub by (rule finite_subset) simp
    ultimately have "card (A \<union> B) = card A + card B" by (simp add: card_Un_disjoint)
    moreover have "card (A \<union> B) \<le> card (insert (pa_owner a) (set (pa_followers a)))"
      using sub by (intro card_mono) auto
    moreover have "\<dots> \<le> ?n"
      using card_length [of "pa_followers a"] by (simp add: replica_set_size_def card_insert_if)
    ultimately show False using big by linarith
  qed
  then show ?thesis using q by (intro exI [of _ ?q]) simp
qed

theorem majority_durable_quorums_intersect_witness:
  "\<exists>q. durability_requirement ((PartitionAssignment_new demo_resource ''a'' [''b'', ''c''] 1)
        \<lparr>pa_durability := MajorityDurable\<rparr>) = Inr q \<and> rd_nodes q \<le> 3
     \<and> (\<forall>A B. A \<union> B \<subseteq> {''a'', ''b'', ''c''} \<and> rd_nodes q \<le> card A \<and> rd_nodes q \<le> card B \<longrightarrow> A \<inter> B \<noteq> {})"
proof -
  let ?a = "(PartitionAssignment_new demo_resource ''a'' [''b'', ''c''] 1)\<lparr>pa_durability := MajorityDurable\<rparr>"
  have policy: "pa_durability ?a = MajorityDurable"
    and replicas: "insert (pa_owner ?a) (set (pa_followers ?a)) = {''a'', ''b'', ''c''}"
    and size: "replica_set_size ?a = 3"
    by (simp_all add: PartitionAssignment_new_def replica_set_size_def)
  show ?thesis using majority_durable_quorums_intersect [OF policy, unfolded replicas size] by blast
qed

text \<open>
  The pair-sequence encoding of the assignments loses nothing: deserializing what was
  serialized gives the same map back, and the sequence is in strictly increasing key order.
\<close>

theorem assignment_pairs_roundtrip:
  "assignment_pairs_deserialize (assignment_pairs_serialize m) = m
   \<and> sorted_wrt (<) (map fst (assignment_pairs_serialize m))"
  by (simp add: assignment_pairs_deserialize_def assignment_pairs_serialize_def
      bt_of_list_entries bt.iter_sorted)

end
