(* ===== verification/Local_Transitions.thy ===== *)
theory Local_Transitions
  imports Core_Model
begin

text \<open>
  Role transitions of one node between two snapshots (\<^verbatim>\<open>local_assignment_role\<close> and
  \<^verbatim>\<open>plan_local_assignment_transitions\<close> of \<^verbatim>\<open>ganglion-core/src/lib.rs\<close>).
\<close>

datatype LocalRole = RoleOwner | RoleFollower | RoleNone

datatype LocalTransition =
    KeepOwner ResourceIdentity
  | KeepFollower ResourceIdentity
  | PromoteFollowerToOwner ResourceIdentity u64
  | DemoteOwnerToFollower ResourceIdentity u64 u64
  | StopServing ResourceIdentity bool

definition local_assignment_role ::
    "CoordinationSnapshot \<Rightarrow> string \<Rightarrow> ResourceIdentity \<Rightarrow> LocalRole" where
  "local_assignment_role snapshot node_id resource =
     (case assignment_for snapshot resource of
        None \<Rightarrow> RoleNone
      | Some assignment \<Rightarrow>
          if pa_owner assignment = node_id then RoleOwner
          else if list_ex (\<lambda>follower. follower = node_id) (pa_followers assignment) then RoleFollower
          else RoleNone)"

text \<open>\<^verbatim>\<open>assignment_for(resource).map_or(default, |a| a.epoch)\<close>\<close>

definition epoch_or :: "u64 \<Rightarrow> CoordinationSnapshot \<Rightarrow> ResourceIdentity \<Rightarrow> u64" where
  "epoch_or d s r = (case assignment_for s r of None \<Rightarrow> d | Some a \<Rightarrow> pa_epoch a)"

definition local_transition ::
    "string \<Rightarrow> CoordinationSnapshot \<Rightarrow> CoordinationSnapshot \<Rightarrow> ResourceIdentity \<Rightarrow> LocalTransition option" where
  "local_transition node_id prev nxt resource =
     (case (local_assignment_role prev node_id resource, local_assignment_role nxt node_id resource) of
        (RoleOwner, RoleOwner) \<Rightarrow> Some (KeepOwner resource)
      | (RoleFollower, RoleFollower) \<Rightarrow> Some (KeepFollower resource)
      | (RoleNone, RoleOwner) \<Rightarrow> Some (PromoteFollowerToOwner resource (epoch_or 1 nxt resource))
      | (RoleFollower, RoleOwner) \<Rightarrow> Some (PromoteFollowerToOwner resource (epoch_or 1 nxt resource))
      | (RoleOwner, RoleFollower) \<Rightarrow>
          let previous_epoch = epoch_or 0 prev resource in
          Some (DemoteOwnerToFollower resource previous_epoch (epoch_or previous_epoch nxt resource))
      | (RoleOwner, RoleNone) \<Rightarrow> Some (StopServing resource True)
      | (RoleFollower, RoleNone) \<Rightarrow> Some (StopServing resource False)
      | (RoleNone, RoleFollower) \<Rightarrow> Some (KeepFollower resource)
      | (RoleNone, RoleNone) \<Rightarrow> None)"

definition plan_local_assignment_transitions ::
    "string \<Rightarrow> CoordinationSnapshot \<Rightarrow> CoordinationSnapshot \<Rightarrow> LocalTransition list" where
  "plan_local_assignment_transitions node_id prev nxt =
     (let resources = fold bs_insert (bt_keys (cs_assignments nxt))
            (bs_of_list (bt_keys (cs_assignments prev)))
      in List.map_filter (local_transition node_id prev nxt) (bt_keys resources))"

section \<open>Properties\<close>

fun transition_resource :: "LocalTransition \<Rightarrow> ResourceIdentity" where
  "transition_resource (KeepOwner r) = r"
| "transition_resource (KeepFollower r) = r"
| "transition_resource (PromoteFollowerToOwner r _) = r"
| "transition_resource (DemoteOwnerToFollower r _ _) = r"
| "transition_resource (StopServing r _) = r"

text \<open>The role a node has once it has carried a transition out.\<close>

fun role_after :: "LocalTransition \<Rightarrow> LocalRole" where
  "role_after (KeepOwner _) = RoleOwner"
| "role_after (KeepFollower _) = RoleFollower"
| "role_after (PromoteFollowerToOwner _ _) = RoleOwner"
| "role_after (DemoteOwnerToFollower _ _ _) = RoleFollower"
| "role_after (StopServing _ _) = RoleNone"

lemma local_transition_resource: "local_transition n p q r = Some t \<Longrightarrow> transition_resource t = r"
  by (auto simp: local_transition_def Let_def split: LocalRole.splits)

lemma local_transition_role_after:
  "local_transition n p q r = Some t \<Longrightarrow> role_after t = local_assignment_role q n r"
  by (auto simp: local_transition_def Let_def split: LocalRole.splits)

lemma local_transition_None:
  "local_transition n p q r = None \<longleftrightarrow>
     local_assignment_role p n r = RoleNone \<and> local_assignment_role q n r = RoleNone"
  by (auto simp: local_transition_def Let_def split: LocalRole.splits)

lemma role_none_unassigned: "assignment_for s r = None \<Longrightarrow> local_assignment_role s n r = RoleNone"
  by (simp add: local_assignment_role_def)

lemma transition_resources_set:
  "r \<in> set (bt_keys (fold bs_insert (bt_keys (cs_assignments q)) (bs_of_list (bt_keys (cs_assignments p)))))
     \<longleftrightarrow> assignment_for p r \<noteq> None \<or> assignment_for q r \<noteq> None"
  by (simp add: bs_keys_contains bs_contains_fold) (auto simp: bt_keys_iff assignment_for_def)

lemma set_map_filter: "t \<in> set (List.map_filter f xs) \<longleftrightarrow> (\<exists>x \<in> set xs. f x = Some t)"
  by (induction xs) (auto simp: List.map_filter_def)

lemma set_plan_local:
  "t \<in> set (plan_local_assignment_transitions n p q) \<longleftrightarrow> (\<exists>r. local_transition n p q r = Some t)"
proof -
  have "local_transition n p q r = Some t \<Longrightarrow> assignment_for p r \<noteq> None \<or> assignment_for q r \<noteq> None" for r
    using local_transition_None [of n p q r] role_none_unassigned by force
  then show ?thesis
    unfolding plan_local_assignment_transitions_def Let_def set_map_filter
    by (metis transition_resources_set)
qed

lemma map_filter_sorted:
  assumes "sorted_wrt (<) rs" "\<And>r t. f r = Some t \<Longrightarrow> g t = r"
  shows "sorted_wrt (<) (map g (List.map_filter f rs))"
  using assms
proof (induction rs)
  case (Cons r rs)
  have "\<forall>t \<in> set (List.map_filter f rs). g t \<in> set rs"
    using Cons.prems(2) by (auto simp: List.map_filter_def)
  with Cons show ?case by (auto simp: List.map_filter_def split: option.split)
qed (simp add: List.map_filter_def)

lemma plan_local_sorted:
  "sorted_wrt (<) (map transition_resource (plan_local_assignment_transitions n p q))"
  unfolding plan_local_assignment_transitions_def Let_def
  by (rule map_filter_sorted [OF bt_keys_sorted]) (rule local_transition_resource)

text \<open>
  C15. The transition plan is complete and exact: it lists, in strictly increasing resource order
  and at most once each, precisely the resources on which the node has a role before or after,
  and carrying a listed transition out leaves the node with its role in the new snapshot.
\<close>

theorem local_transitions_complete:
  assumes "ts = plan_local_assignment_transitions node_id prev nxt"
  shows "sorted_wrt (<) (map transition_resource ts)
    \<and> transition_resource ` set ts =
        {r. local_assignment_role prev node_id r \<noteq> RoleNone \<or> local_assignment_role nxt node_id r \<noteq> RoleNone}
    \<and> (\<forall>t \<in> set ts. role_after t = local_assignment_role nxt node_id (transition_resource t))"
proof (intro conjI ballI)
  show "transition_resource ` set ts =
      {r. local_assignment_role prev node_id r \<noteq> RoleNone \<or> local_assignment_role nxt node_id r \<noteq> RoleNone}"
  proof (intro set_eqI iffI)
    fix r
    assume "r \<in> transition_resource ` set ts"
    then have "local_transition node_id prev nxt r \<noteq> None"
      using local_transition_resource by (force simp: assms set_plan_local)
    then show "r \<in> {r. local_assignment_role prev node_id r \<noteq> RoleNone
        \<or> local_assignment_role nxt node_id r \<noteq> RoleNone}"
      by (simp add: local_transition_None)
  next
    fix r
    assume "r \<in> {r. local_assignment_role prev node_id r \<noteq> RoleNone
        \<or> local_assignment_role nxt node_id r \<noteq> RoleNone}"
    then obtain t where "local_transition node_id prev nxt r = Some t"
      using local_transition_None [of node_id prev nxt r] by auto
    then show "r \<in> transition_resource ` set ts"
      using local_transition_resource by (force simp: assms set_plan_local image_iff)
  qed
  show "role_after t = local_assignment_role nxt node_id (transition_resource t)" if "t \<in> set ts" for t
    using that local_transition_role_after local_transition_resource by (fastforce simp: assms set_plan_local)
qed (simp add: assms plan_local_sorted)

theorem local_transitions_complete_witness:
  "plan_local_assignment_transitions ''b'' (demo_snapshot ''a'' [''b''] 1 1) (demo_snapshot ''b'' [''a''] 2 2)
     = [PromoteFollowerToOwner demo_resource 2]
   \<and> local_assignment_role (demo_snapshot ''b'' [''a''] 2 2) ''b'' demo_resource = RoleOwner"
proof -
  have ts: "plan_local_assignment_transitions ''b'' (demo_snapshot ''a'' [''b''] 1 1)
      (demo_snapshot ''b'' [''a''] 2 2) = [PromoteFollowerToOwner demo_resource 2]"
    by code_simp
  show ?thesis
    using local_transitions_complete [OF ts [symmetric]] ts by simp
qed

lemma handover_epochs:
  assumes demote: "DemoteOwnerToFollower r from_epoch to_epoch \<in> set (plan_local_assignment_transitions a prev nxt)"
    and promote: "PromoteFollowerToOwner r new_epoch \<in> set (plan_local_assignment_transitions b prev nxt)"
  shows "\<exists>c n. assignment_for prev r = Some c \<and> pa_owner c = a \<and> pa_epoch c = from_epoch
    \<and> assignment_for nxt r = Some n \<and> pa_owner n = b \<and> pa_epoch n = to_epoch
    \<and> a \<noteq> b \<and> to_epoch = new_epoch"
proof -
  have d: "local_transition a prev nxt r = Some (DemoteOwnerToFollower r from_epoch to_epoch)"
    using demote local_transition_resource by (fastforce simp: set_plan_local)
  have p: "local_transition b prev nxt r = Some (PromoteFollowerToOwner r new_epoch)"
    using promote local_transition_resource by (fastforce simp: set_plan_local)
  obtain c n where c: "assignment_for prev r = Some c" "pa_owner c = a" "pa_epoch c = from_epoch"
    and n: "assignment_for nxt r = Some n" "pa_owner n \<noteq> a" "pa_epoch n = to_epoch"
    using d by (auto simp: local_transition_def local_assignment_role_def epoch_or_def Let_def
        split: LocalRole.splits option.splits if_splits)
  have b: "pa_owner n = b" "pa_epoch n = new_epoch"
    using p n by (auto simp: local_transition_def local_assignment_role_def epoch_or_def Let_def
        split: LocalRole.splits option.splits if_splits)
  then show ?thesis using c n by (intro exI [of _ c] exI [of _ n]) auto
qed

text \<open>
  Ownership is exclusive and hand-over is fenced: no two nodes own a resource in the same
  snapshot, and when stamped epochs move a resource from one node to another, the old owner's
  demotion names an old epoch strictly below the epoch both it and the new owner are told.
\<close>

theorem handover_is_fenced:
  assumes stamped: "nxt = fst (stamp_assignment_epochs prev desired)"
    and bound: "\<forall>c. assignment_for prev r = Some c \<longrightarrow> pa_epoch c \<noteq> u64_max"
    and demote: "DemoteOwnerToFollower r from_epoch to_epoch \<in> set (plan_local_assignment_transitions a prev nxt)"
    and promote: "PromoteFollowerToOwner r new_epoch \<in> set (plan_local_assignment_transitions b prev nxt)"
  shows "a \<noteq> b \<and> from_epoch < to_epoch \<and> to_epoch = new_epoch"
proof -
  obtain c n where c: "assignment_for prev r = Some c" "pa_owner c = a" "pa_epoch c = from_epoch"
    and n: "assignment_for nxt r = Some n" "pa_owner n = b" "pa_epoch n = to_epoch"
    and ab: "a \<noteq> b" "to_epoch = new_epoch"
    using handover_epochs [OF demote promote] by blast
  have "pa_epoch n = from_epoch + 1"
    using n c ab by (auto simp: stamped stamp_get next_assignment_epoch_def)
  then show ?thesis using n ab c bound by (auto simp: u64_less_succ)
qed

theorem handover_is_fenced_witness:
  "(1 :: u64) < 2 \<and> ''a'' \<noteq> ''b''"
proof -
  let ?p = "demo_snapshot ''a'' [''b''] 1 1" and ?d = "demo_snapshot ''b'' [''a''] 0 2"
  let ?n = "fst (stamp_assignment_epochs ?p ?d)"
  have a: "DemoteOwnerToFollower demo_resource 1 2 \<in> set (plan_local_assignment_transitions ''a'' ?p ?n)"
    by code_simp
  have b: "PromoteFollowerToOwner demo_resource 2 \<in> set (plan_local_assignment_transitions ''b'' ?p ?n)"
    by code_simp
  show ?thesis
    using handover_is_fenced [OF refl _ a b] by (simp add: PartitionAssignment_new_def)
qed

end
