(* ===== verification/Shared_Value.thy ===== *)
theory Shared_Value
  imports Prelude "HOL-Library.Multiset"
begin

text \<open>
  The copy-on-write wrapper of \<^verbatim>\<open>ganglion-core/src/shared.rs\<close> on an explicit heap of
  reference-counted cells, and the proof that programs over it cannot tell it from plain values:
  the model of the snapshots' collections elsewhere in the development rests on that.

  A \<^verbatim>\<open>Shared<T>\<close> is the address of a cell holding the value and its strong count.  No weak
  pointers are ever made, so \<^verbatim>\<open>Arc::make_mut\<close> and \<^verbatim>\<open>Arc::unwrap_or_clone\<close> look at the strong
  count only.
\<close>

section \<open>Cells\<close>

record 'v rc_heap =
  rc_cells :: "nat \<Rightarrow> ('v \<times> nat) option"
  rc_next :: nat

definition rc_heap_empty :: "'v rc_heap" where
  "rc_heap_empty = \<lparr>rc_cells = (\<lambda>_. None), rc_next = 0\<rparr>"

definition Shared_new :: "'v \<Rightarrow> 'v rc_heap \<Rightarrow> 'v rc_heap \<times> nat" where
  "Shared_new x h =
     (h\<lparr>rc_cells := (rc_cells h)(rc_next h \<mapsto> (x, 1)), rc_next := rc_next h + 1\<rparr>, rc_next h)"

definition Shared_ptr_eq :: "nat \<Rightarrow> nat \<Rightarrow> bool" where
  "Shared_ptr_eq this other \<longleftrightarrow> this = other"

definition Shared_deref :: "'v rc_heap \<Rightarrow> nat \<Rightarrow> 'v option" where
  "Shared_deref h a = map_option fst (rc_cells h a)"

definition Shared_clone :: "nat \<Rightarrow> 'v rc_heap \<Rightarrow> 'v rc_heap \<times> nat" where
  "Shared_clone a h =
     (case rc_cells h a of
        Some (x, n) \<Rightarrow> (h\<lparr>rc_cells := (rc_cells h)(a \<mapsto> (x, n + 1))\<rparr>, a)
      | None \<Rightarrow> (h, a))"

text \<open>Dropping a handle; the last one frees the cell.\<close>

definition Shared_drop :: "nat \<Rightarrow> 'v rc_heap \<Rightarrow> 'v rc_heap" where
  "Shared_drop a h =
     (case rc_cells h a of
        Some (x, n) \<Rightarrow>
          if n \<le> 1 then h\<lparr>rc_cells := (rc_cells h)(a := None)\<rparr>
          else h\<lparr>rc_cells := (rc_cells h)(a \<mapsto> (x, n - 1))\<rparr>
      | None \<Rightarrow> h)"

text \<open>
  \<^verbatim>\<open>Arc::make_mut\<close> followed by the caller's mutation \<open>f\<close>: in place when the handle is the only
  one, on a fresh copy otherwise.
\<close>

definition Shared_deref_mut :: "('v \<Rightarrow> 'v) \<Rightarrow> nat \<Rightarrow> 'v rc_heap \<Rightarrow> 'v rc_heap \<times> nat" where
  "Shared_deref_mut f a h =
     (case rc_cells h a of
        Some (x, n) \<Rightarrow>
          if n = 1 then (h\<lparr>rc_cells := (rc_cells h)(a \<mapsto> (f x, 1))\<rparr>, a)
          else (case Shared_new (f x) h of (h', a') \<Rightarrow> (Shared_drop a h', a'))
      | None \<Rightarrow> (h, a))"

definition Shared_into_inner :: "nat \<Rightarrow> 'v rc_heap \<Rightarrow> 'v rc_heap \<times> 'v option" where
  "Shared_into_inner a h = (Shared_drop a h, Shared_deref h a)"

definition Shared_from_iter :: "('i list \<Rightarrow> 'v) \<Rightarrow> 'i list \<Rightarrow> 'v rc_heap \<Rightarrow> 'v rc_heap \<times> nat" where
  "Shared_from_iter from_iter items h = Shared_new (from_iter items) h"

definition Shared_into_iter :: "('v \<Rightarrow> 'i list) \<Rightarrow> nat \<Rightarrow> 'v rc_heap \<Rightarrow> 'v rc_heap \<times> 'i list option" where
  "Shared_into_iter into_iter a h = (case Shared_into_inner a h of (h', x) \<Rightarrow> (h', map_option into_iter x))"

definition Shared_eq :: "'v rc_heap \<Rightarrow> nat \<Rightarrow> nat \<Rightarrow> bool" where
  "Shared_eq h a b \<longleftrightarrow> Shared_ptr_eq a b \<or> Shared_deref h a = Shared_deref h b"

definition Shared_serialize :: "('v \<Rightarrow> 's) \<Rightarrow> 'v rc_heap \<Rightarrow> nat \<Rightarrow> 's option" where
  "Shared_serialize serialize h a = map_option serialize (Shared_deref h a)"

definition Shared_deserialize ::
    "('s \<Rightarrow> ('e, 'v) result) \<Rightarrow> 's \<Rightarrow> 'v rc_heap \<Rightarrow> 'v rc_heap \<times> ('e, nat) result" where
  "Shared_deserialize deserialize s h =
     (case deserialize s of
        Inl e \<Rightarrow> (h, Inl e)
      | Inr x \<Rightarrow> (case Shared_new x h of (h', a) \<Rightarrow> (h', Inr a)))"

section \<open>The contract of shared values\<close>

text \<open>\<open>wf h hs\<close>: the heap's counts are those of the multiset \<open>hs\<close> of live handles.\<close>

locale shared_values =
  fixes wf :: "'h \<Rightarrow> nat multiset \<Rightarrow> bool"
    and deref :: "'h \<Rightarrow> nat \<Rightarrow> 'v option"
    and new_cell :: "'v \<Rightarrow> 'h \<Rightarrow> 'h \<times> nat"
    and clone :: "nat \<Rightarrow> 'h \<Rightarrow> 'h \<times> nat"
    and drop_handle :: "nat \<Rightarrow> 'h \<Rightarrow> 'h"
    and mutate :: "('v \<Rightarrow> 'v) \<Rightarrow> nat \<Rightarrow> 'h \<Rightarrow> 'h \<times> nat"
  assumes live: "wf h hs \<Longrightarrow> deref h a \<noteq> None \<longleftrightarrow> a \<in># hs"
    and new_cell: "wf h hs \<Longrightarrow> new_cell x h = (h', a) \<Longrightarrow> wf h' (add_mset a hs) \<and> a \<notin># hs
        \<and> deref h' a = Some x \<and> (\<forall>b. b \<noteq> a \<longrightarrow> deref h' b = deref h b)"
    and clone: "wf h hs \<Longrightarrow> a \<in># hs \<Longrightarrow> clone a h = (h', b) \<Longrightarrow> b = a \<and> wf h' (add_mset a hs)
        \<and> deref h' = deref h"
    and drop_handle: "wf h hs \<Longrightarrow> a \<in># hs \<Longrightarrow> wf (drop_handle a h) (hs - {#a#})
        \<and> (\<forall>b \<in># hs - {#a#}. deref (drop_handle a h) b = deref h b)"
    and mutate: "wf h hs \<Longrightarrow> a \<in># hs \<Longrightarrow> deref h a = Some x \<Longrightarrow> mutate f a h = (h', b) \<Longrightarrow>
        wf h' (add_mset b (hs - {#a#})) \<and> b \<notin># hs - {#a#} \<and> deref h' b = Some (f x)
        \<and> (\<forall>c \<in># hs - {#a#}. deref h' c = deref h c)"
begin

text \<open>Programs over named handles: the variables, and what they hold.\<close>

definition handles :: "('x \<rightharpoonup> nat) \<Rightarrow> nat multiset" where
  "handles vars = image_mset (\<lambda>x. the (vars x)) (mset_set (dom vars))"

definition inv :: "'h \<Rightarrow> ('x \<rightharpoonup> nat) \<Rightarrow> bool" where
  "inv h vars \<longleftrightarrow> finite (dom vars) \<and> wf h (handles vars)"

definition values_of :: "'h \<Rightarrow> ('x \<rightharpoonup> nat) \<Rightarrow> 'x \<rightharpoonup> 'v" where
  "values_of h vars x = (case vars x of None \<Rightarrow> None | Some a \<Rightarrow> deref h a)"

lemma handles_member: "finite (dom vars) \<Longrightarrow> vars x = Some a \<Longrightarrow> a \<in># handles vars"
  unfolding handles_def by (force simp: dom_def)

lemma handles_update:
  assumes "finite (dom vars)"
  shows "handles (vars(x \<mapsto> a)) = add_mset a (case vars x of None \<Rightarrow> handles vars | Some b \<Rightarrow> handles vars - {#b#})"
proof -
  have img: "image_mset (\<lambda>y. the ((vars(x \<mapsto> a)) y)) (mset_set (dom vars - {x}))
      = image_mset (\<lambda>y. the (vars y)) (mset_set (dom vars - {x}))"
    using assms by (intro image_mset_cong) auto
  have "mset_set (dom (vars(x \<mapsto> a))) = add_mset x (mset_set (dom vars - {x}))"
    using assms mset_set.insert [of "dom vars - {x}" x] by (simp add: insert_Diff_single)
  then have "handles (vars(x \<mapsto> a)) = add_mset a (image_mset (\<lambda>y. the (vars y)) (mset_set (dom vars - {x})))"
    unfolding handles_def using img by simp
  moreover have "image_mset (\<lambda>y. the (vars y)) (mset_set (dom vars - {x}))
      = (case vars x of None \<Rightarrow> handles vars | Some b \<Rightarrow> handles vars - {#b#})"
  proof (cases "vars x")
    case (Some b)
    then have "x \<in> dom vars" by auto
    then have "mset_set (dom vars) = add_mset x (mset_set (dom vars - {x}))"
      using assms by (metis mset_set.remove)
    then show ?thesis using Some by (simp add: handles_def)
  next
    case None
    then have "dom vars - {x} = dom vars" by auto
    then show ?thesis using None by (simp add: handles_def)
  qed
  ultimately show ?thesis by simp
qed

lemma handles_others:
  assumes "finite (dom vars)" "vars x = Some a" "vars y = Some b" "y \<noteq> x"
  shows "b \<in># handles vars - {#a#}"
proof -
  have "handles vars = add_mset a (case (vars(x := None)) x of None \<Rightarrow> handles (vars(x := None))
      | Some b \<Rightarrow> handles (vars(x := None)) - {#b#})"
    using handles_update [of "vars(x := None)" x a] assms(1,2) by (simp add: fun_upd_idem)
  then have "handles vars - {#a#} = handles (vars(x := None))" by simp
  moreover have "b \<in># handles (vars(x := None))"
    using assms by (intro handles_member [of _ y]) auto
  ultimately show ?thesis by simp
qed

lemma handles_remove:
  assumes "finite (dom vars)" "vars x = Some a"
  shows "handles (vars(x := None)) = handles vars - {#a#}"
  using handles_update [of "vars(x := None)" x a] assms by (simp add: fun_upd_idem)

lemma handle_live: "inv h vars \<Longrightarrow> vars x = Some a \<Longrightarrow> \<exists>v. deref h a = Some v"
  using live handles_member by (fastforce simp: inv_def)

text \<open>Storing a fresh handle into a variable drops the one it held.\<close>

definition store :: "'x \<Rightarrow> 'h \<times> nat \<Rightarrow> ('x \<rightharpoonup> nat) \<Rightarrow> 'h \<times> ('x \<rightharpoonup> nat)" where
  "store x r vars =
     (case r of (h, a) \<Rightarrow>
        (case vars x of None \<Rightarrow> (h, vars(x \<mapsto> a)) | Some b \<Rightarrow> (drop_handle b h, vars(x \<mapsto> a))))"

lemma store_refines:
  assumes fin: "finite (dom vars)" and wf: "wf h (add_mset a (handles vars))" and a: "deref h a = Some v"
    and same: "\<And>b. b \<in># handles vars \<Longrightarrow> deref h b = deref h0 b"
    and st: "store x (h, a) vars = (h', vars')"
  shows "inv h' vars' \<and> values_of h' vars' = (values_of h0 vars)(x \<mapsto> v)"
proof (cases "vars x")
  case None
  then have "h' = h" "vars' = vars(x \<mapsto> a)" using st by (auto simp: store_def)
  moreover have "values_of h vars y = values_of h0 vars y" for y
    using same handles_member [OF fin] by (auto simp: values_of_def split: option.splits)
  ultimately have "values_of h' vars' = (values_of h0 vars)(x \<mapsto> v)" "inv h' vars'"
    using wf fin None a by (auto simp: inv_def handles_update [OF fin] values_of_def)
  then show ?thesis by simp
next
  case (Some b)
  then have h': "h' = drop_handle b h" "vars' = vars(x \<mapsto> a)" using st by (auto simp: store_def)
  have b: "b \<in># handles vars" by (rule handles_member [OF fin Some])
  then have d: "wf h' (add_mset a (handles vars) - {#b#})"
    "\<forall>c \<in># add_mset a (handles vars) - {#b#}. deref h' c = deref h c"
    using drop_handle [OF wf, of b] h'(1) by auto
  have rest: "add_mset a (handles vars) - {#b#} = add_mset a (handles vars - {#b#})"
    using b by (metis add_mset_add_single add_mset_remove_trivial_eq insert_DiffM2 multi_member_split
        diff_union_swap add_mset_commute add_mset_remove_trivial)
  have "values_of h' vars' y = ((values_of h0 vars)(x \<mapsto> v)) y" for y
  proof (cases "y = x")
    case True
    then show ?thesis using h'(2) d(2) a by (simp add: values_of_def rest)
  next
    case False
    have "deref h' c = deref h0 c" if "vars y = Some c" for c
      using handles_others [OF fin Some that False] d(2) same handles_member [OF fin that] by (simp add: rest)
    then show ?thesis using False h'(2) by (auto simp: values_of_def split: option.splits)
  qed
  moreover have "inv h' vars'" using d(1) fin Some by (simp add: inv_def h'(2) handles_update [OF fin] rest)
  ultimately show ?thesis by auto
qed

lemma new_refines:
  assumes "inv h vars" "store x (new_cell v h) vars = (h', vars')"
  shows "inv h' vars' \<and> values_of h' vars' = (values_of h vars)(x \<mapsto> v)"
proof (cases "new_cell v h")
  case (Pair h1 a)
  note n = new_cell [of h "handles vars" v h1 a]
  show ?thesis
    by (rule store_refines [of vars h1 a v h x]) (use assms n Pair in \<open>auto simp: inv_def\<close>)
qed

lemma clone_refines:
  assumes "inv h vars" "vars y = Some a" "values_of h vars y = Some v"
    and "store x (clone a h) vars = (h', vars')"
  shows "inv h' vars' \<and> values_of h' vars' = (values_of h vars)(x \<mapsto> v)"
proof (cases "clone a h")
  case (Pair h1 b)
  have "a \<in># handles vars" using assms handles_member by (auto simp: inv_def)
  then have n: "b = a \<and> wf h1 (add_mset a (handles vars)) \<and> deref h1 = deref h"
    using clone [of h "handles vars" a h1 b] assms Pair by (simp add: inv_def)
  show ?thesis
    by (rule store_refines [of vars h1 a v h x]) (use assms n Pair in \<open>auto simp: inv_def values_of_def\<close>)
qed

lemma mutate_refines:
  assumes i: "inv h vars" and x: "vars x = Some a" "values_of h vars x = Some v"
    and m: "mutate f a h = (h', b)"
  shows "inv h' (vars(x \<mapsto> b)) \<and> values_of h' (vars(x \<mapsto> b)) = (values_of h vars)(x \<mapsto> f v)"
proof -
  have fin: "finite (dom vars)" and wf: "wf h (handles vars)" using i by (auto simp: inv_def)
  have "deref h a = Some v" using x by (simp add: values_of_def)
  note mut = mutate [OF wf handles_member [OF fin x(1)] this m]
  have "values_of h' (vars(x \<mapsto> b)) y = ((values_of h vars)(x \<mapsto> f v)) y" for y
  proof (cases "y = x")
    case False
    then show ?thesis using mut handles_others [OF fin x(1), of y]
      by (auto simp: values_of_def split: option.splits)
  qed (use mut in \<open>simp add: values_of_def\<close>)
  then show ?thesis using mut fin x(1) by (auto simp: inv_def handles_update [OF fin])
qed

lemma drop_refines:
  assumes i: "inv h vars" and x: "vars x = Some a"
  shows "inv (drop_handle a h) (vars(x := None))
    \<and> values_of (drop_handle a h) (vars(x := None)) = (values_of h vars)(x := None)"
proof -
  have fin: "finite (dom vars)" and wf: "wf h (handles vars)" using i by (auto simp: inv_def)
  note d = drop_handle [OF wf handles_member [OF fin x]]
  have "values_of (drop_handle a h) (vars(x := None)) y = ((values_of h vars)(x := None)) y" for y
    using d handles_others [OF fin x, of y] by (auto simp: values_of_def split: option.splits)
  then show ?thesis using d fin x by (auto simp: inv_def handles_remove)
qed

end

section \<open>The reference-counted heap keeps the contract\<close>

definition rc_count :: "'v rc_heap \<Rightarrow> nat \<Rightarrow> nat" where
  "rc_count h a = (case rc_cells h a of None \<Rightarrow> 0 | Some (x, n) \<Rightarrow> n)"

definition rc_wf :: "'v rc_heap \<Rightarrow> nat multiset \<Rightarrow> bool" where
  "rc_wf h hs \<longleftrightarrow> (\<forall>a. count hs a = rc_count h a)
     \<and> (\<forall>a x n. rc_cells h a = Some (x, n) \<longrightarrow> 0 < n) \<and> (\<forall>a. rc_next h \<le> a \<longrightarrow> rc_cells h a = None)"

lemma rc_wfI:
  "(\<And>a. count hs a = rc_count h a) \<Longrightarrow> (\<And>a x n. rc_cells h a = Some (x, n) \<Longrightarrow> 0 < n) \<Longrightarrow>
     (\<And>a. rc_next h \<le> a \<Longrightarrow> rc_cells h a = None) \<Longrightarrow> rc_wf h hs"
  by (auto simp: rc_wf_def)

lemma rc_wf_cells: "rc_wf h hs \<Longrightarrow> rc_cells h a = Some (x, n) \<Longrightarrow> count hs a = n \<and> 0 < n"
  by (simp add: rc_wf_def rc_count_def)

lemma rc_wf_free: "rc_wf h hs \<Longrightarrow> rc_cells h a = None \<Longrightarrow> count hs a = 0"
  by (simp add: rc_wf_def rc_count_def)

lemma rc_wf_None:
  assumes "rc_wf h hs"
  shows "a \<notin># hs \<longleftrightarrow> rc_cells h a = None"
proof (cases "rc_cells h a")
  case None
  then show ?thesis using rc_wf_free [OF assms] by (simp add: not_in_iff)
next
  case (Some c)
  then show ?thesis using rc_wf_cells [OF assms, of a] by (cases c) (simp add: not_in_iff)
qed

lemma rc_wfD:
  assumes "rc_wf h hs" "a \<in># hs"
  shows "\<exists>x. rc_cells h a = Some (x, count hs a)"
proof -
  obtain x n where c: "rc_cells h a = Some (x, n)" using rc_wf_None [OF assms(1), of a] assms(2) by auto
  then show ?thesis using rc_wf_cells [OF assms(1) c] by simp
qed

lemma rc_wf_bound: "rc_wf h hs \<Longrightarrow> a \<in># hs \<Longrightarrow> a < rc_next h"
proof (rule ccontr)
  assume wf: "rc_wf h hs" and a: "a \<in># hs" and "\<not> a < rc_next h"
  then have "rc_cells h a = None" by (simp add: rc_wf_def)
  then show False using rc_wf_None [OF wf] a by blast
qed

lemma rc_drop:
  assumes "rc_wf h hs" "a \<in># hs"
  shows "rc_wf (Shared_drop a h) (hs - {#a#}) \<and> (\<forall>b \<in># hs - {#a#}. Shared_deref (Shared_drop a h) b = Shared_deref h b)"
proof -
  obtain x where x: "rc_cells h a = Some (x, count hs a)" using rc_wfD [OF assms] by blast
  have d: "Shared_drop a h = h\<lparr>rc_cells := (rc_cells h)(a := if count hs a \<le> 1 then None else Some (x, count hs a - 1))\<rparr>"
    using x by (simp add: Shared_drop_def)
  have "rc_wf (Shared_drop a h) (hs - {#a#})"
    unfolding d using assms(1) x
    by (intro rc_wfI) (auto simp: rc_wf_def rc_count_def split: if_splits)
  moreover have "Shared_deref (Shared_drop a h) b = Shared_deref h b" if "b \<in># hs - {#a#}" for b
    using that x by (cases "b = a") (auto simp: d Shared_deref_def in_diff_count)
  ultimately show ?thesis by blast
qed

lemma rc_new:
  assumes "rc_wf h hs" "Shared_new x h = (h', a)"
  shows "rc_wf h' (add_mset a hs) \<and> a \<notin># hs \<and> Shared_deref h' a = Some x
    \<and> (\<forall>b. b \<noteq> a \<longrightarrow> Shared_deref h' b = Shared_deref h b)"
proof -
  have a: "a = rc_next h" and h': "h' = h\<lparr>rc_cells := (rc_cells h)(a \<mapsto> (x, 1)), rc_next := a + 1\<rparr>"
    using assms(2) by (auto simp: Shared_new_def)
  have n: "a \<notin># hs" using rc_wf_bound [OF assms(1), of a] a by auto
  have "rc_wf h' (add_mset a hs)"
    unfolding h' using assms(1) a n
    by (intro rc_wfI) (auto simp: rc_wf_def rc_count_def not_in_iff split: if_splits)
  then show ?thesis using n by (simp add: h' Shared_deref_def)
qed

lemma rc_clone:
  assumes "rc_wf h hs" "a \<in># hs" "Shared_clone a h = (h', b)"
  shows "b = a \<and> rc_wf h' (add_mset a hs) \<and> Shared_deref h' = Shared_deref h"
proof -
  obtain x where x: "rc_cells h a = Some (x, count hs a)" using rc_wfD [OF assms(1,2)] by blast
  then have h': "h' = h\<lparr>rc_cells := (rc_cells h)(a \<mapsto> (x, count hs a + 1))\<rparr>" "b = a"
    using assms(3) by (auto simp: Shared_clone_def)
  have "rc_wf h' (add_mset a hs)"
    unfolding h' using assms(1) x by (intro rc_wfI) (auto simp: rc_wf_def rc_count_def split: if_splits)
  then show ?thesis using x h' by (simp add: Shared_deref_def fun_eq_iff)
qed

lemma rc_mutate_alone:
  assumes "rc_wf h hs" "count hs a = 1"
  shows "rc_wf (h\<lparr>rc_cells := (rc_cells h)(a \<mapsto> (y, 1))\<rparr>) hs"
proof -
  have "a \<in># hs" using assms(2) not_in_iff [of a hs] by auto
  then have "a < rc_next h" by (rule rc_wf_bound [OF assms(1)])
  then show ?thesis using assms
    by (intro rc_wfI) (auto simp: rc_wf_def rc_count_def split: if_splits)
qed

interpretation rc: shared_values rc_wf Shared_deref Shared_new Shared_clone Shared_drop Shared_deref_mut
proof unfold_locales
  fix h :: "'v rc_heap" and hs a assume wf: "rc_wf h hs"
  show "Shared_deref h a \<noteq> None \<longleftrightarrow> a \<in># hs" using rc_wf_None [OF wf, of a] by (auto simp: Shared_deref_def)
next
  fix h h' :: "'v rc_heap" and hs a b assume "rc_wf h hs" "a \<in># hs" "Shared_clone a h = (h', b)"
  then show "b = a \<and> rc_wf h' (add_mset a hs) \<and> Shared_deref h' = Shared_deref h"
    by (rule rc_clone)
next
  fix h h' :: "'v rc_heap" and hs a b x f
  assume wf: "rc_wf h hs" and a: "a \<in># hs" and x: "Shared_deref h a = Some x"
    and m: "Shared_deref_mut f a h = (h', b)"
  have cell: "rc_cells h a = Some (x, count hs a)" using rc_wfD [OF wf a] x by (auto simp: Shared_deref_def)
  show "rc_wf h' (add_mset b (hs - {#a#})) \<and> b \<notin># hs - {#a#} \<and> Shared_deref h' b = Some (f x)
      \<and> (\<forall>c \<in># hs - {#a#}. Shared_deref h' c = Shared_deref h c)"
  proof (cases "count hs a = 1")
    case True
    then have "h' = h\<lparr>rc_cells := (rc_cells h)(a \<mapsto> (f x, 1))\<rparr>" "b = a" using m cell by (auto simp: Shared_deref_mut_def)
    moreover have "a \<notin># hs - {#a#}" using True by (simp add: not_in_iff)
    moreover have "add_mset a (hs - {#a#}) = hs" using a by simp
    ultimately show ?thesis using rc_mutate_alone [OF wf True, of "f x"] by (auto simp: Shared_deref_def)
  next
    case False
    obtain h1 where n: "Shared_new (f x) h = (h1, b)" "h' = Shared_drop a h1"
      using m cell False by (auto simp: Shared_deref_mut_def split: prod.splits)
    note new = rc_new [OF wf n(1)]
    note drop = rc_drop [of h1 "add_mset b hs" a]
    have "add_mset b hs - {#a#} = add_mset b (hs - {#a#})" using a by (metis add_mset_remove_trivial insert_DiffM add_mset_commute)
    then show ?thesis using new drop a n(2) by (auto dest: in_diffD)
  qed
qed (auto dest: rc_drop rc_new)

section \<open>Properties\<close>

datatype ('x, 'v) shared_op =
    SNew 'x 'v | SClone 'x 'x | SMutate 'x "'v \<Rightarrow> 'v" | SDrop 'x

text \<open>Running an operation on handles, and on plain values.\<close>

definition shared_store :: "'x \<Rightarrow> 'v rc_heap \<times> nat \<Rightarrow> ('x \<rightharpoonup> nat) \<Rightarrow> 'v rc_heap \<times> ('x \<rightharpoonup> nat)" where
  "shared_store x r vars =
     (case r of (h, a) \<Rightarrow>
        (case vars x of None \<Rightarrow> (h, vars(x \<mapsto> a)) | Some b \<Rightarrow> (Shared_drop b h, vars(x \<mapsto> a))))"

fun shared_step :: "('x, 'v) shared_op \<Rightarrow> 'v rc_heap \<times> ('x \<rightharpoonup> nat) \<Rightarrow> 'v rc_heap \<times> ('x \<rightharpoonup> nat)" where
  "shared_step (SNew x v) (h, vars) = shared_store x (Shared_new v h) vars"
| "shared_step (SClone x y) (h, vars) =
     (case vars y of None \<Rightarrow> (h, vars) | Some a \<Rightarrow> shared_store x (Shared_clone a h) vars)"
| "shared_step (SMutate x f) (h, vars) =
     (case vars x of None \<Rightarrow> (h, vars)
      | Some a \<Rightarrow> (case Shared_deref_mut f a h of (h', b) \<Rightarrow> (h', vars(x \<mapsto> b))))"
| "shared_step (SDrop x) (h, vars) =
     (case vars x of None \<Rightarrow> (h, vars) | Some a \<Rightarrow> (Shared_drop a h, vars(x := None)))"

fun plain_step :: "('x, 'v) shared_op \<Rightarrow> ('x \<rightharpoonup> 'v) \<Rightarrow> 'x \<rightharpoonup> 'v" where
  "plain_step (SNew x v) m = m(x \<mapsto> v)"
| "plain_step (SClone x y) m = (case m y of None \<Rightarrow> m | Some v \<Rightarrow> m(x \<mapsto> v))"
| "plain_step (SMutate x f) m = (case m x of None \<Rightarrow> m | Some v \<Rightarrow> m(x \<mapsto> f v))"
| "plain_step (SDrop x) m = m(x := None)"

definition shared_read :: "'v rc_heap \<times> ('x \<rightharpoonup> nat) \<Rightarrow> 'x \<Rightarrow> 'v option" where
  "shared_read st x = (case snd st x of None \<Rightarrow> None | Some a \<Rightarrow> Shared_deref (fst st) a)"

lemma shared_read_values: "shared_read st = rc.values_of (fst st) (snd st)"
  by (auto simp: shared_read_def rc.values_of_def)

lemma shared_store_eq: "shared_store = rc.store"
  by (simp add: fun_eq_iff shared_store_def rc.store_def)

lemma shared_step_refines:
  assumes "rc.inv h vars"
  shows "rc.inv (fst (shared_step p (h, vars))) (snd (shared_step p (h, vars)))
    \<and> shared_read (shared_step p (h, vars)) = plain_step p (shared_read (h, vars))"
proof (cases p)
  case (SNew x v)
  then show ?thesis using rc.new_refines [OF assms, of x v]
    by (cases "shared_step p (h, vars)") (auto simp: shared_store_eq shared_read_values)
next
  case (SClone x y)
  show ?thesis
  proof (cases "vars y")
    case None
    then show ?thesis using SClone assms by (simp add: shared_read_def)
  next
    case (Some a)
    then obtain v where v: "Shared_deref h a = Some v" using rc.handle_live [OF assms] by blast
    then show ?thesis using SClone Some rc.clone_refines [OF assms Some, of v x]
      by (cases "shared_step p (h, vars)") (auto simp: shared_store_eq shared_read_values rc.values_of_def)
  qed
next
  case (SMutate x f)
  show ?thesis
  proof (cases "vars x")
    case None
    then show ?thesis using SMutate assms by (simp add: shared_read_def)
  next
    case (Some a)
    obtain v where v: "Shared_deref h a = Some v" using rc.handle_live [OF assms Some] by blast
    obtain h' b where m: "Shared_deref_mut f a h = (h', b)" by (cases "Shared_deref_mut f a h")
    have "rc.values_of h vars x = Some v" using Some v by (simp add: rc.values_of_def)
    from rc.mutate_refines [OF assms Some this m] show ?thesis
      using SMutate Some m v by (simp add: shared_read_values rc.values_of_def)
  qed
next
  case (SDrop x)
  show ?thesis
  proof (cases "vars x")
    case None
    then show ?thesis using SDrop assms by (auto simp: shared_read_def)
  next
    case (Some a)
    then show ?thesis using SDrop rc.drop_refines [OF assms Some] by (simp add: shared_read_values)
  qed
qed

lemma shared_run_refines:
  "rc.inv (fst st) (snd st) \<Longrightarrow>
     rc.inv (fst (fold shared_step ps st)) (snd (fold shared_step ps st))
     \<and> shared_read (fold shared_step ps st) = fold plain_step ps (shared_read st)"
proof (induction ps arbitrary: st)
  case (Cons p ps)
  then show ?case using shared_step_refines [of "fst st" "snd st" p] by simp
qed simp

lemma empty_inv: "rc.inv rc_heap_empty Map.empty"
  by (simp add: rc.inv_def rc.handles_def rc_wf_def rc_heap_empty_def rc_count_def)

lemma empty_read: "shared_read (rc_heap_empty, Map.empty) = Map.empty"
  by (simp add: shared_read_def fun_eq_iff)

text \<open>
  C37. Sharing is invisible: every program of creations, clones, mutations and drops over
  \<^verbatim>\<open>Shared\<close> handles reads, in every variable, what the same program over plain values reads.  A
  mutation never shows through another handle, equality of handles is equality of values, and
  a cell is live exactly while a variable holds it, so nothing leaks and nothing dangles.
\<close>

theorem shared_is_a_value:
  fixes ps :: "('x, 'v) shared_op list" and x y :: 'x
  defines "st \<equiv> fold shared_step ps (rc_heap_empty, Map.empty)"
  shows "shared_read st = fold plain_step ps Map.empty
    \<and> (\<forall>a. rc_cells (fst st) a \<noteq> None \<longleftrightarrow> (\<exists>x. snd st x = Some a))
    \<and> (case (snd st x, snd st y) of
         (Some a, Some b) \<Rightarrow> Shared_eq (fst st) a b \<longleftrightarrow> shared_read st x = shared_read st y
       | _ \<Rightarrow> True)"
proof -
  have run: "rc.inv (fst st) (snd st)" "shared_read st = fold plain_step ps Map.empty"
    using shared_run_refines [of "(rc_heap_empty, Map.empty)" ps] by (simp_all add: st_def empty_inv empty_read)
  then have wf: "rc_wf (fst st) (rc.handles (snd st))" and fin: "finite (dom (snd st))"
    by (auto simp: rc.inv_def)
  have live: "rc_cells (fst st) a \<noteq> None \<longleftrightarrow> (\<exists>x. snd st x = Some a)" for a
    using rc_wf_None [OF wf, of a] rc.handles_member [OF fin, of _ a] fin by (auto simp: rc.handles_def)
  have eq: "case (snd st x, snd st y) of
      (Some a, Some b) \<Rightarrow> Shared_eq (fst st) a b \<longleftrightarrow> shared_read st x = shared_read st y | _ \<Rightarrow> True"
    by (auto simp: Shared_eq_def Shared_ptr_eq_def shared_read_def split: option.split)
  show ?thesis by (intro conjI allI run(2) live eq)
qed

end
