(* ===== verification/Raft_Types.thy ===== *)
theory Raft_Types
  imports Core_Model
begin

text \<open>
  The command and response types of \<^verbatim>\<open>openraft_runtime/mod.rs\<close> and the durability counters.
  The consensus library itself is not part of the repository: a leader id, a membership
  configuration and a vote are opaque, so they are the type variables \<open>'lid\<close>, \<open>'m\<close> and \<open>'vote\<close>.
  Of its log entries only what the sources read and match on is modelled: the log id with its
  index, and the payload's three forms.
\<close>

section \<open>Commands and responses\<close>

datatype MetadataRaftCommand =
    ApplySnapshot CoordinationSnapshot
  | ApplySnapshotGuarded u64 CoordinationSnapshot
  | UpdatePartitionGuarded u64 PartitionAssignment "(string, string option) btree"
  | RegisterNode NodeInfo
  | DeregisterNode string
  | RegisterResource ResourceIdentity
  | RegisterResourceWithInitialAttribute ResourceIdentity string string
  | DeregisterResource ResourceIdentity
  | DeregisterResourceWithAttribute ResourceIdentity string "string option"
  | SetAttribute string string
  | RemoveAttribute string
  | CompareAndSetAttribute string "string option" string
  | CompareAndSetAttributeGuarded u64 string "string option" string
  | DeregisterResourceReplacingAttribute ResourceIdentity string "string option" string

datatype MetadataRejection =
    StaleGeneration
  | GenerationMismatch u64 u64
  | AttributeMismatch string "string option"

record MetadataRaftResponse =
  mr_accepted :: bool
  mr_rejection :: "MetadataRejection option"
  mr_snapshot :: CoordinationSnapshot

section \<open>Log entries of the consensus library\<close>

record 'lid LogId =
  li_leader_id :: 'lid
  li_index :: u64

datatype 'm EntryPayload = Blank | Normal MetadataRaftCommand | Membership 'm

record ('lid, 'm) Entry =
  en_log_id :: "'lid LogId"
  en_payload :: "'m EntryPayload"

record ('lid, 'm) StoredMembership =
  sm_log_id :: "'lid LogId option"
  sm_membership :: 'm

record ('lid, 'm) SnapshotMeta =
  me_last_log_id :: "'lid LogId option"
  me_last_membership :: "('lid, 'm) StoredMembership"
  me_snapshot_id :: string

record 'lid LogState =
  ls_last_purged_log_id :: "'lid LogId option"
  ls_last_log_id :: "'lid LogId option"

text \<open>The constructors of the library's storage error the sources use, with the cause's text.\<close>

datatype StorageError =
    ReadSnapshot string | WriteSnapshot string | ReadStateMachine string
  | ReadLogs string | WriteLogs string | WriteVote string

section \<open>Durability counters\<close>

record StorageTelemetry =
  st_appended_records :: u64
  st_appended_batches :: u64
  st_fsyncs :: u64
  st_compactions :: u64
  st_replayed_records_last_open :: u64
  st_snapshot_persists :: u64
  st_snapshot_loads :: u64

type_synonym StorageTelemetrySnapshot = StorageTelemetry

definition StorageTelemetry_default :: StorageTelemetry where
  "StorageTelemetry_default =
     \<lparr>st_appended_records = 0, st_appended_batches = 0, st_fsyncs = 0, st_compactions = 0,
      st_replayed_records_last_open = 0, st_snapshot_persists = 0, st_snapshot_loads = 0\<rparr>"

definition telemetry_snapshot :: "StorageTelemetry \<Rightarrow> StorageTelemetrySnapshot" where
  "telemetry_snapshot self =
     \<lparr>st_appended_records = st_appended_records self,
      st_appended_batches = st_appended_batches self,
      st_fsyncs = st_fsyncs self,
      st_compactions = st_compactions self,
      st_replayed_records_last_open = st_replayed_records_last_open self,
      st_snapshot_persists = st_snapshot_persists self,
      st_snapshot_loads = st_snapshot_loads self\<rparr>"

end
