(* ===== verification/Json_Model.thy ===== *)
theory Json_Model
  imports Raft_Types "HOL-Library.Countable"
begin

text \<open>
  What the sources rely on of the serialization library, as predicates on an encoder and a
  decoder, and a concrete pair that satisfies them.  The library is not part of the repository:
  every definition that encodes takes the pair as an argument, and a property states the law it
  needs.  The concrete pair writes a value of a countable type as its number in unary between
  braces; it shows that the laws can hold together.
\<close>

section \<open>Laws of a textual codec\<close>

text \<open>An encoded value decodes to itself; an encoding is not empty and has no line break.\<close>

definition codec_roundtrip ::
    "('a \<Rightarrow> (string, string) result) \<Rightarrow> (string \<Rightarrow> (string, 'a) result) \<Rightarrow> bool" where
  "codec_roundtrip enc dec \<longleftrightarrow> (\<forall>v b. enc v = Inr b \<longrightarrow> dec b = Inr v \<and> b \<noteq> [])"

definition codec_one_line :: "('a \<Rightarrow> (string, string) result) \<Rightarrow> bool" where
  "codec_one_line enc \<longleftrightarrow> (\<forall>v b. enc v = Inr b \<longrightarrow> CHR 0x0A \<notin> set b \<and> CHR 0x0D \<notin> set b)"

text \<open>A text cut short is not a value: no proper prefix of an encoding decodes.\<close>

definition codec_prefix_free ::
    "('a \<Rightarrow> (string, string) result) \<Rightarrow> (string \<Rightarrow> (string, 'a) result) \<Rightarrow> bool" where
  "codec_prefix_free enc dec \<longleftrightarrow>
     (\<forall>v b n. enc v = Inr b \<longrightarrow> n < length b \<longrightarrow> (\<exists>e. dec (take n b) = Inl e))"

text \<open>An encoding is not white space only.\<close>

definition codec_not_blank :: "('a \<Rightarrow> (string, string) result) \<Rightarrow> bool" where
  "codec_not_blank enc \<longleftrightarrow> (\<forall>v b. enc v = Inr b \<longrightarrow> trim b \<noteq> [])"

text \<open>Encoding does not fail.\<close>

definition codec_total :: "('a \<Rightarrow> (string, string) result) \<Rightarrow> bool" where
  "codec_total enc \<longleftrightarrow> (\<forall>v. \<exists>b. enc v = Inr b)"

text \<open>The text of a struct is an object: it starts and ends with a brace.\<close>

definition codec_braced :: "('a \<Rightarrow> (string, string) result) \<Rightarrow> bool" where
  "codec_braced enc \<longleftrightarrow> (\<forall>v b. enc v = Inr b \<longrightarrow> (\<exists>a c. b = CHR ''{'' # a \<and> b = c @ ''}''))"

text \<open>The text is UTF-8.\<close>

definition codec_utf8 :: "('a \<Rightarrow> (string, string) result) \<Rightarrow> bool" where
  "codec_utf8 enc \<longleftrightarrow> (\<forall>v b. enc v = Inr b \<longrightarrow> utf8_valid b)"

lemma codec_utf8D: "codec_utf8 enc \<Longrightarrow> enc v = Inr b \<Longrightarrow> utf8_valid b"
  by (simp add: codec_utf8_def)

lemma codec_roundtripD: "codec_roundtrip enc dec \<Longrightarrow> enc v = Inr b \<Longrightarrow> dec b = Inr v \<and> b \<noteq> []"
  by (simp add: codec_roundtrip_def)

lemma codec_one_lineD:
  "codec_one_line enc \<Longrightarrow> enc v = Inr b \<Longrightarrow> CHR 0x0A \<notin> set b \<and> CHR 0x0D \<notin> set b"
  by (simp add: codec_one_line_def)

lemma codec_prefix_freeD:
  "codec_prefix_free enc dec \<Longrightarrow> enc v = Inr b \<Longrightarrow> n < length b \<Longrightarrow> \<exists>e. dec (take n b) = Inl e"
  by (auto simp: codec_prefix_free_def)

section \<open>A concrete codec\<close>

definition unary_text :: "nat \<Rightarrow> string" where
  "unary_text n = ''{'' @ replicate n CHR ''1'' @ ''}''"

definition unary_encode :: "'a::countable \<Rightarrow> (string, string) result" where
  "unary_encode v = Inr (unary_text (to_nat v))"

definition unary_decode :: "string \<Rightarrow> (string, 'a::countable) result" where
  "unary_decode s =
     (if s = unary_text (length s - 2) then Inr (from_nat (length s - 2)) else Inl ''syntax'')"

lemma length_unary_text [simp]: "length (unary_text n) = n + 2"
  by (simp add: unary_text_def)

lemma unary_roundtrip: "codec_roundtrip unary_encode unary_decode"
  by (auto simp: codec_roundtrip_def unary_encode_def unary_decode_def)
    (simp add: unary_text_def)

lemma unary_one_line: "codec_one_line unary_encode"
  by (auto simp: codec_one_line_def unary_encode_def unary_text_def)

lemma take_unary_text:
  assumes "n < k + 2"
  shows "take n (unary_text k) \<noteq> unary_text m"
proof
  assume *: "take n (unary_text k) = unary_text m"
  then have "CHR ''}'' \<in> set (take n (unary_text k))" by (simp add: unary_text_def)
  moreover have "take n (unary_text k) = take n (''{'' @ replicate k CHR ''1'')"
    using assms by (cases n) (simp_all add: unary_text_def)
  ultimately show False by (auto dest: in_set_takeD)
qed

lemma unary_prefix_free: "codec_prefix_free unary_encode unary_decode"
  by (auto simp: codec_prefix_free_def unary_encode_def unary_decode_def take_unary_text)

lemma strip_any_other_head:
  "list_all (\<lambda>w. w \<noteq> [] \<and> hd w \<noteq> c) ws \<Longrightarrow> strip_any ws (c # s) = None"
  by (induction ws) (auto simp: neq_Nil_conv)

lemma trim_braced:
  assumes "s = CHR ''{'' # a" "s = b @ ''}''"
  shows "trim s = s"
proof -
  have "list_all (\<lambda>w. w \<noteq> [] \<and> hd w \<noteq> CHR ''{'') whitespace" by code_simp
  then have 1: "trim_with whitespace (CHR ''{'' # a) = CHR ''{'' # a"
    by (subst trim_with.simps) (simp add: strip_any_other_head)
  have "list_all (\<lambda>w. w \<noteq> [] \<and> hd w \<noteq> CHR ''}'') (map rev whitespace)" by code_simp
  then have 2: "trim_with (map rev whitespace) (CHR ''}'' # rev b) = CHR ''}'' # rev b"
    by (subst trim_with.simps) (simp add: strip_any_other_head)
  have "trim_with whitespace s = s" using 1 assms(1) by simp
  moreover have "rev s = CHR ''}'' # rev b" using assms(2) by simp
  ultimately show ?thesis using assms(2) by (simp add: trim_def 2)
qed

lemma strip_any_SomeD: "strip_any ws s = Some t \<Longrightarrow> \<exists>w \<in> set ws. s = w @ t"
  by (induction ws) (auto split: if_splits, metis append_take_drop_id)

lemma trim_with_keeps:
  "c \<in> set s \<Longrightarrow> \<forall>w \<in> set ws. c \<notin> set w \<Longrightarrow> c \<in> set (trim_with ws s)"
proof (induction ws s rule: trim_with.induct)
  case (1 ws s)
  show ?case
  proof (cases "strip_any ws s")
    case (Some t)
    then obtain w where "w \<in> set ws" "s = w @ t" using strip_any_SomeD by blast
    with 1 Some show ?thesis by (subst trim_with.simps) auto
  qed (use 1 in \<open>subst trim_with.simps, simp\<close>)
qed

lemma trim_open_brace: "trim (CHR ''{'' # s) \<noteq> []"
proof -
  have "list_all (\<lambda>w. CHR ''{'' \<notin> set w) whitespace" by code_simp
  then have "\<forall>w \<in> set whitespace. CHR ''{'' \<notin> set w" by (simp only: list_all_iff)
  then have "CHR ''{'' \<in> set (trim (CHR ''{'' # s))"
    unfolding trim_def set_rev by (intro trim_with_keeps) (auto intro: trim_with_keeps)
  then show ?thesis by auto
qed

lemma unary_total: "codec_total unary_encode"
  by (simp add: codec_total_def unary_encode_def)

lemma unary_braced: "codec_braced unary_encode"
  by (auto simp: codec_braced_def unary_encode_def unary_text_def
      intro: exI [of _ "''{'' @ replicate (to_nat v) CHR ''1''" for v])

lemma unary_utf8: "codec_utf8 unary_encode"
proof -
  have "byte_in 0x00 0x7F CHR ''{''" "byte_in 0x00 0x7F CHR ''1''" "byte_in 0x00 0x7F CHR ''}''" by code_simp+
  then show ?thesis
    by (auto simp: codec_utf8_def unary_encode_def unary_text_def list_all_iff intro!: utf8_valid_ascii)
qed

lemma codec_braced_not_blank: "codec_braced enc \<Longrightarrow> codec_not_blank enc"
  unfolding codec_braced_def codec_not_blank_def using trim_braced by (metis list.distinct(1))

lemmas unary_not_blank = codec_braced_not_blank [OF unary_braced]

lemmas unary_laws = unary_utf8 unary_total unary_braced unary_roundtrip unary_one_line unary_not_blank unary_prefix_free

section \<open>Countability of the stored data\<close>

instance ResourceIdentity_ext :: (countable) countable
  by (rule countable_classI [of "\<lambda>r. to_nat (ri_namespace r, ri_name r, ri_partition r, ri_group r,
        ResourceIdentity.more r)"]) simp

instance NodeInfo_ext :: (countable) countable
  by (rule countable_classI [of "\<lambda>r. to_nat (ni_node_id r, ni_endpoint r, ni_admin_endpoint r,
        bt_entries (ni_labels r), NodeInfo.more r)"]) (simp add: bt_entries_inject)

instance ReplicationDurabilityPolicy :: countable
  by countable_datatype

instance PartitionAssignment_ext :: (countable) countable
  by (rule countable_classI [of "\<lambda>r. to_nat (pa_resource r, pa_owner r, pa_followers r, pa_epoch r,
        pa_durability r, PartitionAssignment.more r)"]) simp

instance CoordinationSnapshot_ext :: (countable) countable
  by (rule countable_classI [of "\<lambda>r. to_nat (bt_entries (cs_nodes r),
        bt_entries (cs_assignments r), bt_entries (cs_resources r), bt_entries (cs_attributes r),
        cs_generation r, CoordinationSnapshot.more r)"]) (simp add: bt_entries_inject)

text \<open>The constructor's number and the fields of a command, by type.\<close>

fun command_fields :: "MetadataRaftCommand \<Rightarrow> nat \<times> CoordinationSnapshot list \<times> u64 list
    \<times> PartitionAssignment list \<times> (string \<times> string option) list \<times> NodeInfo list
    \<times> ResourceIdentity list \<times> string list \<times> string option list" where
  "command_fields (ApplySnapshot s) = (0, [s], [], [], [], [], [], [], [])"
| "command_fields (ApplySnapshotGuarded g s) = (1, [s], [g], [], [], [], [], [], [])"
| "command_fields (UpdatePartitionGuarded g a m) = (2, [], [g], [a], bt_entries m, [], [], [], [])"
| "command_fields (RegisterNode n) = (3, [], [], [], [], [n], [], [], [])"
| "command_fields (DeregisterNode i) = (4, [], [], [], [], [], [], [i], [])"
| "command_fields (RegisterResource r) = (5, [], [], [], [], [], [r], [], [])"
| "command_fields (RegisterResourceWithInitialAttribute r k v) = (6, [], [], [], [], [], [r], [k, v], [])"
| "command_fields (DeregisterResource r) = (7, [], [], [], [], [], [r], [], [])"
| "command_fields (DeregisterResourceWithAttribute r k e) = (8, [], [], [], [], [], [r], [k], [e])"
| "command_fields (SetAttribute k v) = (9, [], [], [], [], [], [], [k, v], [])"
| "command_fields (RemoveAttribute k) = (10, [], [], [], [], [], [], [k], [])"
| "command_fields (CompareAndSetAttribute k e v) = (11, [], [], [], [], [], [], [k, v], [e])"
| "command_fields (CompareAndSetAttributeGuarded g k e v) = (12, [], [g], [], [], [], [], [k, v], [e])"
| "command_fields (DeregisterResourceReplacingAttribute r k e v) = (13, [], [], [], [], [], [r], [k, v], [e])"

lemma command_fields_inject: "command_fields c = command_fields d \<Longrightarrow> c = d"
  by (cases c; cases d) (simp_all add: bt_entries_inject)

instance MetadataRaftCommand :: countable
  by (rule countable_classI [of "\<lambda>c. to_nat (command_fields c)"]) (simp add: command_fields_inject)

instance LogId_ext :: (countable, countable) countable
  by (rule countable_classI [of "\<lambda>r. to_nat (li_leader_id r, li_index r, LogId.more r)"]) simp

instance EntryPayload :: (countable) countable
  by countable_datatype

instance Entry_ext :: (countable, countable, countable) countable
  by (rule countable_classI [of "\<lambda>r. to_nat (en_log_id r, en_payload r, Entry.more r)"]) simp

instance StoredMembership_ext :: (countable, countable, countable) countable
  by (rule countable_classI [of "\<lambda>r. to_nat (sm_log_id r, sm_membership r, StoredMembership.more r)"]) simp

instance SnapshotMeta_ext :: (countable, countable, countable) countable
  by (rule countable_classI [of "\<lambda>r. to_nat (me_last_log_id r, me_last_membership r, me_snapshot_id r,
        SnapshotMeta.more r)"]) simp

end
