(* ===== verification/Log_Store.thy ===== *)
theory Log_Store
  imports Json_Model
begin

text \<open>
  The in-memory raft log of \<^verbatim>\<open>openraft_runtime/storage.rs\<close> (\<^verbatim>\<open>GanglionLogStore\<close>) and the contract
  both log stores keep, stated as the locale \<open>raft_log\<close>: what a reader sees after an append, a
  truncation and a purge.  The lemmas of the locale are proved once and hold of both stores.
\<close>

section \<open>The in-memory store\<close>

record ('lid, 'm, 'vote) LogStoreInner =
  lo_vote :: "'vote option"
  lo_log :: "(u64, ('lid, 'm) Entry) btree"
  lo_last_purged_log_id :: "'lid LogId option"

definition LogStoreInner_default :: "('lid, 'm, 'vote) LogStoreInner" where
  "LogStoreInner_default = \<lparr>lo_vote = None, lo_log = bt_empty, lo_last_purged_log_id = None\<rparr>"

text \<open>\<^verbatim>\<open>std::ops::Bound\<close> and \<^verbatim>\<open>BTreeMap::range\<close>, which panics on an inverted range (\<^const>\<open>None\<close>).\<close>

datatype bound = Included u64 | Excluded u64 | Unbounded

fun above :: "bound \<Rightarrow> u64 \<Rightarrow> bool" where
  "above (Included a) i \<longleftrightarrow> a \<le> i"
| "above (Excluded a) i \<longleftrightarrow> a < i"
| "above Unbounded i \<longleftrightarrow> True"

fun beneath :: "bound \<Rightarrow> u64 \<Rightarrow> bool" where
  "beneath (Included b) i \<longleftrightarrow> i \<le> b"
| "beneath (Excluded b) i \<longleftrightarrow> i < b"
| "beneath Unbounded i \<longleftrightarrow> True"

fun range_panics :: "bound \<Rightarrow> bound \<Rightarrow> bool" where
  "range_panics (Excluded a) (Excluded b) \<longleftrightarrow> b \<le> a"
| "range_panics (Included a) (Included b) \<longleftrightarrow> b < a"
| "range_panics (Included a) (Excluded b) \<longleftrightarrow> b < a"
| "range_panics (Excluded a) (Included b) \<longleftrightarrow> b < a"
| "range_panics _ _ \<longleftrightarrow> False"

definition log_range :: "bound \<Rightarrow> bound \<Rightarrow> (u64, 'e) btree \<Rightarrow> 'e list option" where
  "log_range lo hi log =
     (if range_panics lo hi then None
      else Some (map snd (filter (\<lambda>e. above lo (fst e) \<and> beneath hi (fst e)) (bt_entries log))))"

definition mem_try_get_log_entries ::
    "('lid, 'm, 'vote) LogStoreInner \<Rightarrow> bound \<Rightarrow> bound \<Rightarrow> ('lid, 'm) Entry list option" where
  "mem_try_get_log_entries inner lo hi = log_range lo hi (lo_log inner)"

definition log_state_of ::
    "(u64, ('lid, 'm) Entry) btree \<Rightarrow> 'lid LogId option \<Rightarrow> 'lid LogState" where
  "log_state_of log last_purged_log_id =
     \<lparr>ls_last_purged_log_id = last_purged_log_id,
      ls_last_log_id = (case map_option en_log_id (bt_last log) of
         Some l \<Rightarrow> Some l | None \<Rightarrow> last_purged_log_id)\<rparr>"

definition mem_get_log_state :: "('lid, 'm, 'vote) LogStoreInner \<Rightarrow> 'lid LogState" where
  "mem_get_log_state inner = log_state_of (lo_log inner) (lo_last_purged_log_id inner)"

definition mem_save_vote ::
    "'vote \<Rightarrow> ('lid, 'm, 'vote) LogStoreInner \<Rightarrow> ('lid, 'm, 'vote) LogStoreInner" where
  "mem_save_vote vote inner = inner\<lparr>lo_vote := Some vote\<rparr>"

definition mem_read_vote :: "('lid, 'm, 'vote) LogStoreInner \<Rightarrow> 'vote option" where
  "mem_read_vote inner = lo_vote inner"

definition insert_entry ::
    "('lid, 'm) Entry \<Rightarrow> (u64, ('lid, 'm) Entry) btree \<Rightarrow> (u64, ('lid, 'm) Entry) btree" where
  "insert_entry entry log = bt_insert (li_index (en_log_id entry)) entry log"

definition mem_append ::
    "('lid, 'm) Entry list \<Rightarrow> ('lid, 'm, 'vote) LogStoreInner \<Rightarrow> ('lid, 'm, 'vote) LogStoreInner" where
  "mem_append entries inner = inner\<lparr>lo_log := fold insert_entry entries (lo_log inner)\<rparr>"

definition mem_truncate ::
    "'lid LogId \<Rightarrow> ('lid, 'm, 'vote) LogStoreInner \<Rightarrow> ('lid, 'm, 'vote) LogStoreInner" where
  "mem_truncate log_id inner = inner\<lparr>lo_log := bt_below (li_index log_id) (lo_log inner)\<rparr>"

text \<open>The purge point never moves backwards; \<^verbatim>\<open>log_id.index + 1\<close> wraps at the 64-bit maximum.\<close>

definition advance_purged :: "'lid LogId \<Rightarrow> 'lid LogId option \<Rightarrow> 'lid LogId option" where
  "advance_purged log_id last_purged =
     (if (case last_purged of None \<Rightarrow> True | Some purged \<Rightarrow> li_index purged < li_index log_id)
      then Some log_id else last_purged)"

definition mem_purge ::
    "'lid LogId \<Rightarrow> ('lid, 'm, 'vote) LogStoreInner \<Rightarrow> ('lid, 'm, 'vote) LogStoreInner" where
  "mem_purge log_id inner =
     inner\<lparr>lo_last_purged_log_id := advance_purged log_id (lo_last_purged_log_id inner),
           lo_log := bt_from (li_index log_id + 1) (lo_log inner)\<rparr>"

section \<open>The contract of a raft log store\<close>

abbreviation index_of :: "('lid, 'm) Entry \<Rightarrow> u64" where
  "index_of e \<equiv> li_index (en_log_id e)"

locale raft_log =
  fixes lookup :: "'s \<Rightarrow> u64 \<Rightarrow> ('lid, 'm) Entry option"
    and vote_of :: "'s \<Rightarrow> 'vote option"
    and purged_of :: "'s \<Rightarrow> 'lid LogId option"
    and append_entry :: "('lid, 'm) Entry \<Rightarrow> 's \<Rightarrow> 's"
    and truncate :: "'lid LogId \<Rightarrow> 's \<Rightarrow> 's"
    and purge :: "'lid LogId \<Rightarrow> 's \<Rightarrow> 's"
    and save_vote :: "'vote \<Rightarrow> 's \<Rightarrow> 's"
  assumes lookup_append: "lookup (append_entry e s) i = (if i = index_of e then Some e else lookup s i)"
    and lookup_truncate: "lookup (truncate l s) i = (if i < li_index l then lookup s i else None)"
    and lookup_purge: "li_index l \<noteq> u64_max \<Longrightarrow>
      lookup (purge l s) i = (if li_index l < i then lookup s i else None)"
    and lookup_vote: "lookup (save_vote v s) i = lookup s i"
    and purged_append: "purged_of (append_entry e s) = purged_of s"
    and purged_truncate: "purged_of (truncate l s) = purged_of s"
    and purged_purge: "purged_of (purge l s) = advance_purged l (purged_of s)"
    and purged_vote: "purged_of (save_vote v s) = purged_of s"
    and vote_append: "vote_of (append_entry e s) = vote_of s"
    and vote_truncate: "vote_of (truncate l s) = vote_of s"
    and vote_purge: "vote_of (purge l s) = vote_of s"
    and vote_vote: "vote_of (save_vote v s) = Some v"
begin

text \<open>Every stored entry is under its own index and above the purge point.\<close>

definition well_formed :: "'s \<Rightarrow> bool" where
  "well_formed s \<longleftrightarrow> (\<forall>i e. lookup s i = Some e \<longrightarrow> index_of e = i \<and>
     (\<forall>p. purged_of s = Some p \<longrightarrow> li_index p < i))"

lemma well_formed_append:
  "well_formed s \<Longrightarrow> \<forall>p. purged_of s = Some p \<longrightarrow> li_index p < index_of e \<Longrightarrow>
     well_formed (append_entry e s)"
  by (auto simp: well_formed_def lookup_append purged_append split: if_splits)

lemma well_formed_truncate: "well_formed s \<Longrightarrow> well_formed (truncate l s)"
  by (auto simp: well_formed_def lookup_truncate purged_truncate split: if_splits)

lemma well_formed_vote: "well_formed s \<Longrightarrow> well_formed (save_vote v s)"
  by (simp add: well_formed_def lookup_vote purged_vote)

lemma well_formed_purge: "well_formed s \<Longrightarrow> li_index l \<noteq> u64_max \<Longrightarrow> well_formed (purge l s)"
  by (auto simp: well_formed_def lookup_purge purged_purge advance_purged_def
      split: if_splits option.splits)

lemma lookup_fold_append:
  "lookup (fold append_entry es s) i =
     (case map_of (rev (map (\<lambda>e. (index_of e, e)) es)) i of Some e \<Rightarrow> Some e | None \<Rightarrow> lookup s i)"
  by (induction es arbitrary: s) (auto simp: lookup_append map_add_def split: option.splits)

text \<open>
  The conflict resolution of a follower: truncating at the first conflicting index and appending
  the leader's entries from there leaves the old prefix and exactly the leader's entries.
\<close>

lemma truncate_then_append:
  assumes "distinct (map index_of es)" "\<forall>e \<in> set es. li_index l \<le> index_of e"
  shows "lookup (fold append_entry es (truncate l s)) i =
    (if i < li_index l then lookup s i else map_of (map (\<lambda>e. (index_of e, e)) es) i)"
proof -
  have "map_of (rev (map (\<lambda>e. (index_of e, e)) es)) = map_of (map (\<lambda>e. (index_of e, e)) es)"
    using assms(1) by (subst map_of_inject_set) (simp_all add: comp_def flip: rev_map)
  moreover have "map_of (map (\<lambda>e. (index_of e, e)) es) i = None" if "i < li_index l"
    using assms(2) that by (force simp: map_of_eq_None_iff)
  ultimately show ?thesis
    by (auto simp: lookup_fold_append lookup_truncate split: option.splits)
qed

end

interpretation mem: raft_log "\<lambda>s. bt_get (lo_log s)" lo_vote lo_last_purged_log_id
    "\<lambda>e. mem_append [e]" mem_truncate mem_purge mem_save_vote
  by unfold_locales
    (auto simp: mem_append_def insert_entry_def mem_truncate_def mem_purge_def mem_save_vote_def
      bt_get_insert bt_get_below bt_get_from u64_succ_le_iff)

section \<open>Properties\<close>

lemma mem_append_fold: "mem_append es s = fold (\<lambda>e. mem_append [e]) es s"
proof (induction es arbitrary: s)
  case (Cons e es)
  have "mem_append (e # es) s = mem_append es (mem_append [e] s)" by (simp add: mem_append_def)
  then show ?case by (simp add: Cons)
qed (simp add: mem_append_def)

text \<open>
  Log repair on a follower: truncating the in-memory log at a conflicting index and appending
  the leader's entries from that index on keeps the entries below it, and from it on holds
  exactly the appended entries; the vote and the purge point are untouched.
\<close>

theorem mem_log_repair:
  assumes "distinct (map index_of es)" "\<forall>e \<in> set es. li_index l \<le> index_of e"
  shows "bt_get (lo_log (mem_append es (mem_truncate l s))) i =
      (if i < li_index l then bt_get (lo_log s) i else map_of (map (\<lambda>e. (index_of e, e)) es) i)
    \<and> mem_read_vote (mem_append es (mem_truncate l s)) = mem_read_vote s
    \<and> lo_last_purged_log_id (mem_append es (mem_truncate l s)) = lo_last_purged_log_id s"
proof -
  have "bt_get (lo_log (mem_append es (mem_truncate l s))) i =
      (if i < li_index l then bt_get (lo_log s) i else map_of (map (\<lambda>e. (index_of e, e)) es) i)"
    using mem.truncate_then_append [OF assms, of s i] mem_append_fold [of es "mem_truncate l s"]
    by simp
  then show ?thesis by (simp add: mem_read_vote_def mem_append_def mem_truncate_def)
qed

definition demo_log_entry :: "nat \<Rightarrow> u64 \<Rightarrow> (nat, nat) Entry" where
  "demo_log_entry leader index =
     \<lparr>en_log_id = \<lparr>li_leader_id = leader, li_index = index\<rparr>, en_payload = Blank\<rparr>"

theorem mem_log_repair_witness:
  "let s = mem_append [demo_log_entry 1 1, demo_log_entry 1 2, demo_log_entry 1 3]
         (LogStoreInner_default :: (nat, nat, nat) LogStoreInner);
       t = mem_append [demo_log_entry 2 2] (mem_truncate \<lparr>li_leader_id = 2, li_index = 2\<rparr> s)
   in bt_get (lo_log t) 2 = Some (demo_log_entry 2 2) \<and> bt_get (lo_log t) 3 = None
      \<and> bt_get (lo_log t) 1 = bt_get (lo_log s) 1"
proof -
  let ?l = "\<lparr>li_leader_id = 2, li_index = 2\<rparr> :: nat LogId"
  have "bt_get (lo_log (mem_append [demo_log_entry 2 2] (mem_truncate ?l s))) i =
      (if i < li_index ?l then bt_get (lo_log s) i
       else map_of (map (\<lambda>e. (index_of e, e)) [demo_log_entry 2 2]) i)"
    for s :: "(nat, nat, nat) LogStoreInner" and i
    by (rule mem_log_repair [THEN conjunct1]) (simp_all add: demo_log_entry_def)
  then show ?thesis by (simp add: Let_def demo_log_entry_def)
qed

end
