(* ===== verification/Wal_Store.thy ===== *)
theory Wal_Store
  imports Log_Store
begin

text \<open>
  The file-backed raft log of \<^verbatim>\<open>openraft_runtime/durable.rs\<close>: the write-ahead log records and
  their replay, the single writer thread with its queue, group commit and fail-stop, the atomic
  rewrite, and the store's operations.

  A file is its bytes and the length of the prefix known to be synced.  The writer thread's file
  is either the one at the log's path or, after a rename replaced that one, an unlinked file.
  The writer drains its queue in rounds; the operations that wait for a write run a round over
  the whole queue, and rounds over a part of it may happen between operations.  Write failures
  come from a script in the writer's state: one element per write, exhausted means no failure.
\<close>

section \<open>Records and replay\<close>

datatype ('lid, 'm, 'vote) WalRecord =
    WVote 'vote
  | WEntry "('lid, 'm) Entry"
  | WTruncate u64
  | WPurge "'lid LogId"

record ('lid, 'm, 'vote) DurableState =
  du_vote :: "'vote option"
  du_log :: "(u64, ('lid, 'm) Entry) btree"
  du_last_purged_log_id :: "'lid LogId option"

definition DurableState_default :: "('lid, 'm, 'vote) DurableState" where
  "DurableState_default = \<lparr>du_vote = None, du_log = bt_empty, du_last_purged_log_id = None\<rparr>"

fun apply_record ::
    "('lid, 'm, 'vote) WalRecord \<Rightarrow> ('lid, 'm, 'vote) DurableState \<Rightarrow> ('lid, 'm, 'vote) DurableState" where
  "apply_record (WVote vote) st = st\<lparr>du_vote := Some vote\<rparr>"
| "apply_record (WEntry entry) st = st\<lparr>du_log := insert_entry entry (du_log st)\<rparr>"
| "apply_record (WTruncate since) st = st\<lparr>du_log := bt_below since (du_log st)\<rparr>"
| "apply_record (WPurge up_to) st =
     st\<lparr>du_last_purged_log_id := advance_purged up_to (du_last_purged_log_id st),
        du_log := bt_from (li_index up_to + 1) (du_log st)\<rparr>"

text \<open>The serialization library's encoder and decoder of a record.\<close>

record ('lid, 'm, 'vote) wal_codec =
  enc_record :: "('lid, 'm, 'vote) WalRecord \<Rightarrow> (string, string) result"
  dec_record :: "string \<Rightarrow> (string, ('lid, 'm, 'vote) WalRecord) result"

definition newline :: char where
  "newline = CHR 0x0A"

definition encode_record ::
    "('lid, 'm, 'vote) wal_codec \<Rightarrow> ('lid, 'm, 'vote) WalRecord \<Rightarrow> (StorageError, string) result" where
  "encode_record codec record =
     (case enc_record codec record of
        Inl error \<Rightarrow> Inl (WriteLogs error)
      | Inr line \<Rightarrow> Inr (line @ [newline]))"

fun replay_lines ::
    "('lid, 'm, 'vote) wal_codec \<Rightarrow> nat \<Rightarrow> string list \<Rightarrow> ('lid, 'm, 'vote) DurableState \<Rightarrow> nat \<Rightarrow>
     (StorageError, ('lid, 'm, 'vote) DurableState \<times> nat) result" where
  "replay_lines codec line_no [] st replayed = Inr (st, replayed)"
| "replay_lines codec line_no (line # rest) st replayed =
     (if \<not> utf8_valid line then Inl (ReadLogs invalid_utf8)
      else if trim line = [] then replay_lines codec (line_no + 1) rest st replayed
      else case dec_record codec line of
        Inl error \<Rightarrow> Inl (ReadLogs (''malformed WAL record at line '' @ show_nat (line_no + 1) @ '': '' @ error))
      | Inr record \<Rightarrow> replay_lines codec (line_no + 1) rest (apply_record record st) (replayed + 1))"

section \<open>The writer thread\<close>

record wal_file =
  wf_bytes :: string
  wf_synced :: nat

datatype WalDone = Flushed nat | Notify nat

datatype WalJob = WriteJob string WalDone | ReplaceJob nat

text \<open>How a write and its sync fail: after \<open>n\<close> bytes, or at the sync.\<close>

datatype write_fault = WriteError nat string | SyncError string

record WalWriter =
  ww_running :: bool
  ww_queue :: "WalJob list"
  ww_failed :: "string option"
  ww_file :: "wal_file option"
  ww_script :: "write_fault option list"
  ww_completed :: "(WalDone \<times> (string, unit) result) list"
  ww_telemetry :: StorageTelemetry

text \<open>
  \<open>ww_file\<close> is the content of an unlinked file the writer still holds, or \<^const>\<open>None\<close> while its
  file is the one at the path; \<open>wal\<close> is the latter's content.
\<close>

definition writer_file :: "wal_file \<Rightarrow> WalWriter \<Rightarrow> wal_file" where
  "writer_file wal w = (case ww_file w of None \<Rightarrow> wal | Some f \<Rightarrow> f)"

definition set_writer_file :: "wal_file \<Rightarrow> wal_file \<times> WalWriter \<Rightarrow> wal_file \<times> WalWriter" where
  "set_writer_file f s =
     (case ww_file (snd s) of None \<Rightarrow> (f, snd s) | Some _ \<Rightarrow> (fst s, (snd s)\<lparr>ww_file := Some f\<rparr>))"

definition write_all_and_sync ::
    "write_fault option \<Rightarrow> string \<Rightarrow> wal_file \<Rightarrow> wal_file \<times> (string, unit) result" where
  "write_all_and_sync fault bytes f =
     (case fault of
        Some (WriteError n error) \<Rightarrow> (f\<lparr>wf_bytes := wf_bytes f @ take n bytes\<rparr>, Inl error)
      | Some (SyncError error) \<Rightarrow> (f\<lparr>wf_bytes := wf_bytes f @ bytes\<rparr>, Inl error)
      | None \<Rightarrow> (\<lparr>wf_bytes = wf_bytes f @ bytes, wf_synced = length (wf_bytes f @ bytes)\<rparr>, Inr ()))"

definition wal_flush ::
    "string \<Rightarrow> WalDone list \<Rightarrow> wal_file \<times> WalWriter \<Rightarrow> wal_file \<times> WalWriter" where
  "wal_flush bytes waiting s =
     (if waiting = [] then s
      else
        let w = snd s;
            (s', result) =
              (case ww_failed w of
                 Some error \<Rightarrow> (s, Inl error)
               | None \<Rightarrow>
                   if bytes = [] then (s, Inr ())
                   else
                     let (fault, script) =
                           (case ww_script w of [] \<Rightarrow> (None, []) | f # fs \<Rightarrow> (f, fs));
                         (f, result) = write_all_and_sync fault bytes (writer_file (fst s) w);
                         (wal', w') = set_writer_file f (fst s, w\<lparr>ww_script := script\<rparr>)
                     in case result of
                          Inl error \<Rightarrow>
                            ((wal', w'\<lparr>ww_failed := Some (''raft WAL write failed earlier: '' @ error)\<rparr>),
                             Inl error)
                        | Inr _ \<Rightarrow>
                            ((wal', w'\<lparr>ww_telemetry := (ww_telemetry w')\<lparr>
                                st_fsyncs := st_fsyncs (ww_telemetry w') + 1\<rparr>\<rparr>), Inr ()))
        in (fst s', (snd s')\<lparr>ww_completed :=
              ww_completed (snd s') @ map (\<lambda>done. (done, result)) waiting\<rparr>))"

fun run_jobs ::
    "WalJob list \<Rightarrow> string \<Rightarrow> WalDone list \<Rightarrow> wal_file \<times> WalWriter \<Rightarrow> wal_file \<times> WalWriter" where
  "run_jobs [] bytes waiting s = wal_flush bytes waiting s"
| "run_jobs (WriteJob b done # jobs) bytes waiting s =
     run_jobs jobs (bytes @ b) (waiting @ [done]) s"
| "run_jobs (ReplaceJob done # jobs) bytes waiting s =
     (let (wal', w') = wal_flush bytes waiting s
      in run_jobs jobs [] [] (wal', w'\<lparr>ww_file := None,
           ww_completed := ww_completed w' @ [(Notify done, Inr ())]\<rparr>))"

text \<open>One iteration of \<^verbatim>\<open>WalWriter::run\<close> that received \<open>n\<close> queued jobs.\<close>

definition writer_round :: "nat \<Rightarrow> wal_file \<times> WalWriter \<Rightarrow> wal_file \<times> WalWriter" where
  "writer_round n s =
     (let jobs = take n (ww_queue (snd s))
      in if jobs = [] \<or> \<not> ww_running (snd s) then s
         else run_jobs jobs [] [] (fst s, (snd s)\<lparr>ww_queue := drop n (ww_queue (snd s))\<rparr>))"

definition wal_submit :: "WalJob \<Rightarrow> WalWriter \<Rightarrow> WalWriter" where
  "wal_submit job w =
     (if ww_running w then w\<lparr>ww_queue := ww_queue w @ [job]\<rparr>
      else case job of
        WriteJob _ done \<Rightarrow> w\<lparr>ww_completed := ww_completed w @ [(done, Inl ''raft WAL writer stopped'')]\<rparr>
      | ReplaceJob _ \<Rightarrow> w)"

definition completion_of :: "WalDone \<Rightarrow> WalWriter \<Rightarrow> (string, unit) result" where
  "completion_of done w =
     (case map_of (rev (ww_completed w)) done of
        Some result \<Rightarrow> result
      | None \<Rightarrow> Inl ''raft WAL writer stopped'')"

definition wal_write ::
    "nat \<Rightarrow> string \<Rightarrow> wal_file \<times> WalWriter \<Rightarrow> (wal_file \<times> WalWriter) \<times> (string, unit) result" where
  "wal_write done bytes s =
     (let w = wal_submit (WriteJob bytes (Notify done)) (snd s);
          s' = writer_round (length (ww_queue w)) (fst s, w)
      in (s', completion_of (Notify done) (snd s')))"

definition wal_replace :: "nat \<Rightarrow> wal_file \<times> WalWriter \<Rightarrow> wal_file \<times> WalWriter" where
  "wal_replace done s =
     (let w = wal_submit (ReplaceJob done) (snd s)
      in writer_round (length (ww_queue w)) (fst s, w))"

section \<open>Rewriting the log\<close>

definition rewrite_records :: "('lid, 'm, 'vote) DurableState \<Rightarrow> ('lid, 'm, 'vote) WalRecord list" where
  "rewrite_records st =
     (case du_vote st of Some vote \<Rightarrow> [WVote vote] | None \<Rightarrow> [])
     @ (case du_last_purged_log_id st of Some up_to \<Rightarrow> [WPurge up_to] | None \<Rightarrow> [])
     @ map WEntry (bt_values (du_log st))"

text \<open>The bytes written before the first record that cannot be encoded, and its error.\<close>

fun encode_records ::
    "('lid, 'm, 'vote) wal_codec \<Rightarrow> ('lid, 'm, 'vote) WalRecord list \<Rightarrow> string \<times> StorageError option" where
  "encode_records codec [] = ([], None)"
| "encode_records codec (r # rs) =
     (case encode_record codec r of
        Inl error \<Rightarrow> ([], Some error)
      | Inr line \<Rightarrow> (case encode_records codec rs of (bytes, error) \<Rightarrow> (line @ bytes, error)))"

datatype rewrite_fault =
  TmpCreateFails | TmpWriteFails nat | TmpSyncFails | TmpRenameFails | ParentSyncFails | ReopenFails

text \<open>
  The rewrite works on the file at the path and its temporary sibling.  Once the rename has
  happened the writer's file is an unlinked one until a replacement reaches the writer.
\<close>

record wal_disk =
  dk_wal :: wal_file
  dk_tmp :: "string option"

definition wal_rewrite ::
    "('lid, 'm, 'vote) wal_codec \<Rightarrow> rewrite_fault option \<Rightarrow> bool \<Rightarrow> ('lid, 'm, 'vote) DurableState \<Rightarrow>
     wal_disk \<times> StorageTelemetry \<Rightarrow> (wal_disk \<times> StorageTelemetry) \<times> bool \<times> (StorageError, unit) result" where
  "wal_rewrite codec fault inject_failure st s =
     (let disk = fst s; telemetry = snd s;
          failing = (\<lambda>tmp error. ((disk\<lparr>dk_tmp := tmp\<rparr>, telemetry), False, Inl error))
      in if fault = Some TmpCreateFails then (s, False, Inl (WriteLogs ''create''))
         else
           let (bytes, error) = encode_records codec (rewrite_records st) in
           case fault of
             Some (TmpWriteFails n) \<Rightarrow> failing (Some (take n bytes)) (WriteLogs ''write'')
           | _ \<Rightarrow>
             (case error of
                Some e \<Rightarrow> failing (Some bytes) e
              | None \<Rightarrow>
                  if inject_failure then failing (Some bytes) (WriteLogs ''injected write failure'')
                  else if fault = Some TmpSyncFails then failing (Some bytes) (WriteLogs ''sync'')
                  else if fault = Some TmpRenameFails then failing (Some bytes) (WriteLogs ''rename'')
                  else
                    let renamed = \<lparr>dk_wal = \<lparr>wf_bytes = bytes, wf_synced = length bytes\<rparr>, dk_tmp = None\<rparr> in
                    if fault = Some ParentSyncFails then ((renamed, telemetry), True, Inl (WriteLogs ''fsync''))
                    else if fault = Some ReopenFails then ((renamed, telemetry), True, Inl (WriteLogs ''open''))
                    else ((renamed, telemetry\<lparr>st_compactions := st_compactions telemetry + 1,
                                              st_fsyncs := st_fsyncs telemetry + 2\<rparr>), True, Inr ())))"

section \<open>The store\<close>

record ('lid, 'm, 'vote) FileRaftLogStore =
  fs_state :: "('lid, 'm, 'vote) DurableState"
  fs_disk :: wal_disk
  fs_wal :: WalWriter
  fs_fail_writes :: bool

definition compact_dead_record_threshold :: nat where
  "compact_dead_record_threshold = 64"

definition live_records :: "('lid, 'm, 'vote) DurableState \<Rightarrow> nat" where
  "live_records st = bt_len (du_log st)
     + (if du_vote st \<noteq> None then 1 else 0)
     + (if du_last_purged_log_id st \<noteq> None then 1 else 0)"

definition WalWriter_start :: "StorageTelemetry \<Rightarrow> write_fault option list \<Rightarrow> WalWriter" where
  "WalWriter_start telemetry script =
     \<lparr>ww_running = True, ww_queue = [], ww_failed = None, ww_file = None, ww_script = script,
      ww_completed = [], ww_telemetry = telemetry\<rparr>"

datatype open_fault =
    OpenReadFails | ReadLineFails | OpenAppendFails | OpenParentSyncFails | SpawnFails
  | OpenRewriteFails rewrite_fault

definition fs_open ::
    "('lid, 'm, 'vote) wal_codec \<Rightarrow> open_fault option \<Rightarrow> write_fault option list \<Rightarrow>
     wal_file option \<Rightarrow> string option \<Rightarrow>
     (StorageError, ('lid, 'm, 'vote) FileRaftLogStore) result" where
  "fs_open codec fault script wal tmp =
     (case (case wal of
              None \<Rightarrow> Inr (DurableState_default, 0)
            | Some f \<Rightarrow>
                if fault = Some OpenReadFails then Inl (ReadLogs ''open'')
                else if fault = Some ReadLineFails then Inl (ReadLogs ''read'')
                else replay_lines codec 0 (lines (wf_bytes f)) DurableState_default 0) of
        Inl error \<Rightarrow> Inl error
      | Inr (st, replayed_records) \<Rightarrow>
          if fault = Some OpenAppendFails then Inl (WriteLogs ''open'')
          else if wal = None \<and> fault = Some OpenParentSyncFails then Inl (WriteLogs ''fsync'')
          else
            let needs_compaction = replayed_records > live_records st + compact_dead_record_threshold;
                telemetry = StorageTelemetry_default\<lparr>
                  st_replayed_records_last_open := word_of_nat replayed_records\<rparr>;
                disk = \<lparr>dk_wal = (case wal of None \<Rightarrow> \<lparr>wf_bytes = [], wf_synced = 0\<rparr> | Some f \<Rightarrow> f), dk_tmp = tmp\<rparr>;
                ((disk', telemetry'), _, rewritten) =
                  (if needs_compaction
                   then wal_rewrite codec
                     (case fault of Some (OpenRewriteFails f) \<Rightarrow> Some f | _ \<Rightarrow> None) False st (disk, telemetry)
                   else ((disk, telemetry), True, Inr ()))
            in case rewritten of
                 Inl error \<Rightarrow> Inl error
               | Inr _ \<Rightarrow>
                   if fault = Some SpawnFails then Inl (WriteLogs ''spawn'')
                   else Inr \<lparr>fs_state = st, fs_disk = disk',
                             fs_wal = WalWriter_start telemetry' script, fs_fail_writes = False\<rparr>)"

definition fs_inject_write_failure ::
    "bool \<Rightarrow> ('lid, 'm, 'vote) FileRaftLogStore \<Rightarrow> ('lid, 'm, 'vote) FileRaftLogStore" where
  "fs_inject_write_failure fail self = self\<lparr>fs_fail_writes := fail\<rparr>"

definition check_injected_failure :: "('lid, 'm, 'vote) FileRaftLogStore \<Rightarrow> (string, unit) result" where
  "check_injected_failure self =
     (if fs_fail_writes self then Inl ''injected write failure'' else Inr ())"

text \<open>Put the writer's result back into the store.\<close>

definition set_wal ::
    "wal_file \<times> WalWriter \<Rightarrow> ('lid, 'm, 'vote) FileRaftLogStore \<Rightarrow> ('lid, 'm, 'vote) FileRaftLogStore" where
  "set_wal s self = self\<lparr>fs_disk := (fs_disk self)\<lparr>dk_wal := fst s\<rparr>, fs_wal := snd s\<rparr>"

abbreviation wal_of :: "('lid, 'm, 'vote) FileRaftLogStore \<Rightarrow> wal_file \<times> WalWriter" where
  "wal_of self \<equiv> (dk_wal (fs_disk self), fs_wal self)"

definition complete :: "WalDone \<Rightarrow> (string, unit) result \<Rightarrow> WalWriter \<Rightarrow> WalWriter" where
  "complete done result w = w\<lparr>ww_completed := ww_completed w @ [(done, result)]\<rparr>"

definition queue_entries ::
    "('lid, 'm, 'vote) wal_codec \<Rightarrow> ('lid, 'm) Entry list \<Rightarrow> WalDone \<Rightarrow> ('lid, 'm, 'vote) FileRaftLogStore \<Rightarrow>
     ('lid, 'm, 'vote) FileRaftLogStore \<times> (StorageError, unit) result" where
  "queue_entries codec entries done self =
     (case check_injected_failure self of
        Inl error \<Rightarrow> (self\<lparr>fs_wal := complete done (Inl error) (fs_wal self)\<rparr>, Inl (WriteLogs error))
      | Inr _ \<Rightarrow>
          (case encode_records codec (map WEntry entries) of
             (_, Some error) \<Rightarrow> (self, Inl error)
           | (batch, None) \<Rightarrow>
               if entries = [] then (self\<lparr>fs_wal := complete done (Inr ()) (fs_wal self)\<rparr>, Inr ())
               else
                 let t = ww_telemetry (fs_wal self);
                     w = (fs_wal self)\<lparr>ww_telemetry := t\<lparr>
                       st_appended_records := st_appended_records t + word_of_nat (length entries),
                       st_appended_batches := st_appended_batches t + 1\<rparr>\<rparr>
                 in (self\<lparr>fs_state := (fs_state self)\<lparr>
                            du_log := fold insert_entry entries (du_log (fs_state self))\<rparr>,
                          fs_wal := wal_submit (WriteJob batch done) w\<rparr>, Inr ())))"

definition fs_append ::
    "('lid, 'm, 'vote) wal_codec \<Rightarrow> ('lid, 'm) Entry list \<Rightarrow> nat \<Rightarrow> ('lid, 'm, 'vote) FileRaftLogStore \<Rightarrow>
     ('lid, 'm, 'vote) FileRaftLogStore \<times> (StorageError, unit) result" where
  "fs_append codec entries callback self = queue_entries codec entries (Flushed callback) self"

definition fs_try_get_log_entries ::
    "('lid, 'm, 'vote) FileRaftLogStore \<Rightarrow> bound \<Rightarrow> bound \<Rightarrow> ('lid, 'm) Entry list option" where
  "fs_try_get_log_entries self lo hi = log_range lo hi (du_log (fs_state self))"

definition fs_get_log_state :: "('lid, 'm, 'vote) FileRaftLogStore \<Rightarrow> 'lid LogState" where
  "fs_get_log_state self = log_state_of (du_log (fs_state self)) (du_last_purged_log_id (fs_state self))"

definition fs_read_vote :: "('lid, 'm, 'vote) FileRaftLogStore \<Rightarrow> 'vote option" where
  "fs_read_vote self = du_vote (fs_state self)"

definition fs_save_vote ::
    "('lid, 'm, 'vote) wal_codec \<Rightarrow> nat \<Rightarrow> 'vote \<Rightarrow> ('lid, 'm, 'vote) FileRaftLogStore \<Rightarrow>
     ('lid, 'm, 'vote) FileRaftLogStore \<times> (StorageError, unit) result" where
  "fs_save_vote codec done vote self =
     (case check_injected_failure self of
        Inl error \<Rightarrow> (self, Inl (WriteVote error))
      | Inr _ \<Rightarrow>
          (case encode_record codec (WVote vote) of
             Inl error \<Rightarrow> (self, Inl error)
           | Inr line \<Rightarrow>
               (case wal_write done line (wal_of self) of
                  (s, Inl error) \<Rightarrow> (set_wal s self, Inl (WriteVote error))
                | (s, Inr _) \<Rightarrow>
                    ((set_wal s self)\<lparr>fs_state := (fs_state self)\<lparr>du_vote := Some vote\<rparr>\<rparr>, Inr ()))))"

definition fs_truncate ::
    "('lid, 'm, 'vote) wal_codec \<Rightarrow> nat \<Rightarrow> 'lid LogId \<Rightarrow> ('lid, 'm, 'vote) FileRaftLogStore \<Rightarrow>
     ('lid, 'm, 'vote) FileRaftLogStore \<times> (StorageError, unit) result" where
  "fs_truncate codec done log_id self =
     (case encode_record codec (WTruncate (li_index log_id)) of
        Inl error \<Rightarrow> (self, Inl error)
      | Inr line \<Rightarrow>
          (case wal_write done line (wal_of self) of
             (s, Inl error) \<Rightarrow> (set_wal s self, Inl (WriteLogs error))
           | (s, Inr _) \<Rightarrow>
               ((set_wal s self)\<lparr>fs_state := (fs_state self)\<lparr>
                  du_log := bt_below (li_index log_id) (du_log (fs_state self))\<rparr>\<rparr>, Inr ())))"

definition fs_purge ::
    "('lid, 'm, 'vote) wal_codec \<Rightarrow> rewrite_fault option \<Rightarrow> nat \<Rightarrow> 'lid LogId \<Rightarrow>
     ('lid, 'm, 'vote) FileRaftLogStore \<Rightarrow>
     ('lid, 'm, 'vote) FileRaftLogStore \<times> (StorageError, unit) result" where
  "fs_purge codec fault done log_id self =
     (let st = (fs_state self)\<lparr>
            du_last_purged_log_id := advance_purged log_id (du_last_purged_log_id (fs_state self)),
            du_log := bt_from (li_index log_id + 1) (du_log (fs_state self))\<rparr>;
          self1 = self\<lparr>fs_state := st\<rparr>
      in case wal_write done [] (wal_of self1) of
           (s, Inl error) \<Rightarrow> (set_wal s self1, Inl (WriteLogs error))
         | (s, Inr _) \<Rightarrow>
             let self2 = set_wal s self1;
                 old = dk_wal (fs_disk self2);
                 ((disk, telemetry), renamed, r) =
                   wal_rewrite codec fault (fs_fail_writes self2) st
                     (fs_disk self2, ww_telemetry (fs_wal self2));
                 w = (fs_wal self2)\<lparr>ww_telemetry := telemetry,
                        ww_file := (if renamed \<and> ww_file (fs_wal self2) = None then Some old
                                    else ww_file (fs_wal self2))\<rparr>;
                 self3 = self2\<lparr>fs_disk := disk, fs_wal := w\<rparr>
             in (case r of
                   Inl error \<Rightarrow> (self3, Inl error)
                 | Inr _ \<Rightarrow> (set_wal (wal_replace done (wal_of self3)) self3, Inr ())))"


section \<open>Lemmas on lines and replay\<close>

definition ends_line :: "string \<Rightarrow> bool" where
  "ends_line b \<longleftrightarrow> b = [] \<or> last b = newline"

lemma lines_acc_ends:
  "b \<noteq> [] \<Longrightarrow> last b = newline \<Longrightarrow> lines_acc acc (b @ c) = lines_acc acc b @ lines_acc [] c"
  by (induction b arbitrary: acc) (auto simp: newline_def split: if_splits)

lemma lines_append: "ends_line b \<Longrightarrow> lines (b @ c) = lines b @ lines c"
  by (cases "b = []") (simp_all add: ends_line_def lines_def lines_acc_ends)

lemma lines_unended: "CHR 0x0A \<notin> set s \<Longrightarrow> lines s = (if s = [] then [] else [s])"
proof -
  have "CHR 0x0A \<notin> set s \<Longrightarrow> lines_acc acc s = (if acc = [] \<and> s = [] then [] else [rev acc @ s])" for acc
    by (induction s arbitrary: acc) auto
  from this [of "[]"] show "CHR 0x0A \<notin> set s \<Longrightarrow> lines s = (if s = [] then [] else [s])"
    by (simp add: lines_def)
qed

lemma ends_line_append: "ends_line b \<Longrightarrow> ends_line c \<Longrightarrow> ends_line (b @ c)"
  by (auto simp: ends_line_def last_append_if)

definition wal_codec_ok :: "('lid, 'm, 'vote) wal_codec \<Rightarrow> bool" where
  "wal_codec_ok codec \<longleftrightarrow> codec_roundtrip (enc_record codec) (dec_record codec)
     \<and> codec_one_line (enc_record codec) \<and> codec_not_blank (enc_record codec)
     \<and> codec_utf8 (enc_record codec)"

lemma lines_record:
  assumes "wal_codec_ok codec" "enc_record codec r = Inr b"
  shows "lines (b @ [newline]) = [b]" "trim b \<noteq> []" "dec_record codec b = Inr r" "utf8_valid b"
proof -
  have "CHR 0x0A \<notin> set b" "CHR 0x0D \<notin> set b" and ne: "b \<noteq> []"
    using assms codec_one_lineD codec_roundtripD by (fastforce simp: wal_codec_ok_def)+
  then have "plain_line b" by (metis last_in_set plain_line_def)
  then show "lines (b @ [newline]) = [b]"
    using lines_unlines_id [of "[b]"] by (simp add: unlines_def newline_def)
qed (use assms in \<open>auto simp: wal_codec_ok_def codec_not_blank_def dest: codec_roundtripD codec_utf8D\<close>)

lemma replay_append:
  "replay_lines codec n (xs @ ys) st k =
     (case replay_lines codec n xs st k of
        Inl e \<Rightarrow> Inl e
      | Inr (st', k') \<Rightarrow> replay_lines codec (n + length xs) ys st' k')"
  by (induction codec n xs st k rule: replay_lines.induct) (auto split: sum.splits)

lemma encode_record_Inr:
  "encode_record codec r = Inr line \<longleftrightarrow> (\<exists>b. enc_record codec r = Inr b \<and> line = b @ [newline])"
  by (auto simp: encode_record_def split: sum.splits)

lemma encode_records_ends: "encode_records codec rs = (b, e) \<Longrightarrow> ends_line b"
proof (induction rs arbitrary: b)
  case (Cons r rs)
  have "ends_line (t @ [newline])" for t by (simp add: ends_line_def)
  from ends_line_append [OF this] Cons show ?case
    by (auto simp: encode_record_def ends_line_def split: sum.splits prod.splits if_splits)
qed (simp add: ends_line_def)

lemma encode_records_append:
  "encode_records codec rs = (b, None) \<Longrightarrow> encode_records codec qs = (c, None) \<Longrightarrow>
     encode_records codec (rs @ qs) = (b @ c, None)"
  by (induction rs arbitrary: b) (auto split: sum.splits prod.splits)

lemma replay_encoded:
  assumes "wal_codec_ok codec" "encode_records codec rs = (b, None)"
  shows "replay_lines codec n (lines b) st k = Inr (fold apply_record rs st, k + length rs)"
  using assms(2)
proof (induction rs arbitrary: b n st k)
  case (Cons r rs)
  then obtain t b' where t: "enc_record codec r = Inr t" "encode_records codec rs = (b', None)"
    "b = (t @ [newline]) @ b'"
    by (auto simp: encode_record_Inr split: sum.splits prod.splits)
  have "lines b = t # lines b'"
    using lines_append [of "t @ [newline]" b'] lines_record(1) [OF assms(1) t(1)]
    by (simp add: t(3) ends_line_def)
  then show ?case
    using lines_record(2-4) [OF assms(1) t(1)] Cons.IH [OF t(2)] by simp
qed simp

lemma replay_then_encoded:
  assumes "wal_codec_ok codec" "ends_line b" "replay_lines codec 0 (lines b) st0 k = Inr (st, m)"
    and "encode_records codec rs = (c, None)"
  shows "replay_lines codec 0 (lines (b @ c)) st0 k = Inr (fold apply_record rs st, m + length rs)"
  using assms by (simp add: lines_append replay_append replay_encoded)

section \<open>Lemmas on the rewrite\<close>

definition keyed :: "('lid, 'm, 'vote) DurableState \<Rightarrow> bool" where
  "keyed st \<longleftrightarrow> (\<forall>i e. bt_get (du_log st) i = Some e \<longrightarrow> index_of e = i)"

lemma keyed_default [simp]: "keyed DurableState_default"
  by (simp add: keyed_def DurableState_default_def)

lemma keyed_apply: "keyed st \<Longrightarrow> keyed (apply_record r st)"
  by (cases r) (auto simp: keyed_def insert_entry_def bt_get_insert bt_get_below bt_get_from split: if_splits)

lemma keyed_fold: "keyed st \<Longrightarrow> keyed (fold apply_record rs st)"
  by (induction rs arbitrary: st) (auto simp: keyed_apply)

lemma replay_keyed: "replay_lines codec n ls st k = Inr (st', k') \<Longrightarrow> keyed st \<Longrightarrow> keyed st'"
  by (induction codec n ls st k rule: replay_lines.induct)
    (auto simp: keyed_apply split: if_splits sum.splits)

lemma fold_entries:
  "fold apply_record (map WEntry es) st = st\<lparr>du_log := fold insert_entry es (du_log st)\<rparr>"
  by (induction es arbitrary: st) simp_all

lemma fold_insert_extend: "fold insert_entry es m = bt_extend m (map (\<lambda>e. (index_of e, e)) es)"
  by (induction es arbitrary: m) (simp_all add: insert_entry_def)

lemma fold_insert_values:
  assumes "keyed st"
  shows "fold insert_entry (bt_values (du_log st)) bt_empty = du_log st"
proof -
  have "map (\<lambda>e. (index_of e, e)) (bt_values (du_log st)) = bt_entries (du_log st)"
  proof -
    have "(index_of (snd p), snd p) = p" if "p \<in> set (bt_entries (du_log st))" for p
      using assms that by (cases p) (auto simp: keyed_def simp flip: bt_get_iff)
    then show ?thesis by (simp add: bt_values_def comp_def map_idI)
  qed
  then show ?thesis
    using bt_of_list_entries [of "du_log st"] by (simp add: bt_of_list_def fold_insert_extend)
qed

lemma bt_from_empty [simp]: "bt_from k bt_empty = bt_empty"
  by (rule bt_eqI) (simp add: bt_get_from)

lemma rewrite_records_fold:
  assumes "keyed st"
  shows "fold apply_record (rewrite_records st) DurableState_default = st"
proof -
  let ?st0 = "\<lparr>du_vote = du_vote st, du_log = bt_empty, du_last_purged_log_id = du_last_purged_log_id st\<rparr>"
  have "fold apply_record (rewrite_records st) DurableState_default =
      fold apply_record (map WEntry (bt_values (du_log st))) ?st0"
    by (simp add: rewrite_records_def DurableState_default_def advance_purged_def split: option.split)
  also have "\<dots> = st" by (simp add: fold_entries fold_insert_values [OF assms])
  finally show ?thesis .
qed

lemma length_rewrite_records: "length (rewrite_records st) = live_records st"
  by (auto simp: rewrite_records_def live_records_def bt_values_def bt_len_def split: option.splits)

section \<open>The contract of the replayed log\<close>

interpretation wal: raft_log "\<lambda>s. bt_get (du_log s)" du_vote du_last_purged_log_id
    "\<lambda>e. apply_record (WEntry e)" "\<lambda>l. apply_record (WTruncate (li_index l))"
    "\<lambda>l. apply_record (WPurge l)" "\<lambda>v. apply_record (WVote v)"
  by unfold_locales
    (auto simp: insert_entry_def bt_get_insert bt_get_below bt_get_from u64_succ_le_iff)

text \<open>Replaying a truncation and the entries that follow it repairs the log as the raft log does.\<close>

lemma replayed_log_repair:
  fixes l :: "'lid LogId" and es :: "('lid, 'm) Entry list" and st :: "('lid, 'm, 'vote) DurableState"
  assumes "distinct (map index_of es)" "\<forall>e \<in> set es. li_index l \<le> index_of e"
  shows "bt_get (du_log (fold apply_record (WTruncate (li_index l) # map WEntry es) st)) i =
    (if i < li_index l then bt_get (du_log st) i else map_of (map (\<lambda>e. (index_of e, e)) es) i)"
  using wal.truncate_then_append [OF assms, of st i] by (simp add: fold_map comp_def)

section \<open>Lemmas on the writer\<close>

fun is_write :: "WalJob \<Rightarrow> bool" where
  "is_write (WriteJob _ _) \<longleftrightarrow> True"
| "is_write (ReplaceJob _) \<longleftrightarrow> False"

fun job_bytes :: "WalJob \<Rightarrow> string" where
  "job_bytes (WriteJob b _) = b"
| "job_bytes (ReplaceJob _) = []"

fun job_done :: "WalJob \<Rightarrow> WalDone" where
  "job_done (WriteJob _ d) = d"
| "job_done (ReplaceJob d) = Notify d"

abbreviation queue_bytes :: "WalWriter \<Rightarrow> string" where
  "queue_bytes w \<equiv> concat (map job_bytes (ww_queue w))"

lemma run_jobs_writes:
  "list_all is_write jobs \<Longrightarrow> run_jobs jobs b d s =
     wal_flush (b @ concat (map job_bytes jobs)) (d @ map job_done jobs) s"
proof (induction jobs arbitrary: b d)
  case (Cons j jobs)
  then show ?case by (cases j) simp_all
qed simp

lemma flush_failed:
  "ww_failed (snd s) = Some error \<Longrightarrow>
     wal_flush b d s = (fst s, (snd s)\<lparr>ww_completed := ww_completed (snd s) @ map (\<lambda>x. (x, Inl error)) d\<rparr>)"
  by (cases s) (simp add: wal_flush_def)

lemma flush_clean:
  assumes "ww_failed w = None" "ww_file w = None" "ww_script w = []" "d \<noteq> []"
  shows "wal_flush b d (f, w) =
     (if b = [] then f else \<lparr>wf_bytes = wf_bytes f @ b, wf_synced = length (wf_bytes f @ b)\<rparr>,
      w\<lparr>ww_telemetry := (if b = [] then ww_telemetry w
                          else (ww_telemetry w)\<lparr>st_fsyncs := st_fsyncs (ww_telemetry w) + 1\<rparr>),
        ww_completed := ww_completed w @ map (\<lambda>x. (x, Inr ())) d\<rparr>)"
  using assms
  by (cases w) (simp add: wal_flush_def write_all_and_sync_def writer_file_def set_writer_file_def)

lemma flush_keeps:
  "ww_queue (snd (wal_flush b d s)) = ww_queue (snd s)"
  "ww_running (snd (wal_flush b d s)) = ww_running (snd s)"
  by (auto simp: wal_flush_def set_writer_file_def Let_def split: option.splits prod.splits sum.splits list.splits)

text \<open>
  A flush that leaves the writer healthy wrote and synced all its bytes and told every waiter so;
  a flush that fails tells every waiter an error and leaves the synced prefix as it was.
\<close>

lemma flush_cases:
  assumes "ww_failed (snd s) = None" "ww_file (snd s) = None" "d \<noteq> []"
    and "wal_flush b d s = (f, w)"
  shows "ww_failed w = None \<and> ww_file w = None
      \<and> f = (if b = [] then fst s
             else \<lparr>wf_bytes = wf_bytes (fst s) @ b, wf_synced = length (wf_bytes (fst s) @ b)\<rparr>)
      \<and> ww_completed w = ww_completed (snd s) @ map (\<lambda>x. (x, Inr ())) d
    \<or> (\<exists>error n. ww_failed w \<noteq> None \<and> ww_file w = None
      \<and> f = (fst s)\<lparr>wf_bytes := wf_bytes (fst s) @ take n b\<rparr>
      \<and> ww_completed w = ww_completed (snd s) @ map (\<lambda>x. (x, Inl error)) d)"
proof (cases "b = []")
  case True
  then show ?thesis using assms by (cases s) (auto simp: wal_flush_def)
next
  case False
  define fault where "fault = (case ww_script (snd s) of [] \<Rightarrow> None | x # _ \<Rightarrow> x)"
  define script where "script = (case ww_script (snd s) of [] \<Rightarrow> [] | _ # xs \<Rightarrow> xs)"
  have split: "(case ww_script (snd s) of [] \<Rightarrow> (None, []) | x # xs \<Rightarrow> (x, xs)) = (fault, script)"
    by (simp add: fault_def script_def split: list.split)
  show ?thesis
  proof (cases fault)
    case None
    with False split assms show ?thesis
      by (cases s) (auto simp: wal_flush_def write_all_and_sync_def writer_file_def set_writer_file_def)
  next
    case (Some x)
    obtain n error where n: "write_all_and_sync (Some x) b (fst s) =
        ((fst s)\<lparr>wf_bytes := wf_bytes (fst s) @ take n b\<rparr>, Inl error)"
    proof (cases x)
      case (SyncError e)
      then show ?thesis using that [of "length b" e] by (simp add: write_all_and_sync_def)
    qed (use that in \<open>simp add: write_all_and_sync_def\<close>)
    from Some False split assms n show ?thesis
      by (cases s) (auto simp: wal_flush_def writer_file_def set_writer_file_def)
  qed
qed

lemma round_writes:
  assumes "list_all is_write (ww_queue (snd s))" "ww_running (snd s)" "take n (ww_queue (snd s)) \<noteq> []"
  shows "writer_round n s =
    wal_flush (concat (map job_bytes (take n (ww_queue (snd s)))))
      (map job_done (take n (ww_queue (snd s)))) (fst s, (snd s)\<lparr>ww_queue := drop n (ww_queue (snd s))\<rparr>)"
proof -
  have "list_all is_write (take n (ww_queue (snd s)))"
    using assms(1) by (auto simp: list_all_iff dest: in_set_takeD)
  then show ?thesis using assms by (simp add: writer_round_def Let_def run_jobs_writes)
qed

end
