(* ===== verification/Wal_Recovery.thy ===== *)
theory Wal_Recovery
  imports Wal_Store
begin

text \<open>
  Correctness of the file-backed raft log: the invariant that ties the bytes on disk, the queued
  writes and the in-memory state together, its preservation by every operation under arbitrary
  write failures, and what follows from it for crashes, restarts, compaction and group commit.
\<close>

section \<open>The invariant\<close>

text \<open>The whole file is synced, ends at a record boundary and replays to \<open>st\<close>.\<close>

definition durable_view ::
    "('lid, 'm, 'vote) wal_codec \<Rightarrow> wal_file \<Rightarrow> ('lid, 'm, 'vote) DurableState \<Rightarrow> bool" where
  "durable_view codec f st \<longleftrightarrow> wf_synced f = length (wf_bytes f) \<and> ends_line (wf_bytes f)
     \<and> (\<exists>n. replay_lines codec 0 (lines (wf_bytes f)) DurableState_default 0 = Inr (st, n))"

text \<open>Each queued job writes the encoding of some records.\<close>

definition jobs_encode ::
    "('lid, 'm, 'vote) wal_codec \<Rightarrow> WalJob list \<Rightarrow> ('lid, 'm, 'vote) WalRecord list list \<Rightarrow> bool" where
  "jobs_encode codec jobs rss \<longleftrightarrow>
     list_all2 (\<lambda>j rs. encode_records codec rs = (job_bytes j, None)) jobs rss"

text \<open>
  A healthy writer's file is the one at the path, and the records there followed by the queued
  ones give the in-memory state \<open>st\<close>.
\<close>

definition writer_ok ::
    "('lid, 'm, 'vote) wal_codec \<Rightarrow> wal_file \<times> WalWriter \<Rightarrow> ('lid, 'm, 'vote) DurableState \<Rightarrow> bool" where
  "writer_ok codec s st \<longleftrightarrow> ww_running (snd s) \<and> list_all is_write (ww_queue (snd s))
     \<and> (ww_failed (snd s) = None \<longrightarrow> ww_file (snd s) = None
        \<and> (\<exists>st0 rss. durable_view codec (fst s) st0 \<and> jobs_encode codec (ww_queue (snd s)) rss
             \<and> st = fold apply_record (concat rss) st0))"

abbreviation wal_inv :: "('lid, 'm, 'vote) wal_codec \<Rightarrow> ('lid, 'm, 'vote) FileRaftLogStore \<Rightarrow> bool" where
  "wal_inv codec self \<equiv> writer_ok codec (wal_of self) (fs_state self)"

lemma jobs_encode_concat:
  "jobs_encode codec jobs rss \<Longrightarrow> encode_records codec (concat rss) = (concat (map job_bytes jobs), None)"
  unfolding jobs_encode_def
  by (induction rule: list_all2_induct) (simp_all add: encode_records_append)

lemma durable_extend:
  assumes "wal_codec_ok codec" "durable_view codec f st" "encode_records codec rs = (b, None)"
  shows "durable_view codec
    (if b = [] then f else \<lparr>wf_bytes = wf_bytes f @ b, wf_synced = length (wf_bytes f @ b)\<rparr>)
    (fold apply_record rs st)"
proof (cases "b = []")
  case True
  have "rs = []" using assms(3) True
    by (cases rs) (auto simp: encode_record_def split: sum.splits prod.splits)
  then show ?thesis using assms(2) True by simp
next
  case False
  then show ?thesis
    using assms(2,3) replay_then_encoded [OF assms(1) _ _ assms(3), of "wf_bytes f"]
    by (auto simp: durable_view_def ends_line_append dest: encode_records_ends)
qed

lemma durable_keyed: "durable_view codec f st \<Longrightarrow> keyed st"
  by (auto simp: durable_view_def dest: replay_keyed)

lemma writer_ok_keyed: "writer_ok codec s st \<Longrightarrow> ww_failed (snd s) = None \<Longrightarrow> keyed st"
  by (auto simp: writer_ok_def keyed_fold dest: durable_keyed)

lemma writer_ok_failed: "writer_ok codec s st \<Longrightarrow> ww_failed (snd s) \<noteq> None \<Longrightarrow> writer_ok codec s st'"
  by (auto simp: writer_ok_def)

section \<open>Steps of the writer\<close>

lemma submit_ok:
  assumes "writer_ok codec (f, w) st" "encode_records codec rs = (b, None)"
  shows "writer_ok codec (f, wal_submit (WriteJob b d) w) (fold apply_record rs st)"
proof -
  have "jobs_encode codec (q @ [WriteJob b d]) (rss @ [rs])" if "jobs_encode codec q rss" for q rss
    using that assms(2) by (simp add: jobs_encode_def list_all2_appendI)
  moreover have "fold apply_record rs (fold apply_record (concat rss) st0)
      = fold apply_record (concat (rss @ [rs])) st0" for rss st0 by simp
  ultimately show ?thesis
    using assms(1) by (fastforce simp: writer_ok_def wal_submit_def)
qed

text \<open>A round on a writer that has not failed: the queued batches it took are on disk and the rest
stays queued, or the writer has failed and every batch it took is answered with the error.\<close>

lemma round_flushed:
  assumes codec: "wal_codec_ok codec" and jobs: "jobs \<noteq> []" "list_all is_write rest"
    and s: "ww_failed w0 = None" "ww_file w0 = None" "ww_queue w0 = rest" "ww_running w0"
    and view: "durable_view codec f0 st0" "encode_records codec rs = (concat (map job_bytes jobs), None)"
      "jobs_encode codec rest rss"
    and fl: "wal_flush (concat (map job_bytes jobs)) (map job_done jobs) (f0, w0) = (f, w)"
  shows "writer_ok codec (f, w) (fold apply_record (concat rss) (fold apply_record rs st0))
    \<and> (\<exists>r. ww_completed w = ww_completed w0 @ map (\<lambda>j. (job_done j, r)) jobs
         \<and> (r = Inr () \<longleftrightarrow> ww_failed w = None))"
proof -
  let ?b = "concat (map job_bytes jobs)"
  have keeps: "ww_queue w = rest" "ww_running w"
    using flush_keeps [of ?b "map job_done jobs" "(f0, w0)"] fl s by simp_all
  have "ww_failed (snd (f0, w0)) = None" "ww_file (snd (f0, w0)) = None" "map job_done jobs \<noteq> []"
    using s jobs by simp_all
  from flush_cases [OF this fl] show ?thesis
  proof (elim disjE conjE exE)
    assume h: "ww_failed w = None" "ww_file w = None"
      "f = (if ?b = [] then fst (f0, w0)
           else \<lparr>wf_bytes = wf_bytes (fst (f0, w0)) @ ?b, wf_synced = length (wf_bytes (fst (f0, w0)) @ ?b)\<rparr>)"
      "ww_completed w = ww_completed (snd (f0, w0)) @ map (\<lambda>x. (x, Inr ())) (map job_done jobs)"
    have "durable_view codec f (fold apply_record rs st0)"
      using h(3) durable_extend [OF codec view(1,2)] by (simp only: fst_conv)
    then have "writer_ok codec (f, w) (fold apply_record (concat rss) (fold apply_record rs st0))"
      using h(1,2) view(3) keeps jobs(2) by (auto simp: writer_ok_def)
    then show ?thesis using h(1,4) by (auto simp: comp_def intro!: exI [of _ "Inr ()"])
  next
    fix error k
    assume "ww_failed w \<noteq> None"
      "ww_completed w = ww_completed (snd (f0, w0)) @ map (\<lambda>x. (x, Inl error)) (map job_done jobs)"
    then show ?thesis using keeps jobs(2)
      by (auto simp: writer_ok_def comp_def intro!: exI [of _ "Inl error"])
  qed
qed

lemma round_result:
  assumes "wal_codec_ok codec" "writer_ok codec s st" "take n (ww_queue (snd s)) \<noteq> []"
    and "writer_round n s = (f, w)"
  shows "writer_ok codec (f, w) st \<and> ww_queue w = drop n (ww_queue (snd s))
    \<and> (\<exists>r. ww_completed w = ww_completed (snd s) @ map (\<lambda>j. (job_done j, r)) (take n (ww_queue (snd s)))
         \<and> (r = Inr () \<longleftrightarrow> ww_failed w = None))"
proof -
  let ?jobs = "take n (ww_queue (snd s))" and ?rest = "drop n (ww_queue (snd s))"
  let ?s = "(fst s, (snd s)\<lparr>ww_queue := ?rest\<rparr>)"
  let ?b = "concat (map job_bytes ?jobs)"
  have writes: "list_all is_write (ww_queue (snd s))" "ww_running (snd s)"
    using assms(2) by (auto simp: writer_ok_def)
  have fl: "wal_flush ?b (map job_done ?jobs) ?s = (f, w)"
    using round_writes [OF writes assms(3)] assms(4) by simp
  have keeps: "ww_queue w = ?rest" "ww_running w"
    using flush_keeps [of ?b "map job_done ?jobs" ?s] fl writes by simp_all
  have rest: "list_all is_write ?rest"
    using writes(1) by (auto simp: list_all_iff dest: in_set_dropD)
  show ?thesis
  proof (cases "ww_failed (snd s)")
    case (Some error)
    then show ?thesis using fl flush_failed [of ?s error] keeps rest writes
      by (auto simp: writer_ok_def comp_def intro!: exI [of _ "Inl error"])
  next
    case None
    then obtain st0 rss where st0: "ww_file (snd s) = None" "durable_view codec (fst s) st0"
      "jobs_encode codec (ww_queue (snd s)) rss" "st = fold apply_record (concat rss) st0"
      using assms(2) by (auto simp: writer_ok_def)
    let ?rs = "concat (take n rss)"
    have enc: "encode_records codec ?rs = (?b, None)"
      and later: "jobs_encode codec ?rest (drop n rss)"
      using st0(3) by (auto simp: jobs_encode_def intro: jobs_encode_concat [unfolded jobs_encode_def])
    have split: "st = fold apply_record (concat (drop n rss)) (fold apply_record ?rs st0)"
      using st0(4) by (metis append_take_drop_id concat_append fold_append comp_apply)
    show ?thesis
      using round_flushed [OF assms(1,3) rest _ _ _ _ st0(2) enc later fl] None st0(1) writes(2) keeps(1)
      unfolding split by simp
  qed
qed

lemma round_ok:
  assumes "wal_codec_ok codec" "writer_ok codec s st"
  shows "writer_ok codec (writer_round n s) st"
proof (cases "take n (ww_queue (snd s)) = []")
  case True
  then have "writer_round n s = s" by (simp add: writer_round_def)
  then show ?thesis using assms(2) by simp
next
  case False
  then show ?thesis using round_result [OF assms False] by (metis prod.collapse)
qed

lemma completion_last:
  assumes "ww_completed w = xs @ map (\<lambda>j. (job_done j, r)) jobs" "jobs \<noteq> []" "job_done (last jobs) = d"
  shows "completion_of d w = r"
proof -
  obtain js j where "jobs = js @ [j]" using assms(2) by (cases jobs rule: rev_cases) auto
  then show ?thesis using assms by (simp add: completion_of_def)
qed

lemma wal_write_ok:
  assumes "wal_codec_ok codec" "writer_ok codec s st" "encode_records codec rs = (b, None)"
    and "wal_write d b s = (s', r)"
  shows "writer_ok codec s' (fold apply_record rs st) \<and> ww_queue (snd s') = []
    \<and> (r = Inr () \<longleftrightarrow> ww_failed (snd s') = None)"
proof -
  let ?w = "wal_submit (WriteJob b (Notify d)) (snd s)"
  let ?n = "length (ww_queue ?w)"
  have ok: "writer_ok codec (fst s, ?w) (fold apply_record rs st)"
    using submit_ok [of codec "fst s" "snd s"] assms by simp
  have run: "ww_running (snd s)" using assms(2) by (simp add: writer_ok_def)
  then have q: "ww_queue ?w = ww_queue (snd s) @ [WriteJob b (Notify d)]"
    by (simp add: wal_submit_def)
  obtain f w where fw: "writer_round ?n (fst s, ?w) = (f, w)" by (metis prod.collapse)
  have ne: "take ?n (ww_queue (snd (fst s, ?w))) \<noteq> []" by (simp add: q)
  from round_result [OF assms(1) ok ne fw] obtain res where
    res: "writer_ok codec (f, w) (fold apply_record rs st)"
    "ww_queue w = drop ?n (ww_queue (snd (fst s, ?w)))"
    "ww_completed w = ww_completed (snd (fst s, ?w))
       @ map (\<lambda>j. (job_done j, res)) (take ?n (ww_queue (snd (fst s, ?w))))"
    "res = Inr () \<longleftrightarrow> ww_failed w = None"
    by (elim conjE exE) (rule that)
  have "completion_of (Notify d) w = res" by (rule completion_last [OF res(3)]) (simp_all add: q)
  then have "s' = (f, w)" "r = res" using assms(4) fw by (auto simp: wal_write_def Let_def)
  then show ?thesis using res(1,2,4) by simp
qed

section \<open>Steps of the store\<close>

lemma wal_of_set_wal [simp]: "wal_of (set_wal s self) = s" "fs_state (set_wal s self) = fs_state self"
  "fs_fail_writes (set_wal s self) = fs_fail_writes self"
  by (simp_all add: set_wal_def)

lemma writer_ok_cong:
  "writer_ok codec (f, w) st \<Longrightarrow> ww_running w' = ww_running w \<Longrightarrow> ww_queue w' = ww_queue w \<Longrightarrow>
   ww_failed w' = ww_failed w \<Longrightarrow> ww_file w' = ww_file w \<Longrightarrow> writer_ok codec (f, w') st"
  by (simp add: writer_ok_def)

lemma append_inv:
  assumes "wal_inv codec self"
  shows "wal_inv codec (fst (fs_append codec es cb self))"
proof -
  obtain b e where be: "encode_records codec (map WEntry es) = (b, e)" by (metis prod.collapse)
  show ?thesis
  proof (cases "fs_fail_writes self \<or> e \<noteq> None \<or> es = []")
    case True
    then show ?thesis using assms be
      by (auto simp: fs_append_def queue_entries_def check_injected_failure_def complete_def
          elim!: writer_ok_cong)
  next
    case False
    define w where "w = (fs_wal self)\<lparr>ww_telemetry := (ww_telemetry (fs_wal self))\<lparr>
       st_appended_records := st_appended_records (ww_telemetry (fs_wal self)) + word_of_nat (length es),
       st_appended_batches := st_appended_batches (ww_telemetry (fs_wal self)) + 1\<rparr>\<rparr>"
    have "writer_ok codec (dk_wal (fs_disk self), w) (fs_state self)"
      by (rule writer_ok_cong [OF assms]) (simp_all add: w_def)
    from submit_ok [OF this, of "map WEntry es" b "Flushed cb"] be False show ?thesis
      by (simp add: fs_append_def queue_entries_def check_injected_failure_def Let_def w_def fold_entries)
  qed
qed

lemma single_encode: "encode_record codec r = Inr line \<Longrightarrow> encode_records codec [r] = (line, None)"
  by simp

lemma vote_inv:
  assumes "wal_codec_ok codec" "wal_inv codec self"
  shows "wal_inv codec (fst (fs_save_vote codec d v self))"
proof -
  have "wal_inv codec (fst (fs_save_vote codec d v self))"
    if "encode_record codec (WVote v) = Inr line" "wal_write d line (wal_of self) = (s, r)"
      "\<not> fs_fail_writes self" for line s r
    using wal_write_ok [OF assms single_encode [OF that(1)] that(2)] that
    by (auto simp: fs_save_vote_def check_injected_failure_def split: sum.splits elim: writer_ok_failed)
  then show ?thesis using assms(2)
    by (cases "encode_record codec (WVote v)"; cases "fs_fail_writes self")
      (auto simp: fs_save_vote_def check_injected_failure_def split: prod.splits)
qed

lemma truncate_inv:
  assumes "wal_codec_ok codec" "wal_inv codec self"
  shows "wal_inv codec (fst (fs_truncate codec d l self))"
proof -
  have "wal_inv codec (fst (fs_truncate codec d l self))"
    if "encode_record codec (WTruncate (li_index l)) = Inr line" "wal_write d line (wal_of self) = (s, r)" for line s r
    using wal_write_ok [OF assms single_encode [OF that(1)] that(2)] that
    by (auto simp: fs_truncate_def split: sum.splits elim: writer_ok_failed)
  then show ?thesis using assms(2)
    by (cases "encode_record codec (WTruncate (li_index l))")
      (auto simp: fs_truncate_def split: prod.splits)
qed

lemma rewrite_success:
  assumes "wal_rewrite codec fault ij st s = ((disk, tel), renamed, Inr ())"
  shows "renamed \<and> (\<exists>b. encode_records codec (rewrite_records st) = (b, None)
    \<and> dk_wal disk = \<lparr>wf_bytes = b, wf_synced = length b\<rparr>)"
  using assms by (auto simp: wal_rewrite_def Let_def
      split: if_splits prod.splits option.splits rewrite_fault.splits)

lemma rewritten_durable:
  assumes "wal_codec_ok codec" "keyed st" "encode_records codec (rewrite_records st) = (b, None)"
  shows "durable_view codec \<lparr>wf_bytes = b, wf_synced = length b\<rparr> st"
    and "replay_lines codec 0 (lines b) DurableState_default 0 = Inr (st, live_records st)"
proof -
  show *: "replay_lines codec 0 (lines b) DurableState_default 0 = Inr (st, live_records st)"
    using replay_encoded [OF assms(1,3)] by (simp add: rewrite_records_fold [OF assms(2)] length_rewrite_records)
  then show "durable_view codec \<lparr>wf_bytes = b, wf_synced = length b\<rparr> st"
    using encode_records_ends [OF assms(3)] by (simp add: durable_view_def)
qed

lemma replace_drained:
  assumes "ww_running w" "ww_queue w = []"
  shows "wal_replace d (f, w) =
    (f, w\<lparr>ww_file := None, ww_completed := ww_completed w @ [(Notify d, Inr ())]\<rparr>)"
  using assms by (cases w) (simp add: wal_replace_def wal_submit_def writer_round_def wal_flush_def Let_def)

lemma durable_writer_ok:
  "durable_view codec f st \<Longrightarrow> ww_running w \<Longrightarrow> ww_queue w = [] \<Longrightarrow> ww_file w = None \<Longrightarrow>
     writer_ok codec (f, w) st"
  by (auto simp: writer_ok_def jobs_encode_def intro!: exI [of _ st] exI [of _ "[]"])

lemma purge_inv:
  assumes codec: "wal_codec_ok codec" and inv: "wal_inv codec self"
    and purge: "fs_purge codec fault d l self = (self', Inr ())"
  shows "wal_inv codec self' \<and> fs_state self' = apply_record (WPurge l) (fs_state self)
    \<and> ww_queue (fs_wal self') = []
    \<and> (ww_failed (fs_wal self') = None \<longrightarrow>
        replay_lines codec 0 (lines (wf_bytes (dk_wal (fs_disk self')))) DurableState_default 0
          = Inr (fs_state self', live_records (fs_state self')))"
proof -
  let ?st = "apply_record (WPurge l) (fs_state self)"
  obtain s r where w: "wal_write d [] (wal_of self) = (s, r)" by (metis prod.collapse)
  note ok = wal_write_ok [OF codec inv _ w, of "[]", simplified]
  have r: "r = Inr ()" using purge w by (cases r) (auto simp: fs_purge_def Let_def)
  let ?self2 = "set_wal s (self\<lparr>fs_state := ?st\<rparr>)"
  obtain disk tel renamed res where rw: "wal_rewrite codec fault (fs_fail_writes self) ?st
      (fs_disk ?self2, ww_telemetry (snd s)) = ((disk, tel), renamed, res)" by (metis prod.collapse)
  have res: "res = Inr ()"
    using purge w r rw by (cases res) (auto simp: fs_purge_def Let_def set_wal_def)
  let ?w = "(snd s)\<lparr>ww_telemetry := tel,
     ww_file := (if renamed \<and> ww_file (snd s) = None then Some (fst s) else ww_file (snd s))\<rparr>"
  have run: "ww_running ?w" "ww_queue ?w = []" "ww_failed (snd s) = None"
    using ok r by (auto simp: writer_ok_def)
  have self': "self' = set_wal (wal_replace d (dk_wal disk, ?w)) (?self2\<lparr>fs_disk := disk, fs_wal := ?w\<rparr>)"
    using purge w r rw res by (simp add: fs_purge_def Let_def set_wal_def cong: if_cong)
  have keyed: "keyed ?st"
    using writer_ok_keyed [of codec s] ok r run by (auto intro: keyed_apply simp del: apply_record.simps)
  obtain b where b: "encode_records codec (rewrite_records ?st) = (b, None)"
    "dk_wal disk = \<lparr>wf_bytes = b, wf_synced = length b\<rparr>"
    using rewrite_success rw res by blast
  note d = rewritten_durable [OF codec keyed b(1)]
  have "wal_of self' = (dk_wal disk, ?w\<lparr>ww_file := None,
      ww_completed := ww_completed ?w @ [(Notify d, Inr ())]\<rparr>)" "fs_state self' = ?st"
    using replace_drained [OF run(1,2)] self' by (simp_all add: set_wal_def)
  then show ?thesis using d b run by (auto intro!: durable_writer_ok)
qed

lemma open_result:
  assumes "fs_open codec fault script wal tmp = Inr self"
  shows "\<exists>st n. replay_lines codec 0 (lines (case wal of None \<Rightarrow> [] | Some f \<Rightarrow> wf_bytes f))
      DurableState_default 0 = Inr (st, n)
    \<and> fs_state self = st \<and> ww_running (fs_wal self) \<and> ww_queue (fs_wal self) = []
    \<and> ww_failed (fs_wal self) = None \<and> ww_file (fs_wal self) = None
    \<and> (if n > live_records st + compact_dead_record_threshold
       then \<exists>b. encode_records codec (rewrite_records st) = (b, None)
              \<and> dk_wal (fs_disk self) = \<lparr>wf_bytes = b, wf_synced = length b\<rparr>
       else dk_wal (fs_disk self) = (case wal of None \<Rightarrow> \<lparr>wf_bytes = [], wf_synced = 0\<rparr> | Some f \<Rightarrow> f))"
proof -
  let ?bytes = "case wal of None \<Rightarrow> [] | Some f \<Rightarrow> wf_bytes f"
  obtain st n where r: "replay_lines codec 0 (lines ?bytes) DurableState_default 0 = Inr (st, n)"
    using assms by (auto simp: fs_open_def split: option.splits if_splits sum.splits)
  show ?thesis
  proof (cases "n > live_records st + compact_dead_record_threshold")
    case False
    then show ?thesis using assms r
      by (auto simp: fs_open_def WalWriter_start_def Let_def split: option.splits if_splits)
  next
    case True
    then show ?thesis using assms r
      by (auto simp: fs_open_def WalWriter_start_def Let_def
          dest!: rewrite_success split: option.splits if_splits prod.splits sum.splits)
  qed
qed

lemma open_inv:
  assumes codec: "wal_codec_ok codec" and opened: "fs_open codec fault script wal tmp = Inr self"
    and clean: "\<And>f. wal = Some f \<Longrightarrow> ends_line (wf_bytes f) \<and> wf_synced f = length (wf_bytes f)"
  shows "wal_inv codec self"
proof -
  obtain st n where o: "replay_lines codec 0 (lines (case wal of None \<Rightarrow> [] | Some f \<Rightarrow> wf_bytes f))
      DurableState_default 0 = Inr (st, n)" "fs_state self = st" "ww_running (fs_wal self)"
      "ww_queue (fs_wal self) = []" "ww_file (fs_wal self) = None"
    and disk: "if n > live_records st + compact_dead_record_threshold
       then \<exists>b. encode_records codec (rewrite_records st) = (b, None)
              \<and> dk_wal (fs_disk self) = \<lparr>wf_bytes = b, wf_synced = length b\<rparr>
       else dk_wal (fs_disk self) = (case wal of None \<Rightarrow> \<lparr>wf_bytes = [], wf_synced = 0\<rparr> | Some f \<Rightarrow> f)"
    using open_result [OF opened] by blast
  have "keyed st" using replay_keyed [OF o(1)] by simp
  then have "durable_view codec (dk_wal (fs_disk self)) st"
    using disk rewritten_durable(1) [OF codec] clean o(1)
    by (auto simp: durable_view_def ends_line_def split: if_splits option.splits)
  then show ?thesis using o by (simp add: durable_writer_ok)
qed

section \<open>Reachable stores\<close>

text \<open>
  The stores the theorems below are about.  The file opened ends in a line feed, so that its last record
  is separated from what is written next, and is synced; \<open>wal_missing_newline_corrupts\<close> shows what an open of
  another file can lead to.  A storage error of a purge is fatal to the raft node, so a run continues
  only after a purge that succeeded; what a store does when it is used on after a purge failed between
  its rename and its directory sync is shown below.  Every other operation may fail and the run go on.
\<close>

inductive wal_reach ::
    "('lid, 'm, 'vote) wal_codec \<Rightarrow> ('lid, 'm, 'vote) FileRaftLogStore \<Rightarrow> bool"
  for codec :: "('lid, 'm, 'vote) wal_codec" where
  opened: "fs_open codec fault script wal tmp = Inr self \<Longrightarrow>
    (\<And>f. wal = Some f \<Longrightarrow> ends_line (wf_bytes f) \<and> wf_synced f = length (wf_bytes f)) \<Longrightarrow>
    wal_reach codec self"
| appended: "wal_reach codec self \<Longrightarrow> wal_reach codec (fst (fs_append codec es cb self))"
| voted: "wal_reach codec self \<Longrightarrow> wal_reach codec (fst (fs_save_vote codec d v self))"
| truncated: "wal_reach codec self \<Longrightarrow> wal_reach codec (fst (fs_truncate codec d l self))"
| purged: "wal_reach codec self \<Longrightarrow> fs_purge codec fault d l self = (self', Inr ()) \<Longrightarrow> wal_reach codec self'"
| written: "wal_reach codec self \<Longrightarrow> wal_reach codec (set_wal (writer_round n (wal_of self)) self)"
| injected: "wal_reach codec self \<Longrightarrow> wal_reach codec (fs_inject_write_failure fail self)"

lemma wal_reach_inv: "wal_reach codec self \<Longrightarrow> wal_codec_ok codec \<Longrightarrow> wal_inv codec self"
proof (induction rule: wal_reach.induct)
  case (opened fault script wal tmp self)
  then show ?case by (blast intro: open_inv)
next
  case (purged self fault d l self')
  then show ?case using purge_inv by blast
qed (simp_all add: append_inv vote_inv truncate_inv round_ok fs_inject_write_failure_def)

lemma encode_total: "codec_total (enc_record codec) \<Longrightarrow> \<exists>b. encode_records codec rs = (b, None)"
proof (induction rs)
  case (Cons r rs)
  then obtain b where "encode_records codec rs = (b, None)" by blast
  moreover obtain t where "enc_record codec r = Inr t" using Cons.prems codec_total_def by metis
  ultimately show ?case by (simp add: encode_record_def)
qed simp

lemma rewrite_total:
  "codec_total (enc_record codec) \<Longrightarrow>
     \<exists>disk tel. wal_rewrite codec None False st s = ((disk, tel), True, Inr ())"
  using encode_total [of codec "rewrite_records st"] by (auto simp: wal_rewrite_def Let_def)

lemma open_durable:
  assumes codec: "wal_codec_ok codec" "codec_total (enc_record codec)"
    and content: "replay_lines codec 0 (lines (wf_bytes f)) DurableState_default 0 = Inr (st, n)"
  shows "\<exists>self. fs_open codec None script (Some f) tmp = Inr self \<and> fs_state self = st"
proof (cases "n > live_records st + compact_dead_record_threshold")
  case True
  let ?s = "(\<lparr>dk_wal = f, dk_tmp = tmp\<rparr>,
     StorageTelemetry_default\<lparr>st_replayed_records_last_open := word_of_nat n\<rparr>)"
  from rewrite_total [OF codec(2), of st ?s] obtain disk tel where
    "wal_rewrite codec None False st ?s = ((disk, tel), True, Inr ())" by blast
  with True content show ?thesis by (simp add: fs_open_def Let_def)
qed (use content in \<open>simp add: fs_open_def Let_def\<close>)

section \<open>Rounds of a healthy writer\<close>

definition extend_file :: "wal_file \<Rightarrow> string \<Rightarrow> wal_file" where
  "extend_file f b =
     (if b = [] then f else \<lparr>wf_bytes = wf_bytes f @ b, wf_synced = length (wf_bytes f @ b)\<rparr>)"

lemma extend_file_extend: "extend_file (extend_file f a) b = extend_file f (a @ b)"
  by (simp add: extend_file_def)

lemma round_clean:
  assumes "ww_failed w = None" "ww_file w = None" "ww_script w = []" "ww_running w"
    and "list_all is_write (ww_queue w)"
  shows "\<exists>t. writer_round n (f, w) = (extend_file f (concat (map job_bytes (take n (ww_queue w)))),
     w\<lparr>ww_queue := drop n (ww_queue w), ww_telemetry := t,
       ww_completed := ww_completed w @ map (\<lambda>j. (job_done j, Inr ())) (take n (ww_queue w))\<rparr>)"
proof (cases "take n (ww_queue w) = []")
  case True
  moreover from this have "drop n (ww_queue w) = ww_queue w" by auto
  ultimately show ?thesis
    by (cases w) (auto simp: writer_round_def extend_file_def)
next
  case False
  let ?b = "concat (map job_bytes (take n (ww_queue w)))" and ?d = "map job_done (take n (ww_queue w))"
  let ?w = "w\<lparr>ww_queue := drop n (ww_queue w)\<rparr>"
  have "writer_round n (f, w) = wal_flush ?b ?d (f, ?w)"
    using round_writes [of "(f, w)" n] assms False by simp
  also have "\<dots> = (extend_file f ?b, ?w\<lparr>ww_telemetry := (if ?b = [] then ww_telemetry ?w
        else (ww_telemetry ?w)\<lparr>st_fsyncs := st_fsyncs (ww_telemetry ?w) + 1\<rparr>),
      ww_completed := ww_completed ?w @ map (\<lambda>x. (x, Inr ())) ?d\<rparr>)"
    unfolding extend_file_def by (rule flush_clean) (use assms False in simp_all)
  finally show ?thesis
    by (intro exI [of _ "if ?b = [] then ww_telemetry ?w
        else (ww_telemetry ?w)\<lparr>st_fsyncs := st_fsyncs (ww_telemetry ?w) + 1\<rparr>"])
      (simp add: comp_def cong: if_cong)
qed

section \<open>Torn writes\<close>

text \<open>The bytes hold the first \<open>m\<close> records in full, the last one possibly without its line feed.\<close>

definition complete_records ::
    "('lid, 'm, 'vote) wal_codec \<Rightarrow> ('lid, 'm, 'vote) WalRecord list \<Rightarrow> string \<Rightarrow> nat \<Rightarrow> bool" where
  "complete_records codec rs bytes m \<longleftrightarrow> m \<le> length rs
     \<and> (encode_records codec (take m rs) = (bytes, None)
        \<or> encode_records codec (take m rs) = (bytes @ [newline], None))"

lemma encode_records_Nil_iff: "encode_records codec rs = ([], None) \<longleftrightarrow> rs = []"
  by (cases rs) (auto simp: encode_record_def split: sum.splits prod.splits)

lemma complete_Cons:
  assumes "enc_record codec r = Inr t"
  shows "complete_records codec (r # rs) ((t @ [newline]) @ c) (Suc m) \<longleftrightarrow> complete_records codec rs c m"
  using assms by (auto simp: complete_records_def encode_record_def split: prod.splits)

lemma complete_short:
  assumes "enc_record codec r = Inr t" "length c < length t" "c \<noteq> []"
  shows "\<not> complete_records codec (r # rs) c m"
proof (cases m)
  case (Suc k)
  obtain x e where x: "encode_records codec (take k rs) = (x, e)" by (cases "encode_records codec (take k rs)")
  have "t @ newline # x \<noteq> c" "t @ newline # x \<noteq> c @ [newline]"
    using assms(2) by (auto dest!: arg_cong [where f = length])
  then show ?thesis using assms(1) Suc x by (simp add: complete_records_def encode_record_def)
qed (use assms in \<open>simp add: complete_records_def\<close>)

lemma cut_inside:
  assumes codec: "wal_codec_ok codec" "codec_braced (enc_record codec)"
      "codec_prefix_free (enc_record codec) (dec_record codec)"
    and t: "enc_record codec r = Inr t" and j: "0 < j" "j < length t"
  shows "take j t \<noteq> [] \<and> lines (take j t) = [take j t] \<and> trim (take j t) \<noteq> []
    \<and> (\<exists>e. dec_record codec (take j t) = Inl e)"
proof -
  obtain a where brace: "t = CHR ''{'' # a" using codec(2) t by (auto simp: codec_braced_def)
  have ne: "take j t \<noteq> []" using j by (cases t) (auto simp: take_Cons')
  have "CHR 0x0A \<notin> set (take j t)"
    using codec(1) t by (auto simp: wal_codec_ok_def dest: codec_one_lineD in_set_takeD)
  then have "lines (take j t) = [take j t]" using ne by (simp add: lines_unended)
  moreover have "trim (take j t) \<noteq> []" using j brace trim_open_brace by (cases j) auto
  ultimately show ?thesis using codec_prefix_freeD [OF codec(3) t j(2)] ne by blast
qed

text \<open>A cut past the first record reads that record and leaves the rest of the cut to the rest of
the records.\<close>

lemma replay_past_record:
  assumes "wal_codec_ok codec" and t: "enc_record codec r = Inr t"
    and rest: "case replay_lines codec (n + 1) (lines c) (apply_record r st) (k + 1) of
      Inr (st', k') \<Rightarrow> \<exists>m. complete_records codec rs c m \<and> st' = fold apply_record (take m rs) (apply_record r st)
    | Inl e \<Rightarrow> (\<exists>msg. e = ReadLogs msg) \<and> (\<forall>m. \<not> complete_records codec rs c m)"
  shows "case replay_lines codec n (lines ((t @ [newline]) @ c)) st k of
      Inr (st', k') \<Rightarrow> \<exists>m. complete_records codec (r # rs) ((t @ [newline]) @ c) m
        \<and> st' = fold apply_record (take m (r # rs)) st
    | Inl e \<Rightarrow> (\<exists>msg. e = ReadLogs msg) \<and> (\<forall>m. \<not> complete_records codec (r # rs) ((t @ [newline]) @ c) m)"
proof -
  note rec = lines_record [OF assms(1) t]
  have ls: "lines ((t @ [newline]) @ c) = t # lines c"
    using lines_append [of "t @ [newline]" c] rec(1) by (simp add: ends_line_def)
  have step: "replay_lines codec n (lines ((t @ [newline]) @ c)) st k =
      replay_lines codec (n + 1) (lines c) (apply_record r st) (k + 1)"
    unfolding ls using rec(2-4) by simp
  have "\<not> complete_records codec (r # rs) ((t @ [newline]) @ c) 0"
    by (simp add: complete_records_def)
  then have all: "(\<forall>m. \<not> complete_records codec (r # rs) ((t @ [newline]) @ c) m)
      \<longleftrightarrow> (\<forall>m. \<not> complete_records codec rs c m)"
    using complete_Cons [OF t] by (metis not0_implies_Suc)
  show ?thesis
  proof (cases "replay_lines codec (n + 1) (lines c) (apply_record r st) (k + 1)")
    case (Inl e)
    then show ?thesis using rest unfolding step all by simp
  next
    case (Inr x)
    obtain st' k' where x: "x = (st', k')" by (cases x)
    then obtain m where "complete_records codec rs c m"
      "st' = fold apply_record (take m rs) (apply_record r st)" using rest Inr by auto
    then have "complete_records codec (r # rs) ((t @ [newline]) @ c) (Suc m)
        \<and> st' = fold apply_record (take (Suc m) (r # rs)) st"
      unfolding complete_Cons [OF t] by simp
    then show ?thesis unfolding step Inr x by auto
  qed
qed

lemma replay_cut:
  assumes codec: "wal_codec_ok codec" "codec_braced (enc_record codec)"
      "codec_prefix_free (enc_record codec) (dec_record codec)"
    and enc: "encode_records codec rs = (b, None)"
  shows "case replay_lines codec n (lines (take j b)) st k of
      Inr (st', k') \<Rightarrow> \<exists>m. complete_records codec rs (take j b) m \<and> st' = fold apply_record (take m rs) st
    | Inl e \<Rightarrow> (\<exists>msg. e = ReadLogs msg) \<and> (\<forall>m. \<not> complete_records codec rs (take j b) m)"
  using enc
proof (induction rs arbitrary: b j n st k)
  case Nil
  then show ?case by (auto simp: complete_records_def)
next
  case (Cons r rs)
  then obtain t b' where t: "enc_record codec r = Inr t" "encode_records codec rs = (b', None)"
    "b = (t @ [newline]) @ b'"
    by (auto simp: encode_record_Inr split: sum.splits prod.splits)
  obtain a where brace: "t = CHR ''{'' # a" using codec(2) t(1) by (auto simp: codec_braced_def)
  have nl: "CHR 0x0A \<notin> set t" using codec(1) t(1) by (auto simp: wal_codec_ok_def dest: codec_one_lineD)
  note rec = lines_record [OF codec(1) t(1)]
  consider "j = 0" | "0 < j" "j < length t" | "j = length t" | i where "j = Suc (length t) + i"
    by (metis gr0I less_Suc_eq less_iff_Suc_add not_less_eq add_Suc add_Suc_right le_Suc_ex linorder_not_less)
  then show ?case
  proof cases
    case 1
    then show ?thesis by (auto simp: complete_records_def intro!: exI [of _ 0])
  next
    case 2
    then have cut: "take j b = take j t" by (simp add: t(3))
    then show ?thesis
      using cut_inside [OF codec t(1) 2] complete_short [OF t(1), of "take j t"] 2 by (auto simp: cut)
  next
    case 3
    then have "take j b = t" by (simp add: t(3))
    moreover have "lines t = [t]" using nl brace by (simp add: lines_unended)
    moreover have "complete_records codec (r # rs) t 1"
      using t(1) by (simp add: complete_records_def encode_record_def)
    ultimately show ?thesis using rec(2-4) by (auto intro!: exI [of _ 1])
  next
    case (4 i)
    note IH = Cons.IH [OF t(2), where n = "n + 1" and j = i and st = "apply_record r st" and k = "k + 1"]
    have cut: "take j b = (t @ [newline]) @ take i b'" by (simp add: t(3) 4)
    show ?thesis unfolding cut by (rule replay_past_record [OF codec(1) t(1) IH])
  qed
qed

lemma open_fails:
  "replay_lines codec 0 (lines (wf_bytes f)) DurableState_default 0 = Inl e \<Longrightarrow>
     fs_open codec None script (Some f) tmp = Inl e"
  by (simp add: fs_open_def)

lemma fold_take_drop: "fold f (drop m xs) (fold f (take m xs) s) = fold f xs s"
  by (metis append_take_drop_id comp_apply fold_append)

lemma reopen_at_rest:
  assumes codec: "wal_codec_ok codec" "codec_total (enc_record codec)"
    and reach: "wal_reach codec self" "ww_failed (fs_wal self) = None" "ww_queue (fs_wal self) = []"
    and bytes: "wf_bytes f = wf_bytes (dk_wal (fs_disk self))"
  shows "\<exists>reopened. fs_open codec None script (Some f) tmp = Inr reopened \<and> fs_state reopened = fs_state self"
proof -
  have "durable_view codec (dk_wal (fs_disk self)) (fs_state self)"
    using wal_reach_inv [OF reach(1) codec(1)] reach(2,3) by (auto simp: writer_ok_def jobs_encode_def)
  then show ?thesis using open_durable [OF codec] bytes by (auto simp: durable_view_def)
qed

section \<open>Properties\<close>

definition mem_view :: "('lid, 'm, 'vote) DurableState \<Rightarrow> ('lid, 'm, 'vote) LogStoreInner" where
  "mem_view st = \<lparr>lo_vote = du_vote st, lo_log = du_log st, lo_last_purged_log_id = du_last_purged_log_id st\<rparr>"

text \<open>What a crash during the queued writes leaves in the file, and what opening it gives.\<close>

lemma crash_cut:
  assumes codec: "wal_codec_ok codec" "codec_total (enc_record codec)" "codec_braced (enc_record codec)"
      "codec_prefix_free (enc_record codec) (dec_record codec)"
    and reach: "wal_reach codec self" and healthy: "ww_failed (fs_wal self) = None"
  defines "wal \<equiv> dk_wal (fs_disk self)" and "queued \<equiv> queue_bytes (fs_wal self)"
  shows "wf_synced wal = length (wf_bytes wal)
    \<and> (\<exists>pending. encode_records codec pending = (queued, None)
      \<and> (case fs_open codec None script (Some \<lparr>wf_bytes = wf_bytes wal @ take j queued, wf_synced = synced\<rparr>) tmp of
           Inr reopened \<Rightarrow> \<exists>m. complete_records codec pending (take j queued) m
             \<and> fold apply_record (drop m pending) (fs_state reopened) = fs_state self
         | Inl error \<Rightarrow> (\<exists>message. error = ReadLogs message)
             \<and> (\<forall>m. \<not> complete_records codec pending (take j queued) m)))"
proof -
  obtain st0 rss where inv: "durable_view codec wal st0" "jobs_encode codec (ww_queue (fs_wal self)) rss"
    "fs_state self = fold apply_record (concat rss) st0"
    using wal_reach_inv [OF reach codec(1)] healthy by (auto simp: writer_ok_def wal_def)
  let ?rs = "concat rss" and ?f = "\<lparr>wf_bytes = wf_bytes wal @ take j queued, wf_synced = synced\<rparr>"
  have enc: "encode_records codec ?rs = (queued, None)"
    using jobs_encode_concat [OF inv(2)] by (simp add: queued_def)
  obtain n where n: "replay_lines codec 0 (lines (wf_bytes wal)) DurableState_default 0 = Inr (st0, n)"
    and ends: "ends_line (wf_bytes wal)" and synced: "wf_synced wal = length (wf_bytes wal)"
    using inv(1) by (auto simp: durable_view_def)
  have replay: "replay_lines codec 0 (lines (wf_bytes ?f)) DurableState_default 0 =
      replay_lines codec (length (lines (wf_bytes wal))) (lines (take j queued)) st0 n"
    using n by (simp add: lines_append [OF ends] replay_append)
  note cut = replay_cut [OF codec(1,3,4) enc, where n = "length (lines (wf_bytes wal))" and j = j and st = st0 and k = n]
  have "case fs_open codec None script (Some ?f) tmp of
           Inr reopened \<Rightarrow> \<exists>m. complete_records codec ?rs (take j queued) m
             \<and> fold apply_record (drop m ?rs) (fs_state reopened) = fs_state self
         | Inl error \<Rightarrow> (\<exists>message. error = ReadLogs message)
             \<and> (\<forall>m. \<not> complete_records codec ?rs (take j queued) m)"
  proof (cases "replay_lines codec (length (lines (wf_bytes wal))) (lines (take j queued)) st0 n")
    case (Inl e)
    with cut replay show ?thesis using open_fails [of codec ?f e script tmp] by simp
  next
    case (Inr r)
    obtain st k where r: "r = (st, k)" by (cases r)
    obtain m where m: "complete_records codec ?rs (take j queued) m" "st = fold apply_record (take m ?rs) st0"
      using cut Inr r by auto
    obtain reopened where "fs_open codec None script (Some ?f) tmp = Inr reopened" "fs_state reopened = st"
      using open_durable [OF codec(1,2), of ?f st k script tmp] replay Inr r by auto
    then show ?thesis using m inv(3) by (auto simp: fold_take_drop)
  qed
  then show ?thesis using enc synced by blast
qed

text \<open>
  C1. Crash recovery loses nothing that was acknowledged.  In every reachable store whose writer
  has not failed the whole file is synced, and what a crash adds to it is some part of the queued
  bytes, whose writes have not been acknowledged.  The file left behind opens exactly when that part
  ends with a complete record (its line feed may be missing); then the reopened state has all
  acknowledged records and a prefix of the queued ones, and the rest of the queue leads to the
  in-memory state.  Otherwise the open fails with a read error: a torn record is not dropped.
\<close>

theorem wal_recovers:
  assumes codec: "wal_codec_ok codec" "codec_total (enc_record codec)" "codec_braced (enc_record codec)"
      "codec_prefix_free (enc_record codec) (dec_record codec)"
    and reach: "wal_reach codec self" and healthy: "ww_failed (fs_wal self) = None"
  defines "wal \<equiv> dk_wal (fs_disk self)" and "queued \<equiv> queue_bytes (fs_wal self)"
  shows "wf_synced wal = length (wf_bytes wal)
    \<and> (\<exists>pending. encode_records codec pending = (queued, None)
      \<and> (case fs_open codec None script (Some \<lparr>wf_bytes = wf_bytes wal @ take j queued, wf_synced = synced\<rparr>) tmp of
           Inr reopened \<Rightarrow> \<exists>m. complete_records codec pending (take j queued) m
             \<and> fold apply_record (drop m pending) (fs_state reopened) = fs_state self
         | Inl error \<Rightarrow> (\<exists>message. error = ReadLogs message)
             \<and> (\<forall>m. \<not> complete_records codec pending (take j queued) m)))"
  unfolding wal_def queued_def by (rule crash_cut [OF codec reach healthy])

text \<open>
  C10. The file-backed store is the in-memory store: whenever an operation reports success, its
  effect on vote, log and purge point is the one the in-memory store has, and the readers of
  both agree.
\<close>

theorem wal_store_refines_memory:
  "(case fs_append codec es cb self of
      (self', Inr _) \<Rightarrow> mem_view (fs_state self') = mem_append es (mem_view (fs_state self)) | _ \<Rightarrow> True)
   \<and> (case fs_save_vote codec d v self of
      (self', Inr _) \<Rightarrow> mem_view (fs_state self') = mem_save_vote v (mem_view (fs_state self)) | _ \<Rightarrow> True)
   \<and> (case fs_truncate codec d l self of
      (self', Inr _) \<Rightarrow> mem_view (fs_state self') = mem_truncate l (mem_view (fs_state self)) | _ \<Rightarrow> True)
   \<and> (case fs_purge codec fault d l self of
      (self', Inr _) \<Rightarrow> mem_view (fs_state self') = mem_purge l (mem_view (fs_state self)) | _ \<Rightarrow> True)
   \<and> fs_try_get_log_entries self lo hi = mem_try_get_log_entries (mem_view (fs_state self)) lo hi
   \<and> fs_get_log_state self = mem_get_log_state (mem_view (fs_state self))
   \<and> fs_read_vote self = mem_read_vote (mem_view (fs_state self))"
proof (intro conjI)
  show "case fs_append codec es cb self of
      (self', Inr _) \<Rightarrow> mem_view (fs_state self') = mem_append es (mem_view (fs_state self)) | _ \<Rightarrow> True"
    by (auto simp: fs_append_def queue_entries_def mem_view_def mem_append_def Let_def
        split: sum.splits prod.splits option.splits)
  show "case fs_save_vote codec d v self of
      (self', Inr _) \<Rightarrow> mem_view (fs_state self') = mem_save_vote v (mem_view (fs_state self)) | _ \<Rightarrow> True"
    by (auto simp: fs_save_vote_def mem_view_def mem_save_vote_def split: sum.splits prod.splits)
  show "case fs_truncate codec d l self of
      (self', Inr _) \<Rightarrow> mem_view (fs_state self') = mem_truncate l (mem_view (fs_state self)) | _ \<Rightarrow> True"
    by (auto simp: fs_truncate_def mem_view_def mem_truncate_def split: sum.splits prod.splits)
  show "case fs_purge codec fault d l self of
      (self', Inr _) \<Rightarrow> mem_view (fs_state self') = mem_purge l (mem_view (fs_state self)) | _ \<Rightarrow> True"
    by (auto simp: fs_purge_def Let_def mem_view_def mem_purge_def set_wal_def split: sum.splits prod.splits)
qed (simp_all add: fs_try_get_log_entries_def mem_try_get_log_entries_def fs_get_log_state_def
    mem_get_log_state_def fs_read_vote_def mem_read_vote_def mem_view_def)

text \<open>
  C26. Fail-stop: after a failed write or sync, a writer round changes no byte of the file and
  tells every waiter of the jobs it takes the error, and the writer stays failed.
\<close>

theorem wal_fail_stop:
  assumes "ww_failed (snd s) = Some error" "ww_running (snd s)" "list_all is_write (ww_queue (snd s))"
  shows "fst (writer_round n s) = fst s
    \<and> ww_failed (snd (writer_round n s)) = Some error
    \<and> ww_queue (snd (writer_round n s)) = drop n (ww_queue (snd s))
    \<and> ww_completed (snd (writer_round n s)) =
        ww_completed (snd s) @ map (\<lambda>j. (job_done j, Inl error)) (take n (ww_queue (snd s)))"
proof (cases "take n (ww_queue (snd s)) = []")
  case True
  moreover from this have "drop n (ww_queue (snd s)) = ww_queue (snd s)" by auto
  ultimately show ?thesis using assms by (simp add: writer_round_def)
next
  case False
  let ?s = "(fst s, (snd s)\<lparr>ww_queue := drop n (ww_queue (snd s))\<rparr>)"
  have "ww_failed (snd ?s) = Some error" using assms(1) by simp
  from flush_failed [OF this] round_writes [OF assms(3,2) False] assms(1)
  show ?thesis by (simp add: comp_def)
qed

text \<open>
  C27. Group commit: without write failures, splitting a run of queued writes into two rounds, each
  with its own sync, gives the same file, the same queue and the same completions as one round
  over all of them.
\<close>

theorem wal_group_commit:
  assumes "ww_failed w = None" "ww_file w = None" "ww_script w = []" "ww_running w"
    and "list_all is_write (ww_queue w)"
  shows "(\<lambda>(f', w'). (f', ww_queue w', ww_completed w', ww_failed w')) (writer_round m (writer_round n (f, w)))
    = (\<lambda>(f', w'). (f', ww_queue w', ww_completed w', ww_failed w')) (writer_round (n + m) (f, w))"
proof -
  let ?q = "ww_queue w"
  obtain t1 where r1: "writer_round n (f, w) = (extend_file f (concat (map job_bytes (take n ?q))),
      w\<lparr>ww_queue := drop n ?q, ww_telemetry := t1,
        ww_completed := ww_completed w @ map (\<lambda>j. (job_done j, Inr ())) (take n ?q)\<rparr>)" (is "_ = (?f1, ?w1)")
    using round_clean [OF assms] by blast
  have "list_all is_write (ww_queue ?w1)" using assms(5) by (auto simp: list_all_iff dest: in_set_dropD)
  then obtain t2 where r2: "writer_round m (?f1, ?w1) = (extend_file ?f1 (concat (map job_bytes (take m (ww_queue ?w1)))),
      ?w1\<lparr>ww_queue := drop m (ww_queue ?w1), ww_telemetry := t2,
        ww_completed := ww_completed ?w1 @ map (\<lambda>j. (job_done j, Inr ())) (take m (ww_queue ?w1))\<rparr>)"
    using round_clean [of ?w1 m ?f1] assms(1-4) by auto
  obtain t where r: "writer_round (n + m) (f, w) = (extend_file f (concat (map job_bytes (take (n + m) ?q))),
      w\<lparr>ww_queue := drop (n + m) ?q, ww_telemetry := t,
        ww_completed := ww_completed w @ map (\<lambda>j. (job_done j, Inr ())) (take (n + m) ?q)\<rparr>)"
    using round_clean [OF assms] by blast
  have "drop m (drop n ?q) = drop (n + m) ?q" by (simp add: add.commute)
  then show ?thesis by (simp add: r1 r2 r take_add extend_file_extend del: drop_drop)
qed

text \<open>
  C28. Replay stays bounded: right after a successful open, and right after a successful purge with
  a healthy writer, the file holds at most 64 records more than the live state retains, so the
  next open replays no more than that.
\<close>

theorem wal_replay_bounded:
  assumes codec: "wal_codec_ok codec"
    and at: "fs_open codec fault script wal tmp = Inr self
      \<or> wal_reach codec self0 \<and> fs_purge codec rfault d l self0 = (self, Inr ())
        \<and> ww_failed (fs_wal self) = None"
  shows "\<exists>n. replay_lines codec 0 (lines (wf_bytes (dk_wal (fs_disk self)))) DurableState_default 0
      = Inr (fs_state self, n) \<and> n \<le> live_records (fs_state self) + 64"
  using at
proof
  assume "fs_open codec fault script wal tmp = Inr self"
  from open_result [OF this] show ?thesis
    using rewritten_durable(2) [OF codec] replay_keyed
    by (fastforce simp: compact_dead_record_threshold_def split: if_splits option.splits)
next
  assume "wal_reach codec self0 \<and> fs_purge codec rfault d l self0 = (self, Inr ())
    \<and> ww_failed (fs_wal self) = None"
  then show ?thesis using purge_inv [OF codec wal_reach_inv [OF _ codec]] by fastforce
qed

section \<open>Boundary cases\<close>

text \<open>Two values on one line are neither a value nor blank.\<close>

definition codec_single_value ::
    "('a \<Rightarrow> (string, string) result) \<Rightarrow> (string \<Rightarrow> (string, 'a) result) \<Rightarrow> bool" where
  "codec_single_value enc dec \<longleftrightarrow>
     (\<forall>v w b c. enc v = Inr b \<longrightarrow> enc w = Inr c \<longrightarrow> trim (b @ c) \<noteq> [] \<and> (\<exists>e. dec (b @ c) = Inl e))"

lemma lines_open_end: "CHR 0x0A \<notin> set t \<Longrightarrow> t \<noteq> [] \<Longrightarrow> lines t = [t]"
proof -
  have "CHR 0x0A \<notin> set t \<Longrightarrow> lines_acc acc t = (if rev acc @ t = [] then [] else [rev acc @ t])" for acc
    by (induction t arbitrary: acc) auto
  from this [of "[]"] show "CHR 0x0A \<notin> set t \<Longrightarrow> t \<noteq> [] \<Longrightarrow> lines t = [t]" by (simp add: lines_def)
qed

text \<open>A write by a store with nothing queued and no failure ahead.\<close>

lemma idle_write:
  assumes "ww_running w" "ww_queue w = []" "ww_failed w = None" "ww_script w = []" "b \<noteq> []"
  shows "\<exists>w'. wal_write d b (f, w) =
     ((if ww_file w = None then extend_file f b else f, w'), Inr ())
     \<and> ww_running w' \<and> ww_queue w' = [] \<and> ww_failed w' = None"
  using assms by (cases "ww_file w")
    (auto simp: wal_write_def wal_submit_def writer_round_def wal_flush_def write_all_and_sync_def
      writer_file_def set_writer_file_def completion_of_def extend_file_def Let_def)

lemma idle_drain:
  assumes "ww_running w" "ww_queue w = []" "ww_failed w = None"
  shows "wal_write d [] (f, w) =
     ((f, w\<lparr>ww_completed := ww_completed w @ [(Notify d, Inr ())]\<rparr>), Inr ())"
  using assms by (cases w) (simp add: wal_write_def wal_submit_def writer_round_def wal_flush_def
      completion_of_def Let_def)

text \<open>
  A missing final line feed is not repaired: when a crash leaves the last record of the file
  complete but without its line feed, the open succeeds, the next successful write continues the
  same line, and the open after that fails with a malformed record.
\<close>

theorem wal_missing_newline_corrupts:
  fixes codec :: "('lid, 'm, 'vote) wal_codec"
  assumes codec: "wal_codec_ok codec" "codec_single_value (enc_record codec) (dec_record codec)"
    and enc: "enc_record codec (WVote v) = Inr t" "enc_record codec (WVote v') = Inr t'"
  shows "\<exists>self self' e.
      fs_open codec None [] (Some \<lparr>wf_bytes = t, wf_synced = length t\<rparr>) None = Inr self
    \<and> fs_save_vote codec d v' self = (self', Inr ())
    \<and> fs_open codec None [] (Some (dk_wal (fs_disk self'))) None = Inl (ReadLogs e)"
proof -
  have plain: "CHR 0x0A \<notin> set t" "CHR 0x0A \<notin> set t'" "t \<noteq> []"
    using codec(1) enc by (auto simp: wal_codec_ok_def dest: codec_one_lineD codec_roundtripD)
  let ?st = "apply_record (WVote v) DurableState_default :: ('lid, 'm, 'vote) DurableState"
  let ?f = "\<lparr>wf_bytes = t, wf_synced = length t\<rparr>"
  let ?self = "\<lparr>fs_state = ?st, fs_disk = \<lparr>dk_wal = ?f, dk_tmp = None\<rparr>,
     fs_wal = WalWriter_start (StorageTelemetry_default\<lparr>st_replayed_records_last_open := 1\<rparr>) [],
     fs_fail_writes = False\<rparr>"
  have 1: "fs_open codec None [] (Some ?f) None = Inr ?self"
    using lines_open_end [OF plain(1,3)] lines_record(2-4) [OF codec(1) enc(1)]
    by (simp add: fs_open_def compact_dead_record_threshold_def Let_def)
  let ?line = "t' @ [newline]"
  obtain w' where w': "wal_write d ?line (?f, fs_wal ?self) = ((extend_file ?f ?line, w'), Inr ())"
    using idle_write [of "fs_wal ?self" ?line d ?f] by (auto simp: WalWriter_start_def)
  let ?self' = "(set_wal (extend_file ?f ?line, w') ?self)\<lparr>fs_state := ?st\<lparr>du_vote := Some v'\<rparr>\<rparr>"
  have 2: "fs_save_vote codec d v' ?self = (?self', Inr ())"
    using w' enc(2) by (simp add: fs_save_vote_def check_injected_failure_def encode_record_def)
  have "lines (t @ ?line) = [chomp_cr (t @ t')]"
    using lines_acc_append [of "t @ t'" "[]" "[]"] plain by (simp add: lines_def newline_def)
  moreover have "CHR 0x0D \<notin> set (t @ t')"
    using codec(1) enc by (auto simp: wal_codec_ok_def dest: codec_one_lineD)
  then have "chomp_cr (t @ t') = t @ t'" by (metis chomp_cr_def last_in_set)
  ultimately have "\<exists>e. replay_lines codec 0 (lines (t @ ?line)) DurableState_default 0 = Inl (ReadLogs e)"
    using codec(2) enc by (fastforce simp: codec_single_value_def)
  then obtain e where "fs_open codec None [] (Some (dk_wal (fs_disk ?self'))) None = Inl (ReadLogs e)"
    by (auto simp: fs_open_def set_wal_def extend_file_def)
  with 1 2 show ?thesis by (intro exI conjI)
qed

text \<open>
  C39. A purge that fails after its rename detaches the writer: the directory sync fails, the purge
  reports an error, the writer keeps the replaced file, and a later vote is acknowledged without
  a byte of it reaching the file at the log's path.
\<close>

theorem wal_failed_purge_detaches:
  assumes "codec_total (enc_record codec)"
    and "ww_running (fs_wal self)" "ww_queue (fs_wal self) = []" "ww_failed (fs_wal self) = None"
      "ww_script (fs_wal self) = []" "\<not> fs_fail_writes self"
  shows "\<exists>self' self''. fs_purge codec (Some ParentSyncFails) d l self = (self', Inl (WriteLogs ''fsync''))
    \<and> fs_save_vote codec d v self' = (self'', Inr ())
    \<and> dk_wal (fs_disk self'') = dk_wal (fs_disk self')"
proof -
  let ?st = "apply_record (WPurge l) (fs_state self)"
  obtain b where b: "encode_records codec (rewrite_records ?st) = (b, None)"
    using encode_total [OF assms(1)] by blast
  obtain t where t: "enc_record codec (WVote v) = Inr t" using assms(1) codec_total_def by metis
  let ?disk = "\<lparr>dk_wal = \<lparr>wf_bytes = b, wf_synced = length b\<rparr>, dk_tmp = None\<rparr>"
  let ?w1 = "(fs_wal self)\<lparr>ww_completed := ww_completed (fs_wal self) @ [(Notify d, Inr ())]\<rparr>"
  obtain f where f: "fs_purge codec (Some ParentSyncFails) d l self =
      (self\<lparr>fs_state := ?st, fs_disk := ?disk, fs_wal := ?w1\<lparr>ww_file := Some f\<rparr>\<rparr>, Inl (WriteLogs ''fsync''))"
    using idle_drain [of "fs_wal self" d "dk_wal (fs_disk self)"] assms(2-6) b
    by (cases "ww_file (fs_wal self)") (auto simp: fs_purge_def wal_rewrite_def set_wal_def Let_def)
  let ?self' = "self\<lparr>fs_state := ?st, fs_disk := ?disk, fs_wal := ?w1\<lparr>ww_file := Some f\<rparr>\<rparr>"
  obtain w' where "wal_write d (t @ [newline]) (wal_of ?self') = ((dk_wal ?disk, w'), Inr ())"
    using idle_write [of "fs_wal ?self'" "t @ [newline]" d "dk_wal ?disk"] assms(2-6) by auto
  then have "\<exists>self''. fs_save_vote codec d v ?self' = (self'', Inr ())
      \<and> dk_wal (fs_disk self'') = dk_wal ?disk"
    using t assms(6)
    by (simp add: fs_save_vote_def check_injected_failure_def encode_record_def set_wal_def)
  with f show ?thesis by auto
qed

section \<open>Witnesses\<close>

instance WalRecord :: (countable, countable, countable) countable
  by countable_datatype

definition unary_wal :: "(nat, nat, nat) wal_codec" where
  "unary_wal = \<lparr>enc_record = unary_encode, dec_record = unary_decode\<rparr>"

lemma unary_wal_ok: "wal_codec_ok unary_wal" "codec_total (enc_record unary_wal)"
  by (simp_all add: wal_codec_ok_def unary_wal_def unary_laws codec_total_def unary_encode_def)

lemma unary_wal_torn: "codec_braced (enc_record unary_wal)"
    "codec_prefix_free (enc_record unary_wal) (dec_record unary_wal)"
  by (simp_all add: unary_wal_def unary_laws)

lemma unary_single_value: "codec_single_value (enc_record unary_wal) (dec_record unary_wal)"
proof -
  have "unary_text a @ unary_text b \<noteq> unary_text c" for a b c
  proof
    assume "unary_text a @ unary_text b = unary_text c"
    then have "count_list (unary_text a @ unary_text b) CHR ''{'' = count_list (unary_text c) CHR ''{''"
      by simp
    moreover have "count_list (unary_text k) CHR ''{'' = 1" for k
      by (simp add: unary_text_def)
    ultimately show False by simp
  qed
  moreover have "trim (unary_text a @ unary_text b) \<noteq> []" for a b
    by (subst trim_braced [where a = "replicate a CHR ''1'' @ ''}'' @ unary_text b"
          and b = "unary_text a @ ''{'' @ replicate b CHR ''1''"])
      (simp_all add: unary_text_def)
  ultimately show ?thesis
    by (simp add: codec_single_value_def unary_wal_def unary_encode_def unary_decode_def)
qed

definition demo_store :: "(nat, nat, nat) FileRaftLogStore" where
  "demo_store = \<lparr>fs_state = DurableState_default,
     fs_disk = \<lparr>dk_wal = \<lparr>wf_bytes = [], wf_synced = 0\<rparr>, dk_tmp = None\<rparr>,
     fs_wal = WalWriter_start StorageTelemetry_default [], fs_fail_writes = False\<rparr>"

lemma demo_store_opens: "fs_open unary_wal None [] None None = Inr demo_store"
  by (simp add: fs_open_def demo_store_def live_records_def DurableState_default_def
      StorageTelemetry_default_def compact_dead_record_threshold_def Let_def)

definition demo_voted :: "(nat, nat, nat) FileRaftLogStore" where
  "demo_voted = fst (fs_save_vote unary_wal 0 7 demo_store)"

lemma demo_voted: "du_vote (fs_state demo_voted) = Some 7" "ww_queue (fs_wal demo_voted) = []"
  "ww_failed (fs_wal demo_voted) = None"
proof -
  obtain t where t: "enc_record unary_wal (WVote 7) = Inr t"
    using unary_wal_ok(2) codec_total_def by metis
  obtain w' where "wal_write 0 (t @ [newline]) (wal_of demo_store)
      = ((extend_file (dk_wal (fs_disk demo_store)) (t @ [newline]), w'), Inr ())"
    "ww_queue w' = []" "ww_failed w' = None"
    using idle_write [of "fs_wal demo_store" "t @ [newline]" 0 "dk_wal (fs_disk demo_store)"]
    by (auto simp: demo_store_def WalWriter_start_def)
  then show "du_vote (fs_state demo_voted) = Some 7" "ww_queue (fs_wal demo_voted) = []"
    "ww_failed (fs_wal demo_voted) = None"
    using t by (simp_all add: demo_voted_def fs_save_vote_def check_injected_failure_def
        encode_record_def set_wal_def demo_store_def)
qed

lemma demo_voted_reach: "wal_reach unary_wal demo_voted"
  unfolding demo_voted_def by (rule wal_reach.voted) (rule wal_reach.opened [OF demo_store_opens], simp)

theorem wal_recovers_witness:
  "\<exists>reopened. fs_open unary_wal None []
       (Some \<lparr>wf_bytes = wf_bytes (dk_wal (fs_disk demo_voted)), wf_synced = 0\<rparr>) None = Inr reopened
     \<and> du_vote (fs_state reopened) = Some 7"
proof -
  note laws = unary_wal_ok unary_wal_torn
  have none: "complete_records unary_wal [] [] 0" by (simp add: complete_records_def)
  from wal_recovers [OF laws demo_voted_reach demo_voted(3),
      where script = "[]" and j = 0 and synced = 0 and tmp = None] demo_voted(1,2) none
  show ?thesis by (auto simp: encode_records_Nil_iff split: sum.splits)
qed

theorem wal_fail_stop_witness:
  "let w = (fs_wal demo_store)\<lparr>ww_failed := Some ''disk'', ww_queue := [WriteJob ''x'' (Notify 1)]\<rparr>
   in fst (writer_round 1 (dk_wal (fs_disk demo_store), w)) = dk_wal (fs_disk demo_store)
      \<and> ww_completed (snd (writer_round 1 (dk_wal (fs_disk demo_store), w))) = [(Notify 1, Inl ''disk'')]"
  using wal_fail_stop [of "(dk_wal (fs_disk demo_store),
      (fs_wal demo_store)\<lparr>ww_failed := Some ''disk'', ww_queue := [WriteJob ''x'' (Notify 1)]\<rparr>)" "''disk''" 1]
  by (simp add: demo_store_def WalWriter_start_def Let_def)

theorem wal_group_commit_witness:
  "let w = (fs_wal demo_store)\<lparr>ww_queue := [WriteJob ''a'' (Flushed 1), WriteJob ''b'' (Flushed 2)]\<rparr>;
       f = dk_wal (fs_disk demo_store)
   in fst (writer_round 1 (writer_round 1 (f, w))) = fst (writer_round 2 (f, w))
      \<and> wf_bytes (fst (writer_round 2 (f, w))) = ''ab''"
proof -
  let ?w = "(fs_wal demo_store)\<lparr>ww_queue := [WriteJob ''a'' (Flushed 1), WriteJob ''b'' (Flushed 2)]\<rparr>"
  let ?f = "dk_wal (fs_disk demo_store)"
  have "fst (writer_round 1 (writer_round 1 (?f, ?w))) = fst (writer_round 2 (?f, ?w))"
    using wal_group_commit [of ?w 1 1 ?f]
    by (simp add: demo_store_def WalWriter_start_def numeral_2_eq_2 split: prod.splits)
  moreover have "wf_bytes (fst (writer_round 2 (?f, ?w))) = ''ab''" by code_simp
  ultimately show ?thesis by (simp add: Let_def)
qed

theorem wal_replay_bounded_witness:
  "\<exists>n. replay_lines unary_wal 0 (lines (wf_bytes (dk_wal (fs_disk demo_store)))) DurableState_default 0
      = Inr (fs_state demo_store, n) \<and> n \<le> live_records (fs_state demo_store) + 64"
  using wal_replay_bounded [OF unary_wal_ok(1), of None "[]" None None demo_store] demo_store_opens by blast

theorem wal_missing_newline_corrupts_witness:
  "\<exists>t self self' e. unary_encode (WVote 1 :: (nat, nat, nat) WalRecord) = Inr t
    \<and> fs_open unary_wal None [] (Some \<lparr>wf_bytes = t, wf_synced = length t\<rparr>) None = Inr self
    \<and> fs_save_vote unary_wal 0 2 self = (self', Inr ())
    \<and> fs_open unary_wal None [] (Some (dk_wal (fs_disk self'))) None = Inl (ReadLogs e)"
proof -
  obtain t t' where t: "enc_record unary_wal (WVote 1) = Inr t" "enc_record unary_wal (WVote 2) = Inr t'"
    using unary_wal_ok(2) codec_total_def by metis
  from wal_missing_newline_corrupts [OF unary_wal_ok(1) unary_single_value t, of 0] t(1)
  show ?thesis unfolding unary_wal_def by auto
qed

theorem wal_failed_purge_detaches_witness:
  "\<exists>self' self''. fs_purge unary_wal (Some ParentSyncFails) 0 \<lparr>li_leader_id = 1, li_index = 3\<rparr> demo_store
       = (self', Inl (WriteLogs ''fsync''))
    \<and> fs_save_vote unary_wal 0 7 self' = (self'', Inr ())
    \<and> dk_wal (fs_disk self'') = dk_wal (fs_disk self')"
  by (rule wal_failed_purge_detaches [OF unary_wal_ok(2)])
    (simp_all add: demo_store_def WalWriter_start_def)

end
