(* ===== verification/Coordination.thy ===== *)
theory Coordination
  imports Core_Model
begin

text \<open>
  The coordination providers of \<^verbatim>\<open>ganglion-coordination/src/lib.rs\<close>: the trait
  \<^verbatim>\<open>CoordinationProvider\<close> as the locale \<open>coordination_provider\<close>, its two implementations and the
  resource views computed from a provider.

  A watch channel is its value, its version and the number of live receivers.  As documented by
  the channel's library, \<^verbatim>\<open>send\<close> fails and leaves the value as it was when no receiver is alive.
\<close>

section \<open>Watch channels\<close>

record WatchChannel =
  wc_value :: CoordinationSnapshot
  wc_version :: nat
  wc_receivers :: nat

record SnapshotWatch =
  sw_seen :: nat

definition watch_channel :: "CoordinationSnapshot \<Rightarrow> WatchChannel" where
  "watch_channel initial = \<lparr>wc_value = initial, wc_version = 0, wc_receivers = 1\<rparr>"

definition watch_send :: "CoordinationSnapshot \<Rightarrow> WatchChannel \<Rightarrow> WatchChannel \<times> bool" where
  "watch_send v c =
     (if wc_receivers c = 0 then (c, False)
      else (c\<lparr>wc_value := v, wc_version := wc_version c + 1\<rparr>, True))"

definition watch_subscribe :: "WatchChannel \<Rightarrow> WatchChannel \<times> SnapshotWatch" where
  "watch_subscribe c = (c\<lparr>wc_receivers := wc_receivers c + 1\<rparr>, \<lparr>sw_seen = wc_version c\<rparr>)"

definition watch_drop_receiver :: "WatchChannel \<Rightarrow> WatchChannel" where
  "watch_drop_receiver c = c\<lparr>wc_receivers := wc_receivers c - 1\<rparr>"

definition watch_borrow :: "WatchChannel \<Rightarrow> CoordinationSnapshot" where
  "watch_borrow c = wc_value c"

section \<open>The in-memory provider\<close>

record InMemoryCoordination =
  ic_snapshot :: CoordinationSnapshot
  ic_sender :: WatchChannel

text \<open>The first receiver is dropped when the constructor returns.\<close>

definition InMemoryCoordination_new :: "CoordinationSnapshot \<Rightarrow> InMemoryCoordination" where
  "InMemoryCoordination_new initial =
     \<lparr>ic_snapshot = initial, ic_sender = watch_drop_receiver (watch_channel initial)\<rparr>"

definition update_snapshot :: "CoordinationSnapshot \<Rightarrow> InMemoryCoordination \<Rightarrow> InMemoryCoordination" where
  "update_snapshot nxt self =
     self\<lparr>ic_snapshot := nxt, ic_sender := fst (watch_send nxt (ic_sender self))\<rparr>"

definition set_generation :: "u64 \<Rightarrow> InMemoryCoordination \<Rightarrow> InMemoryCoordination" where
  "set_generation generation self =
     (let nxt = (ic_snapshot self)\<lparr>cs_generation := generation\<rparr>
      in self\<lparr>ic_snapshot := nxt, ic_sender := fst (watch_send nxt (ic_sender self))\<rparr>)"

definition ic_owns_resource :: "InMemoryCoordination \<Rightarrow> string \<Rightarrow> ResourceIdentity \<Rightarrow> bool" where
  "ic_owns_resource self node_id resource =
     (case assignment_for (ic_snapshot self) resource of
        None \<Rightarrow> False | Some assignment \<Rightarrow> pa_owner assignment = node_id)"

definition ic_follows_resource :: "InMemoryCoordination \<Rightarrow> string \<Rightarrow> ResourceIdentity \<Rightarrow> bool" where
  "ic_follows_resource self node_id resource =
     (case assignment_for (ic_snapshot self) resource of
        None \<Rightarrow> False
      | Some assignment \<Rightarrow> list_ex (\<lambda>follower. follower = node_id) (pa_followers assignment))"

definition ic_watch :: "InMemoryCoordination \<Rightarrow> InMemoryCoordination \<times> SnapshotWatch" where
  "ic_watch self =
     (case watch_subscribe (ic_sender self) of (c, w) \<Rightarrow> (self\<lparr>ic_sender := c\<rparr>, w))"

definition ic_drop_watch :: "InMemoryCoordination \<Rightarrow> InMemoryCoordination" where
  "ic_drop_watch self = self\<lparr>ic_sender := watch_drop_receiver (ic_sender self)\<rparr>"

section \<open>The static provider\<close>

record StaticCoordination =
  sc_snapshot :: CoordinationSnapshot

definition StaticCoordination_new :: "string \<Rightarrow> CoordinationSnapshot \<Rightarrow> StaticCoordination" where
  "StaticCoordination_new local_node snapshot = \<lparr>sc_snapshot = snapshot\<rparr>"

definition sc_owns_resource :: "StaticCoordination \<Rightarrow> string \<Rightarrow> ResourceIdentity \<Rightarrow> bool" where
  "sc_owns_resource self node_id resource =
     (case assignment_for (sc_snapshot self) resource of
        None \<Rightarrow> False | Some assignment \<Rightarrow> is_owned_by assignment node_id)"

definition sc_follows_resource :: "StaticCoordination \<Rightarrow> string \<Rightarrow> ResourceIdentity \<Rightarrow> bool" where
  "sc_follows_resource self node_id resource =
     (case assignment_for (sc_snapshot self) resource of
        None \<Rightarrow> False | Some assignment \<Rightarrow> is_followed_by assignment node_id)"

definition sc_watch :: "StaticCoordination \<Rightarrow> WatchChannel" where
  "sc_watch self = watch_channel (sc_snapshot self)"

section \<open>Views of a provider\<close>

definition owned_resources :: "('p \<Rightarrow> CoordinationSnapshot) \<Rightarrow> 'p \<Rightarrow> string \<Rightarrow> ResourceIdentity list" where
  "owned_resources snapshot provider node_id =
     List.map_filter (\<lambda>(resource, assignment).
         if pa_owner assignment = node_id then Some resource else None)
       (bt_entries (cs_assignments (snapshot provider)))"

definition followed_resources :: "('p \<Rightarrow> CoordinationSnapshot) \<Rightarrow> 'p \<Rightarrow> string \<Rightarrow> ResourceIdentity list" where
  "followed_resources snapshot provider node_id =
     List.map_filter (\<lambda>(resource, assignment).
         if list_ex (\<lambda>follower. follower = node_id) (pa_followers assignment) then Some resource else None)
       (bt_entries (cs_assignments (snapshot provider)))"

definition owned_by_snapshot :: "CoordinationSnapshot \<Rightarrow> string \<Rightarrow> ResourceIdentity btset" where
  "owned_by_snapshot snapshot node_id =
     bs_of_list (List.map_filter (\<lambda>(resource, assignment).
         if pa_owner assignment = node_id then Some resource else None)
       (bt_entries (cs_assignments snapshot)))"

section \<open>The contract of a provider\<close>

lemma map_filter_keys:
  "List.map_filter (\<lambda>(r, a). if P a then Some r else None) xs = map fst (filter (\<lambda>e. P (snd e)) xs)"
  by (induction xs) (auto simp: List.map_filter_simps)

locale coordination_provider =
  fixes snapshot :: "'p \<Rightarrow> CoordinationSnapshot"
    and owns_resource :: "'p \<Rightarrow> string \<Rightarrow> ResourceIdentity \<Rightarrow> bool"
    and follows_resource :: "'p \<Rightarrow> string \<Rightarrow> ResourceIdentity \<Rightarrow> bool"
  assumes owns: "owns_resource p n r \<longleftrightarrow> (\<exists>a. assignment_for (snapshot p) r = Some a \<and> pa_owner a = n)"
    and follows: "follows_resource p n r \<longleftrightarrow>
      (\<exists>a. assignment_for (snapshot p) r = Some a \<and> n \<in> set (pa_followers a))"
begin

lemma owner_unique: "owns_resource p n r \<Longrightarrow> owns_resource p m r \<Longrightarrow> n = m"
  by (auto simp: owns)

lemma set_owned_resources: "r \<in> set (owned_resources snapshot p n) \<longleftrightarrow> owns_resource p n r"
  unfolding owned_resources_def map_filter_keys owns assignment_for_def bt_get_iff by force

lemma set_followed_resources: "r \<in> set (followed_resources snapshot p n) \<longleftrightarrow> follows_resource p n r"
  unfolding followed_resources_def map_filter_keys follows assignment_for_def bt_get_iff list_ex_iff by force

lemma views_sorted:
  "sorted_wrt (<) (owned_resources snapshot p n)" "sorted_wrt (<) (followed_resources snapshot p n)"
proof -
  have "sorted_wrt (<) (map fst (filter P (bt_entries m)))" for P and m :: "(ResourceIdentity, PartitionAssignment) btree"
    using strict_keys_filter [OF strict_keys_entries, of P m] by (simp add: strict_keys_def)
  then show "sorted_wrt (<) (owned_resources snapshot p n)" "sorted_wrt (<) (followed_resources snapshot p n)"
    by (simp_all add: owned_resources_def followed_resources_def map_filter_keys)
qed

lemma owned_by_snapshot_iff: "bs_contains (owned_by_snapshot (snapshot p) n) r \<longleftrightarrow> owns_resource p n r"
  using set_owned_resources by (simp add: owned_by_snapshot_def owned_resources_def)

end

interpretation ic: coordination_provider ic_snapshot ic_owns_resource ic_follows_resource
  by unfold_locales
    (auto simp: ic_owns_resource_def ic_follows_resource_def list_ex_iff split: option.splits)

interpretation sc: coordination_provider sc_snapshot sc_owns_resource sc_follows_resource
  by unfold_locales
    (auto simp: sc_owns_resource_def sc_follows_resource_def is_owned_by_def is_followed_by_iff
      split: option.splits)

section \<open>Properties\<close>

text \<open>
  The views of a provider agree with its queries, for the in-memory and the static provider:
  the owned and followed resource lists hold exactly the resources the node owns and follows, in
  increasing order without repetition, the set view is the same set, and a resource has at most
  one owner.
\<close>

theorem provider_views_exact:
  "set (owned_resources ic_snapshot ic n) = {r. ic_owns_resource ic n r}
   \<and> set (followed_resources ic_snapshot ic n) = {r. ic_follows_resource ic n r}
   \<and> sorted_wrt (<) (owned_resources ic_snapshot ic n) \<and> sorted_wrt (<) (followed_resources ic_snapshot ic n)
   \<and> {r. bs_contains (owned_by_snapshot (ic_snapshot ic) n) r} = {r. ic_owns_resource ic n r}
   \<and> {m. ic_owns_resource ic m r} \<subseteq> {n'. ic_owns_resource ic n' r \<and> {m. ic_owns_resource ic m r} = {n'}}
   \<and> set (owned_resources sc_snapshot sc n) = {r. sc_owns_resource sc n r}
   \<and> set (followed_resources sc_snapshot sc n) = {r. sc_follows_resource sc n r}
   \<and> {r. bs_contains (owned_by_snapshot (sc_snapshot sc) n) r} = {r. sc_owns_resource sc n r}"
  using ic.owner_unique
  by (auto simp: ic.set_owned_resources ic.set_followed_resources sc.set_owned_resources
      sc.set_followed_resources ic.owned_by_snapshot_iff sc.owned_by_snapshot_iff ic.views_sorted)

definition in_sync :: "InMemoryCoordination \<Rightarrow> bool" where
  "in_sync c \<longleftrightarrow> watch_borrow (ic_sender c) = ic_snapshot c"

text \<open>
  A subscribed watcher is never behind: once a watcher is subscribed and the snapshot is
  updated, the channel holds the current snapshot after every later update, for as long as one
  receiver is alive.
\<close>

theorem live_watcher_in_sync:
  assumes "0 < wc_receivers (ic_sender c)"
  shows "in_sync (update_snapshot s c) \<and> in_sync (set_generation g c)
    \<and> 0 < wc_receivers (ic_sender (update_snapshot s c))
    \<and> 0 < wc_receivers (ic_sender (set_generation g c))
    \<and> wc_version (ic_sender c) < wc_version (ic_sender (update_snapshot s c))"
  using assms
  by (simp add: in_sync_def watch_borrow_def update_snapshot_def set_generation_def watch_send_def Let_def)

theorem live_watcher_in_sync_witness:
  "in_sync (update_snapshot (demo_snapshot ''a'' [] 1 2)
     (fst (ic_watch (InMemoryCoordination_new CoordinationSnapshot_default))))"
  using live_watcher_in_sync [of "fst (ic_watch (InMemoryCoordination_new CoordinationSnapshot_default))"
      "demo_snapshot ''a'' [] 1 2" 0]
  by (simp add: ic_watch_def InMemoryCoordination_new_def watch_subscribe_def watch_drop_receiver_def
      watch_channel_def)

text \<open>
  Updates made while nobody watches are lost to later watchers: the channel keeps its value,
  so a watcher that subscribes afterwards holds the initial snapshot although the provider
  returns the updated one.
\<close>

theorem late_watcher_is_stale:
  "let c = fst (ic_watch (update_snapshot s (InMemoryCoordination_new initial)))
   in ic_snapshot c = s \<and> watch_borrow (ic_sender c) = initial"
  by (simp add: ic_watch_def update_snapshot_def InMemoryCoordination_new_def watch_subscribe_def
      watch_drop_receiver_def watch_channel_def watch_send_def watch_borrow_def)

end
