(* ===== verification/Placement.thy ===== *)
theory Placement
  imports Core_Model
begin

text \<open>
  The placement planners of \<^verbatim>\<open>ganglion-core/src/lib.rs\<close>.  A planner returns \<^const>\<open>None\<close> where the
  Rust code would panic (an index into an empty node list, the \<^verbatim>\<open>expect\<close> of
  \<^verbatim>\<open>pick_least_loaded_owner\<close>), a placement error, or a plan.  The locale \<open>placement_policy\<close> is
  the trait \<^verbatim>\<open>PartitionPlacementPolicy\<close> with the contract both strategies meet.
\<close>

section \<open>Inputs, outputs, strategies\<close>

record PlacementInput =
  pi_nodes :: "(string, NodeInfo) btree"
  pi_resources :: "ResourceIdentity list"
  pi_existing :: "(ResourceIdentity, PartitionAssignment) btree"
  pi_target_followers :: nat
  pi_generation :: u64

record PlacementPlan =
  pp_snapshot :: CoordinationSnapshot

datatype PlacementStrategy = Deterministic | LeastLoaded

datatype PlacementError = NoNodesForResources

definition strategy_as_str :: "PlacementStrategy \<Rightarrow> string" where
  "strategy_as_str self =
     (case self of Deterministic \<Rightarrow> ''deterministic'' | LeastLoaded \<Rightarrow> ''least-loaded'')"

definition strategy_all :: "PlacementStrategy list" where
  "strategy_all = [Deterministic, LeastLoaded]"

definition strategy_parse :: "string \<Rightarrow> PlacementStrategy option" where
  "strategy_parse raw =
     (let s = to_ascii_lowercase (trim raw) in
      if s = ''deterministic'' \<or> s = ''det'' \<or> s = ''default'' then Some Deterministic
      else if s = ''least-loaded'' \<or> s = ''least_loaded'' \<or> s = ''leastloaded'' then Some LeastLoaded
      else None)"

section \<open>Owners\<close>

definition live_owner_load ::
    "(string, NodeInfo) btree \<Rightarrow> (ResourceIdentity, PartitionAssignment) btree \<Rightarrow> (string, nat) btree" where
  "live_owner_load nodes existing =
     fold (\<lambda>assignment load.
         if bt_contains_key nodes (pa_owner assignment)
         then bt_insert (pa_owner assignment)
                (usize_saturating_add1 (case bt_get load (pa_owner assignment) of
                   None \<Rightarrow> 0 | Some counter \<Rightarrow> counter)) load
         else load)
       (bt_values existing)
       (bt_of_list (map (\<lambda>node_id. (node_id, 0)) (bt_keys nodes)))"

text \<open>\<^verbatim>\<open>Iterator::min_by_key\<close>: the first element with the least key.\<close>

fun min_by_key :: "('a \<Rightarrow> 'b::linorder) \<Rightarrow> 'a list \<Rightarrow> 'a option" where
  "min_by_key f [] = None"
| "min_by_key f (x # xs) = Some (fold (\<lambda>y m. if f y < f m then y else m) xs x)"

definition load_of :: "(string, nat) btree \<Rightarrow> string \<Rightarrow> nat" where
  "load_of load node = (case bt_get load node of None \<Rightarrow> 0 | Some n \<Rightarrow> n)"

definition pick_least_loaded_owner :: "string list \<Rightarrow> (string, nat) btree \<Rightarrow> string option" where
  "pick_least_loaded_owner node_ids load = min_by_key (\<lambda>node. (load_of load node, node)) node_ids"

definition pick_owner :: "nat \<Rightarrow> string list \<Rightarrow> PartitionAssignment option \<Rightarrow> string option" where
  "pick_owner idx node_ids existing =
     (case existing of
        Some e \<Rightarrow>
          if list_ex (\<lambda>node. node = pa_owner e) node_ids then Some (pa_owner e)
          else if node_ids = [] then None else Some (node_ids ! (idx mod length node_ids))
      | None \<Rightarrow> if node_ids = [] then None else Some (node_ids ! (idx mod length node_ids)))"

section \<open>Followers\<close>

text \<open>The first loop of \<^verbatim>\<open>gather_followers\<close>: the live existing followers, without repetition.\<close>

fun keep_followers ::
    "string \<Rightarrow> string list \<Rightarrow> string list \<Rightarrow> string btset \<Rightarrow> string list \<Rightarrow> string btset \<times> string list" where
  "keep_followers owner node_ids [] ordered_unique followers = (ordered_unique, followers)"
| "keep_followers owner node_ids (node # rest) ordered_unique followers =
     (if node = owner then keep_followers owner node_ids rest ordered_unique followers
      else if \<not> bs_contains ordered_unique node \<and> node \<in> set node_ids
        then keep_followers owner node_ids rest (bs_insert node ordered_unique) (followers @ [node])
      else keep_followers owner node_ids rest ordered_unique followers)"

text \<open>
  The second loop, over \<open>cursor\<close>: walk the node list cyclically from the owner until enough
  followers are found or the list has been walked twice.  The source advances the cursor with
  \<^verbatim>\<open>saturating_add\<close>; the guard stops it at \<open>2 * len\<close>, far below \<^verbatim>\<open>usize::MAX\<close>.
\<close>

function fill_followers ::
    "string \<Rightarrow> nat \<Rightarrow> string list \<Rightarrow> nat \<Rightarrow> nat \<Rightarrow> string btset \<Rightarrow> string list \<Rightarrow> string list" where
  "fill_followers owner target node_ids owner_index cursor ordered_unique followers =
     (if length followers < target then
        let candidate = node_ids ! ((owner_index + cursor) mod length node_ids) in
        if candidate = owner then
          (if length node_ids * 2 < cursor + 1 then followers
           else fill_followers owner target node_ids owner_index (cursor + 1) ordered_unique followers)
        else
          let ordered_unique' =
                (if \<not> bs_contains ordered_unique candidate then bs_insert candidate ordered_unique
                 else ordered_unique);
              followers' =
                (if \<not> bs_contains ordered_unique candidate then followers @ [candidate] else followers)
          in (if length node_ids * 2 < cursor + 1 then followers'
              else fill_followers owner target node_ids owner_index (cursor + 1) ordered_unique' followers')
      else followers)"
  by pat_completeness auto
termination
  by (relation "measure (\<lambda>(owner, target, node_ids, owner_index, cursor, ordered_unique, followers).
        length node_ids * 2 + 1 - cursor)") auto

declare fill_followers.simps [simp del]

text \<open>\<^verbatim>\<open>position\<close>: the index of the first element that satisfies the test.\<close>

fun position :: "('a \<Rightarrow> bool) \<Rightarrow> 'a list \<Rightarrow> nat option" where
  "position P [] = None"
| "position P (x # xs) = (if P x then Some 0 else map_option Suc (position P xs))"

definition gather_followers ::
    "string \<Rightarrow> nat \<Rightarrow> string list \<Rightarrow> PartitionAssignment option \<Rightarrow> string list" where
  "gather_followers owner target_followers node_ids existing =
     (if length node_ids \<le> 1 \<or> target_followers = 0 then []
      else
        let (ordered_unique, followers) =
              (case existing of
                 Some e \<Rightarrow> keep_followers owner node_ids (pa_followers e) bt_empty []
               | None \<Rightarrow> (bt_empty, []))
        in if target_followers \<le> length followers then take target_followers followers
           else
             let owner_index =
                   (case position (\<lambda>node. node = owner) node_ids of None \<Rightarrow> 0 | Some i \<Rightarrow> i)
             in take target_followers
                  (fill_followers owner target_followers node_ids owner_index 1 ordered_unique followers))"

section \<open>The two policies\<close>

definition carried_epoch :: "PartitionAssignment option \<Rightarrow> string \<Rightarrow> u64" where
  "carried_epoch existing owner =
     (case existing of
        Some e \<Rightarrow> if pa_owner e = owner then pa_epoch e else u64_saturating_add1 (pa_epoch e)
      | None \<Rightarrow> 1)"

definition carried_durability :: "PartitionAssignment option \<Rightarrow> ReplicationDurabilityPolicy" where
  "carried_durability existing =
     (case existing of Some e \<Rightarrow> pa_durability e | None \<Rightarrow> ReplicationDurabilityPolicy_default)"

definition planned_assignment ::
    "PlacementInput \<Rightarrow> string list \<Rightarrow> ResourceIdentity \<Rightarrow> string \<Rightarrow> PartitionAssignment" where
  "planned_assignment input nodes resource owner =
     (let existing = bt_get (pi_existing input) resource in
      \<lparr>pa_resource = resource,
       pa_owner = owner,
       pa_followers = gather_followers owner (pi_target_followers input) nodes existing,
       pa_epoch = carried_epoch existing owner,
       pa_durability = carried_durability existing\<rparr>)"

definition planned_snapshot ::
    "PlacementInput \<Rightarrow> (ResourceIdentity, PartitionAssignment) btree \<Rightarrow> PlacementPlan" where
  "planned_snapshot input assignments =
     \<lparr>pp_snapshot = \<lparr>cs_nodes = pi_nodes input, cs_assignments = assignments,
        cs_resources = bt_empty, cs_attributes = bt_empty, cs_generation = pi_generation input\<rparr>\<rparr>"

fun deterministic_loop ::
    "PlacementInput \<Rightarrow> string list \<Rightarrow> nat \<Rightarrow> ResourceIdentity list \<Rightarrow>
     (ResourceIdentity, PartitionAssignment) btree \<Rightarrow>
     (ResourceIdentity, PartitionAssignment) btree option" where
  "deterministic_loop input nodes idx [] assignments = Some assignments"
| "deterministic_loop input nodes idx (resource # rest) assignments =
     (case pick_owner idx nodes (bt_get (pi_existing input) resource) of
        None \<Rightarrow> None
      | Some owner \<Rightarrow>
          deterministic_loop input nodes (idx + 1) rest
            (bt_insert resource (planned_assignment input nodes resource owner) assignments))"

definition deterministic_plan ::
    "PlacementInput \<Rightarrow> (PlacementError, PlacementPlan) result option" where
  "deterministic_plan input =
     (let resources = dedup (sort (pi_resources input)); nodes = bt_keys (pi_nodes input) in
      if resources = [] then Some (Inr (planned_snapshot input bt_empty))
      else if nodes = [] then Some (Inl NoNodesForResources)
      else map_option (\<lambda>assignments. Inr (planned_snapshot input assignments))
             (deterministic_loop input nodes 0 resources bt_empty))"

definition least_loaded_owner ::
    "string list \<Rightarrow> (string, nat) btree \<Rightarrow> PartitionAssignment option \<Rightarrow> string option" where
  "least_loaded_owner nodes load existing =
     (case existing of
        Some e \<Rightarrow>
          if list_ex (\<lambda>node. node = pa_owner e) nodes then Some (pa_owner e)
          else pick_least_loaded_owner nodes load
      | None \<Rightarrow> pick_least_loaded_owner nodes load)"

definition bump_load :: "string \<Rightarrow> (string, nat) btree \<Rightarrow> (string, nat) btree" where
  "bump_load owner load =
     (case bt_get load owner of
        Some load_counter \<Rightarrow> bt_insert owner (usize_saturating_add1 load_counter) load
      | None \<Rightarrow> load)"

fun least_loaded_loop ::
    "PlacementInput \<Rightarrow> string list \<Rightarrow> (string, nat) btree \<Rightarrow> ResourceIdentity list \<Rightarrow>
     (ResourceIdentity, PartitionAssignment) btree \<Rightarrow>
     (ResourceIdentity, PartitionAssignment) btree option" where
  "least_loaded_loop input nodes load [] assignments = Some assignments"
| "least_loaded_loop input nodes load (resource # rest) assignments =
     (case least_loaded_owner nodes load (bt_get (pi_existing input) resource) of
        None \<Rightarrow> None
      | Some owner \<Rightarrow>
          least_loaded_loop input nodes (bump_load owner load) rest
            (bt_insert resource (planned_assignment input nodes resource owner) assignments))"

definition least_loaded_plan ::
    "PlacementInput \<Rightarrow> (PlacementError, PlacementPlan) result option" where
  "least_loaded_plan input =
     (let resources = dedup (sort (pi_resources input)); nodes = bt_keys (pi_nodes input) in
      if resources = [] then Some (Inr (planned_snapshot input bt_empty))
      else if nodes = [] then Some (Inl NoNodesForResources)
      else map_option (\<lambda>assignments. Inr (planned_snapshot input assignments))
             (least_loaded_loop input nodes (live_owner_load (pi_nodes input) (pi_existing input))
                resources bt_empty))"

definition as_strategy ::
    "PlacementStrategy \<Rightarrow> PlacementInput \<Rightarrow> (PlacementError, PlacementPlan) result option" where
  "as_strategy self =
     (case self of Deterministic \<Rightarrow> deterministic_plan | LeastLoaded \<Rightarrow> least_loaded_plan)"

section \<open>Owners are live\<close>

lemma list_ex_eq [simp]: "list_ex (\<lambda>y. y = x) xs \<longleftrightarrow> x \<in> set xs"
  by (auto simp: list_ex_iff)

lemma pick_owner_live: "nodes \<noteq> [] \<Longrightarrow> \<exists>o'. pick_owner idx nodes existing = Some o' \<and> o' \<in> set nodes"
  by (auto simp: pick_owner_def split: option.split)

lemma pick_owner_keeps: "pa_owner e \<in> set nodes \<Longrightarrow> pick_owner idx nodes (Some e) = Some (pa_owner e)"
  by (simp add: pick_owner_def)

lemma fold_min_least:
  fixes f :: "'a \<Rightarrow> 'b::linorder"
  defines "m \<equiv> \<lambda>x xs. fold (\<lambda>y m. if f y < f m then y else m) xs x"
  shows "m x xs \<in> set (x # xs) \<and> (\<forall>y \<in> set (x # xs). f (m x xs) \<le> f y)"
proof (induction xs arbitrary: x)
  case (Cons y ys)
  show ?case
  proof (cases "f y < f x")
    case True
    then show ?thesis using Cons [of y] by (auto simp: m_def)
  next
    case False
    then show ?thesis using Cons [of x] by (auto simp: m_def not_less intro: order_trans)
  qed
qed (simp add: m_def)

lemma min_by_key_least:
  "xs \<noteq> [] \<Longrightarrow> \<exists>x. min_by_key f xs = Some x \<and> x \<in> set xs \<and> (\<forall>y \<in> set xs. f x \<le> f y)"
  using fold_min_least [of f] by (cases xs) (auto simp del: fold_simps)

lemma pick_least_loaded_owner_least:
  assumes "nodes \<noteq> []"
  shows "\<exists>x. pick_least_loaded_owner nodes load = Some x \<and> x \<in> set nodes
    \<and> (\<forall>y \<in> set nodes. load_of load x < load_of load y \<or> load_of load x = load_of load y \<and> x \<le> y)"
proof -
  obtain x where "min_by_key (\<lambda>node. (load_of load node, node)) nodes = Some x" "x \<in> set nodes"
    "\<forall>y \<in> set nodes. (load_of load x, x) \<le> (load_of load y, y)"
    using min_by_key_least [OF assms] by blast
  then show ?thesis by (auto simp: pick_least_loaded_owner_def less_eq_prod_def)
qed

lemma least_loaded_owner_live:
  "nodes \<noteq> [] \<Longrightarrow> \<exists>o'. least_loaded_owner nodes load existing = Some o' \<and> o' \<in> set nodes"
  using pick_least_loaded_owner_least [of nodes load]
  by (auto simp: least_loaded_owner_def split: option.split)

lemma least_loaded_owner_keeps:
  "pa_owner e \<in> set nodes \<Longrightarrow> least_loaded_owner nodes load (Some e) = Some (pa_owner e)"
  by (simp add: least_loaded_owner_def)

section \<open>Followers\<close>

text \<open>The invariant of both follower loops: the set and the list hold the same live non-owners.\<close>

definition followers_ok :: "string \<Rightarrow> string list \<Rightarrow> string btset \<Rightarrow> string list \<Rightarrow> bool" where
  "followers_ok owner nodes seen fs \<longleftrightarrow>
     (\<forall>x. bs_contains seen x \<longleftrightarrow> x \<in> set fs) \<and> distinct fs \<and> owner \<notin> set fs \<and> set fs \<subseteq> set nodes"

lemma followers_ok_empty [simp]: "followers_ok owner nodes bt_empty []"
  by (simp add: followers_ok_def)

lemma followers_ok_push:
  "followers_ok owner nodes seen fs \<Longrightarrow> x \<noteq> owner \<Longrightarrow> x \<in> set nodes \<Longrightarrow> \<not> bs_contains seen x \<Longrightarrow>
     followers_ok owner nodes (bs_insert x seen) (fs @ [x])"
  by (auto simp: followers_ok_def)

lemma keep_followers_ok:
  "followers_ok owner nodes seen fs \<Longrightarrow>
     followers_ok owner nodes (fst (keep_followers owner nodes es seen fs))
       (snd (keep_followers owner nodes es seen fs))"
  by (induction owner nodes es seen fs rule: keep_followers.induct) (auto simp: followers_ok_push)

lemma keep_followers_all:
  "followers_ok owner nodes seen fs \<Longrightarrow> distinct (fs @ es) \<Longrightarrow> set es \<subseteq> set nodes - {owner} \<Longrightarrow>
     snd (keep_followers owner nodes es seen fs) = fs @ es"
proof (induction es arbitrary: seen fs)
  case (Cons e es)
  then have "\<not> bs_contains seen e" "e \<noteq> owner" "e \<in> set nodes" by (auto simp: followers_ok_def)
  then show ?case
    using Cons.IH [of "bs_insert e seen" "fs @ [e]"] Cons.prems by (simp add: followers_ok_push)
qed simp

text \<open>One round of the second loop, with its two ways of skipping a candidate joined.\<close>

definition visit :: "string \<Rightarrow> string \<Rightarrow> string btset \<times> string list \<Rightarrow> string btset \<times> string list" where
  "visit owner cand st =
     (if cand = owner \<or> bs_contains (fst st) cand then st
      else (bs_insert cand (fst st), snd st @ [cand]))"

lemma fill_followers_visit:
  "fill_followers owner target nodes oi cursor seen fs =
     (if length fs < target then
        let st = visit owner (nodes ! ((oi + cursor) mod length nodes)) (seen, fs) in
        if length nodes * 2 < cursor + 1 then snd st
        else fill_followers owner target nodes oi (cursor + 1) (fst st) (snd st)
      else fs)"
  by (subst fill_followers.simps) (simp add: Let_def visit_def)

lemma visit_ok:
  assumes "followers_ok owner nodes seen fs" "cand \<in> set nodes" "visit owner cand (seen, fs) = (seen1, fs1)"
  shows "followers_ok owner nodes seen1 fs1" "cand \<in> insert owner (set fs1)"
    "\<exists>zs. fs1 = fs @ zs" "length fs1 \<le> length fs + 1"
  using assms by (auto simp: visit_def followers_ok_push split: if_splits)
    (simp add: followers_ok_def)

text \<open>What the second loop achieves: it only appends, and it stops short of the target only
  after every position from the cursor on has been visited.\<close>

definition fill_done :: "string \<Rightarrow> nat \<Rightarrow> string list \<Rightarrow> nat \<Rightarrow> nat \<Rightarrow> string list \<Rightarrow> string list \<Rightarrow> bool" where
  "fill_done owner target nodes oi cursor fs res \<longleftrightarrow>
     (\<exists>seen. followers_ok owner nodes seen res) \<and> (\<exists>ys. res = fs @ ys) \<and> length res \<le> target \<and>
     (length res = target \<or>
      (\<forall>c. cursor \<le> c \<and> c \<le> length nodes * 2 \<longrightarrow>
         nodes ! ((oi + c) mod length nodes) \<in> insert owner (set res)))"

lemma fill_done_step:
  assumes "fill_done owner target nodes oi (cursor + 1) fs1 res" "fs1 = fs @ zs"
    and "nodes ! ((oi + cursor) mod length nodes) \<in> insert owner (set fs1)"
  shows "fill_done owner target nodes oi cursor fs res"
proof -
  have "c = cursor \<or> cursor + 1 \<le> c" if "cursor \<le> c" for c using that by auto
  with assms show ?thesis unfolding fill_done_def
    by (metis (no_types, lifting) Un_iff append_assoc insert_iff set_append)
qed

lemma fill_followers_done:
  assumes "followers_ok owner nodes seen fs" "nodes \<noteq> []" "length fs \<le> target"
  shows "fill_done owner target nodes oi cursor fs
    (fill_followers owner target nodes oi cursor seen fs)"
  using assms
proof (induction "length nodes * 2 + 1 - cursor" arbitrary: cursor seen fs rule: less_induct)
  case less
  define cand where "cand = nodes ! ((oi + cursor) mod length nodes)"
  obtain seen1 fs1 where v: "visit owner cand (seen, fs) = (seen1, fs1)" by fastforce
  have "cand \<in> set nodes" using less.prems by (simp add: cand_def)
  note ok = visit_ok [OF less.prems(1) this v]
  show ?case
  proof (cases "length fs < target")
    case False
    with less.prems show ?thesis
      by (subst fill_followers_visit) (auto simp: fill_done_def)
  next
    case True
    show ?thesis
    proof (cases "length nodes * 2 < cursor + 1")
      case stop: True
      then have "fill_done owner target nodes oi (cursor + 1) fs1 fs1"
        using ok(1,4) True by (auto simp: fill_done_def)
      then have "fill_done owner target nodes oi cursor fs fs1"
        using ok(2,3) by (auto intro: fill_done_step simp: cand_def)
      with True stop v show ?thesis
        by (subst fill_followers_visit) (simp add: flip: cand_def)
    next
      case False
      then have "fill_done owner target nodes oi (cursor + 1) fs1
          (fill_followers owner target nodes oi (cursor + 1) seen1 fs1)"
        using ok(1,4) True less.prems(2) by (intro less.hyps) auto
      then have "fill_done owner target nodes oi cursor fs
          (fill_followers owner target nodes oi (cursor + 1) seen1 fs1)"
        using ok(2,3) by (auto intro: fill_done_step simp: cand_def)
      with True False v show ?thesis
        by (subst fill_followers_visit) (simp add: flip: cand_def)
    qed
  qed
qed

lemma cyclic_walk_covers:
  assumes "x \<in> set nodes" "oi < length nodes"
  shows "\<exists>c. 1 \<le> c \<and> c \<le> length nodes * 2 \<and> nodes ! ((oi + c) mod length nodes) = x"
proof -
  obtain i where i: "i < length nodes" "nodes ! i = x" using assms(1) by (auto simp: in_set_conv_nth)
  let ?c = "length nodes + i - oi"
  have "oi + ?c = i + length nodes" using assms(2) by simp
  with i have "nodes ! ((oi + ?c) mod length nodes) = x" by simp
  then show ?thesis using assms(2) i by (intro exI [of _ ?c]) auto
qed

lemma position_less: "position P xs = Some i \<Longrightarrow> i < length xs"
  by (induction xs arbitrary: i) (auto split: if_splits)

definition valid_followers :: "string list \<Rightarrow> string \<Rightarrow> nat \<Rightarrow> string list \<Rightarrow> bool" where
  "valid_followers nodes owner target fs \<longleftrightarrow>
     distinct fs \<and> set fs \<subseteq> set nodes - {owner} \<and> length fs = min target (length nodes - 1)"

lemma card_others: "distinct nodes \<Longrightarrow> owner \<in> set nodes \<Longrightarrow> card (set nodes - {owner}) = length nodes - 1"
  by (simp add: card_Diff_singleton distinct_card)

lemma followers_ok_length:
  assumes "followers_ok owner nodes seen fs" "distinct nodes" "owner \<in> set nodes"
  shows "length fs \<le> length nodes - 1"
proof -
  have "card (set fs) \<le> card (set nodes - {owner})"
    using assms by (intro card_mono) (auto simp: followers_ok_def)
  then show ?thesis using assms by (simp add: followers_ok_def card_others distinct_card)
qed

lemma valid_followers_exhausted:
  assumes "followers_ok owner nodes seen fs" "distinct nodes" "owner \<in> set nodes"
    and "length fs \<le> target" "length fs = target \<or> set nodes \<subseteq> insert owner (set fs)"
  shows "valid_followers nodes owner target fs"
proof -
  have "length fs = length nodes - 1" if "set nodes \<subseteq> insert owner (set fs)"
  proof -
    have "set fs = set nodes - {owner}" using that assms(1) by (auto simp: followers_ok_def)
    then show ?thesis using assms by (metis card_others distinct_card followers_ok_def)
  qed
  then show ?thesis using assms followers_ok_length [OF assms(1-3)]
    by (auto simp: valid_followers_def followers_ok_def)
qed

lemma take_followers_ok: "followers_ok owner nodes seen fs \<Longrightarrow> \<exists>seen'. followers_ok owner nodes seen' (take n fs)"
  by (rule exI [of _ "bs_of_list (take n fs)"]) (auto simp: followers_ok_def dest: in_set_takeD)

lemma gather_followers_valid:
  assumes nodes: "distinct nodes" "owner \<in> set nodes"
  shows "valid_followers nodes owner target (gather_followers owner target nodes existing)"
proof (cases "length nodes \<le> 1 \<or> target = 0")
  case True
  then show ?thesis by (auto simp: gather_followers_def valid_followers_def)
next
  case False
  define st where "st = (case existing of
      Some e \<Rightarrow> keep_followers owner nodes (pa_followers e) bt_empty [] | None \<Rightarrow> (bt_empty, []))"
  define oi where "oi = (case position (\<lambda>node. node = owner) nodes of None \<Rightarrow> 0 | Some i \<Rightarrow> i)"
  have ok: "followers_ok owner nodes (fst st) (snd st)"
    by (simp add: st_def keep_followers_ok split: option.split)
  have oi: "oi < length nodes"
    using False by (auto simp: oi_def dest: position_less split: option.split)
  let ?res = "fill_followers owner target nodes oi 1 (fst st) (snd st)"
  have eq: "gather_followers owner target nodes existing =
      (if target \<le> length (snd st) then take target (snd st) else take target ?res)"
    using False by (simp add: gather_followers_def Let_def st_def oi_def split: prod.split option.split)
  show ?thesis
  proof (cases "target \<le> length (snd st)")
    case True
    obtain seen' where "followers_ok owner nodes seen' (take target (snd st))"
      using take_followers_ok [OF ok] by blast
    then have "valid_followers nodes owner target (take target (snd st))"
      using nodes True by (intro valid_followers_exhausted) auto
    then show ?thesis using eq True by simp
  next
    case less: False
    have done': "fill_done owner target nodes oi 1 (snd st) ?res"
      using fill_followers_done [OF ok] less nodes(2) by fastforce
    then obtain seen' where "followers_ok owner nodes seen' ?res" "length ?res \<le> target"
      by (auto simp: fill_done_def)
    moreover have "length ?res = target \<or> set nodes \<subseteq> insert owner (set ?res)"
      using done' cyclic_walk_covers [OF _ oi] by (fastforce simp: fill_done_def)
    ultimately show ?thesis
      using eq less nodes by (simp add: valid_followers_exhausted)
  qed
qed

lemma gather_followers_stable:
  assumes nodes: "distinct nodes" "owner \<in> set nodes"
    and valid: "valid_followers nodes owner target (pa_followers e)"
  shows "gather_followers owner target nodes (Some e) = pa_followers e"
proof (cases "length nodes \<le> 1 \<or> target = 0")
  case True
  then show ?thesis using valid by (auto simp: gather_followers_def valid_followers_def)
next
  case False
  let ?st = "keep_followers owner nodes (pa_followers e) bt_empty []"
  have snd: "snd ?st = pa_followers e"
    using keep_followers_all [of owner nodes bt_empty "[]" "pa_followers e"] valid
    by (simp add: valid_followers_def)
  have ok: "followers_ok owner nodes (fst ?st) (pa_followers e)"
    using keep_followers_ok [of owner nodes bt_empty "[]" "pa_followers e"] by (simp add: snd)
  define oi where "oi = (case position (\<lambda>node. node = owner) nodes of None \<Rightarrow> 0 | Some i \<Rightarrow> i)"
  let ?res = "fill_followers owner target nodes oi 1 (fst ?st) (pa_followers e)"
  have eq: "gather_followers owner target nodes (Some e) =
      (if target \<le> length (pa_followers e) then take target (pa_followers e) else take target ?res)"
    using False by (simp add: gather_followers_def Let_def oi_def case_prod_unfold snd)
  have len: "length (pa_followers e) \<le> target" using valid by (simp add: valid_followers_def)
  have "fill_done owner target nodes oi 1 (pa_followers e) ?res"
    using fill_followers_done [OF ok _ len] nodes(2) by fastforce
  then obtain seen' ys where r: "followers_ok owner nodes seen' ?res" "?res = pa_followers e @ ys"
    "length ?res \<le> target" by (auto simp: fill_done_def)
  have "length ?res \<le> length nodes - 1" using followers_ok_length [OF r(1) nodes] .
  then have "target \<le> length (pa_followers e) \<or> ?res = pa_followers e"
    using r(2) valid by (cases ys) (auto simp: valid_followers_def min_def split: if_splits)
  then show ?thesis using eq len r(3) by auto
qed

section \<open>The contract of a placement policy\<close>

text \<open>An owner a policy may choose: a live node, and the existing owner while it is live.\<close>

definition owner_choice :: "PlacementInput \<Rightarrow> ResourceIdentity \<Rightarrow> string \<Rightarrow> bool" where
  "owner_choice input r owner \<longleftrightarrow>
     owner \<in> set (bt_keys (pi_nodes input)) \<and>
     (\<forall>e. bt_get (pi_existing input) r = Some e \<and> pa_owner e \<in> set (bt_keys (pi_nodes input))
        \<longrightarrow> owner = pa_owner e)"

definition placed :: "PlacementInput \<Rightarrow> (ResourceIdentity, PartitionAssignment) btree \<Rightarrow> bool" where
  "placed input assignments \<longleftrightarrow>
     (\<forall>r. case bt_get assignments r of
        None \<Rightarrow> r \<notin> set (pi_resources input)
      | Some a \<Rightarrow> r \<in> set (pi_resources input) \<and> owner_choice input r (pa_owner a)
          \<and> a = planned_assignment input (bt_keys (pi_nodes input)) r (pa_owner a))"

lemma placedD:
  assumes "placed input assignments" "bt_get assignments r = Some a"
  shows "r \<in> set (pi_resources input)" "owner_choice input r (pa_owner a)"
    "a = planned_assignment input (bt_keys (pi_nodes input)) r (pa_owner a)"
  using assms by (auto simp: placed_def split: option.splits dest: spec [of _ r])

lemma placed_dom: "placed input assignments \<Longrightarrow> bt_get assignments r \<noteq> None \<longleftrightarrow> r \<in> set (pi_resources input)"
  by (cases "bt_get assignments r") (auto simp: placed_def split: option.splits dest: spec [of _ r])

lemma planned_owner [simp]: "pa_owner (planned_assignment input nodes r ow) = ow"
  by (simp add: planned_assignment_def Let_def)

locale placement_policy =
  fixes plan :: "PlacementInput \<Rightarrow> (PlacementError, PlacementPlan) result option"
  assumes plan_no_nodes: "pi_resources input \<noteq> [] \<Longrightarrow> pi_nodes input = bt_empty \<Longrightarrow>
      plan input = Some (Inl NoNodesForResources)"
    and plan_places: "pi_resources input = [] \<or> pi_nodes input \<noteq> bt_empty \<Longrightarrow>
      \<exists>assignments. plan input = Some (Inr (planned_snapshot input assignments))
        \<and> placed input assignments"
begin

lemma plan_error_iff:
  "plan input = Some (Inl e) \<longleftrightarrow> pi_resources input \<noteq> [] \<and> pi_nodes input = bt_empty"
  using plan_no_nodes [of input] plan_places [of input]
  by (cases e; cases "pi_resources input = [] \<or> pi_nodes input \<noteq> bt_empty") auto

lemma plan_total: "plan input \<noteq> None"
  using plan_no_nodes [of input] plan_places [of input]
  by (cases "pi_resources input = [] \<or> pi_nodes input \<noteq> bt_empty") auto

lemma plan_ok_placed:
  assumes "plan input = Some (Inr p)"
  shows "p = planned_snapshot input (cs_assignments (pp_snapshot p))"
    "placed input (cs_assignments (pp_snapshot p))"
proof -
  have "pi_resources input = [] \<or> pi_nodes input \<noteq> bt_empty"
    using assms plan_no_nodes [of input] by force
  from plan_places [OF this] assms
  show "p = planned_snapshot input (cs_assignments (pp_snapshot p))"
    "placed input (cs_assignments (pp_snapshot p))"
    by (auto simp: planned_snapshot_def)
qed

lemma plan_assignment_valid:
  assumes "plan input = Some (Inr p)" "assignment_for (pp_snapshot p) r = Some a"
  shows "pa_resource a = r" "pa_owner a \<in> set (bt_keys (pi_nodes input))"
    "valid_followers (bt_keys (pi_nodes input)) (pa_owner a) (pi_target_followers input) (pa_followers a)"
    "pa_epoch a = carried_epoch (bt_get (pi_existing input) r) (pa_owner a)"
    "pa_durability a = carried_durability (bt_get (pi_existing input) r)"
proof -
  let ?nodes = "bt_keys (pi_nodes input)"
  have get: "bt_get (cs_assignments (pp_snapshot p)) r = Some a"
    using assms(2) by (simp add: assignment_for_def)
  note d = placedD [OF plan_ok_placed(2) [OF assms(1)] get]
  show o': "pa_owner a \<in> set ?nodes" using d(2) by (simp add: owner_choice_def)
  show "pa_resource a = r" "pa_epoch a = carried_epoch (bt_get (pi_existing input) r) (pa_owner a)"
    "pa_durability a = carried_durability (bt_get (pi_existing input) r)"
    by (subst d(3), simp add: planned_assignment_def Let_def)+
  have "pa_followers a = gather_followers (pa_owner a) (pi_target_followers input) ?nodes
      (bt_get (pi_existing input) r)"
    by (subst d(3)) (simp add: planned_assignment_def Let_def)
  then show "valid_followers ?nodes (pa_owner a) (pi_target_followers input) (pa_followers a)"
    using gather_followers_valid [OF _ o'] by simp
qed

lemma replan_stable:
  assumes first: "plan input = Some (Inr p)"
    and again: "plan (input\<lparr>pi_existing := cs_assignments (pp_snapshot p)\<rparr>) = Some (Inr q)"
  shows "q = p"
proof -
  let ?in = "input\<lparr>pi_existing := cs_assignments (pp_snapshot p)\<rparr>"
  let ?A = "cs_assignments (pp_snapshot p)" and ?B = "cs_assignments (pp_snapshot q)"
  note pp = plan_ok_placed [OF first] and qq = plan_ok_placed [OF again]
  have "?B = ?A"
  proof (rule bt_eqI)
    fix r
    show "bt_get ?B r = bt_get ?A r"
    proof (cases "bt_get ?A r")
      case None
      then show ?thesis using placed_dom [OF pp(2), of r] placed_dom [OF qq(2), of r] by simp
    next
      case (Some a)
      then obtain b where b: "bt_get ?B r = Some b"
        using placed_dom [OF pp(2), of r] placed_dom [OF qq(2), of r] by auto
      note v = plan_assignment_valid [OF first, unfolded assignment_for_def, OF Some]
      have ow: "pa_owner b = pa_owner a"
        using placedD(2) [OF qq(2) b] v(2) Some by (simp add: owner_choice_def)
      have "b = planned_assignment ?in (bt_keys (pi_nodes input)) r (pa_owner a)"
        using placedD(3) [OF qq(2) b] ow by simp
      also have "\<dots> = a"
        using v Some gather_followers_stable [OF _ v(2,3)]
        by (simp add: planned_assignment_def Let_def carried_epoch_def carried_durability_def)
      finally show ?thesis using b Some by simp
    qed
  qed
  moreover have "planned_snapshot ?in X = planned_snapshot input X" for X
    by (simp add: planned_snapshot_def)
  ultimately show ?thesis using pp(1) qq(1) by simp
qed

end

section \<open>Both policies meet the contract\<close>

text \<open>What one round of either planning loop leaves in the map, as an invariant of the loop.\<close>

definition loop_places ::
    "PlacementInput \<Rightarrow> ResourceIdentity list \<Rightarrow> (ResourceIdentity, PartitionAssignment) btree \<Rightarrow>
     (ResourceIdentity, PartitionAssignment) btree \<Rightarrow> bool" where
  "loop_places input rs before after \<longleftrightarrow>
     (\<forall>r. if r \<in> set rs
        then \<exists>ow. owner_choice input r ow
          \<and> bt_get after r = Some (planned_assignment input (bt_keys (pi_nodes input)) r ow)
        else bt_get after r = bt_get before r)"

lemma loop_places_Cons:
  assumes "loop_places input rs (bt_insert r (planned_assignment input (bt_keys (pi_nodes input)) r ow) before) after"
    and "owner_choice input r ow"
  shows "loop_places input (r # rs) before after"
  using assms by (auto simp: loop_places_def bt_get_insert split: if_splits)

lemma loop_places_placed:
  assumes "loop_places input (dedup (sort (pi_resources input))) bt_empty after"
  shows "placed input after"
  using assms by (auto simp: loop_places_def placed_def split: option.split if_splits)
    (metis bt_get_empty option.distinct(1) option.inject planned_owner)+

lemma deterministic_loop_places:
  "pi_nodes input \<noteq> bt_empty \<Longrightarrow>
     \<exists>after. deterministic_loop input (bt_keys (pi_nodes input)) idx rs before = Some after
       \<and> loop_places input rs before after"
proof (induction rs arbitrary: idx before)
  case (Cons r rs)
  let ?nodes = "bt_keys (pi_nodes input)"
  obtain ow where ow: "pick_owner idx ?nodes (bt_get (pi_existing input) r) = Some ow" "ow \<in> set ?nodes"
    using pick_owner_live [of ?nodes idx] Cons.prems by fastforce
  have "owner_choice input r ow"
    using ow pick_owner_keeps [of _ ?nodes idx] by (auto simp: owner_choice_def)
  with Cons ow show ?case by (fastforce intro: loop_places_Cons)
qed (simp add: loop_places_def)

lemma least_loaded_loop_places:
  "pi_nodes input \<noteq> bt_empty \<Longrightarrow>
     \<exists>after. least_loaded_loop input (bt_keys (pi_nodes input)) load rs before = Some after
       \<and> loop_places input rs before after"
proof (induction rs arbitrary: load before)
  case (Cons r rs)
  let ?nodes = "bt_keys (pi_nodes input)"
  obtain ow where ow: "least_loaded_owner ?nodes load (bt_get (pi_existing input) r) = Some ow"
    "ow \<in> set ?nodes"
    using least_loaded_owner_live [of ?nodes load] Cons.prems by fastforce
  have "owner_choice input r ow"
    using ow least_loaded_owner_keeps [of _ ?nodes load] by (auto simp: owner_choice_def)
  with Cons ow show ?case by (fastforce intro: loop_places_Cons)
qed (simp add: loop_places_def)

lemma placed_no_resources: "pi_resources input = [] \<Longrightarrow> placed input bt_empty"
  by (simp add: placed_def)

lemma sort_empty_iff [simp]: "sort xs = [] \<longleftrightarrow> xs = []"
  by (metis set_empty set_sort)

interpretation det: placement_policy deterministic_plan
proof
  fix input :: PlacementInput
  assume *: "pi_resources input = [] \<or> pi_nodes input \<noteq> bt_empty"
  show "\<exists>assignments. deterministic_plan input = Some (Inr (planned_snapshot input assignments))
      \<and> placed input assignments"
    using * deterministic_loop_places [of input 0 "dedup (sort (pi_resources input))" bt_empty]
    by (auto simp: deterministic_plan_def Let_def placed_no_resources dest: loop_places_placed)
qed (simp add: deterministic_plan_def Let_def)

interpretation ll: placement_policy least_loaded_plan
proof
  fix input :: PlacementInput
  assume *: "pi_resources input = [] \<or> pi_nodes input \<noteq> bt_empty"
  show "\<exists>assignments. least_loaded_plan input = Some (Inr (planned_snapshot input assignments))
      \<and> placed input assignments"
    using * least_loaded_loop_places [of input
        "live_owner_load (pi_nodes input) (pi_existing input)" "dedup (sort (pi_resources input))" bt_empty]
    by (auto simp: least_loaded_plan_def Let_def placed_no_resources dest: loop_places_placed)
qed (simp add: least_loaded_plan_def Let_def)

interpretation strategy: placement_policy "as_strategy s" for s
  by (cases s) (simp_all add: as_strategy_def det.placement_policy_axioms ll.placement_policy_axioms)

section \<open>Properties\<close>

text \<open>A two-node cluster for the concrete instances below.\<close>

definition demo_input :: PlacementInput where
  "demo_input =
     \<lparr>pi_nodes = bt_of_list [(''a'', NodeInfo_new ''a'' ''h1:1'' None), (''b'', NodeInfo_new ''b'' ''h2:1'' None)],
      pi_resources = [demo_resource],
      pi_existing = bt_insert demo_resource (PartitionAssignment_new demo_resource ''gone'' [''a''] 4) bt_empty,
      pi_target_followers = 2, pi_generation = 9\<rparr>"

definition demo_plan :: PlacementPlan where
  "demo_plan = planned_snapshot demo_input (bt_insert demo_resource
     (PartitionAssignment_new demo_resource ''a'' [''b''] 5) bt_empty)"

lemma demo_plan_deterministic: "as_strategy Deterministic demo_input = Some (Inr demo_plan)"
  by code_simp

lemma demo_plan_least_loaded: "as_strategy LeastLoaded demo_input = Some (Inr demo_plan)"
  by code_simp

lemma demo_plan_eq: "as_strategy s demo_input = Some (Inr demo_plan)"
  by (cases s) (simp_all only: demo_plan_deterministic demo_plan_least_loaded)

lemma demo_plan_assignment:
  "assignment_for (pp_snapshot demo_plan) demo_resource =
     Some (PartitionAssignment_new demo_resource ''a'' [''b''] 5)"
  by (simp add: demo_plan_def planned_snapshot_def assignment_for_def)

text \<open>
  C9. Every strategy always returns (it never panics), it fails exactly when there are resources
  but no live nodes, and a plan assigns exactly the requested resources, each to a live owner
  (the committed owner whenever that is still live), with distinct live followers other than the
  owner, as many as the target allows (the target, or every other live node).
\<close>

theorem plan_total_and_valid:
  assumes "p = as_strategy s input"
  shows "p = Some (Inl NoNodesForResources) \<and> pi_resources input \<noteq> [] \<and> pi_nodes input = bt_empty
    \<or> (\<exists>plan. p = Some (Inr plan) \<and> (pi_resources input = [] \<or> pi_nodes input \<noteq> bt_empty) \<and>
        cs_nodes (pp_snapshot plan) = pi_nodes input \<and>
        cs_generation (pp_snapshot plan) = pi_generation input \<and>
        (\<forall>r. assignment_for (pp_snapshot plan) r \<noteq> None \<longleftrightarrow> r \<in> set (pi_resources input)) \<and>
        (\<forall>r a. assignment_for (pp_snapshot plan) r = Some a \<longrightarrow>
           pa_resource a = r \<and> owner_choice input r (pa_owner a) \<and>
           valid_followers (bt_keys (pi_nodes input)) (pa_owner a) (pi_target_followers input)
             (pa_followers a)))"
proof (cases p)
  case None
  then show ?thesis using assms strategy.plan_total [of s input] by simp
next
  case (Some q)
  show ?thesis
  proof (cases q)
    case (Inl e)
    then show ?thesis using Some assms strategy.plan_error_iff [of s input e]
      by (cases e) simp
  next
    case (Inr plan)
    have eq: "as_strategy s input = Some (Inr plan)" using assms Some Inr by simp
    note ok = strategy.plan_ok_placed [OF eq] and v = strategy.plan_assignment_valid [OF eq]
    have fields: "cs_nodes (pp_snapshot plan) = pi_nodes input"
      "cs_generation (pp_snapshot plan) = pi_generation input"
      using ok(1) by (metis CoordinationSnapshot.simps(1,5) PlacementPlan.simps(1) planned_snapshot_def)+
    have "\<not> (pi_resources input \<noteq> [] \<and> pi_nodes input = bt_empty)"
      using eq strategy.plan_error_iff [of s input NoNodesForResources] by simp
    then show ?thesis
      using Some Inr fields v placed_dom [OF ok(2)] placedD(2) [OF ok(2)]
      by (auto simp: assignment_for_def)
  qed
qed

theorem plan_total_and_valid_witness:
  "\<exists>plan. as_strategy Deterministic demo_input = Some (Inr plan)
     \<and> valid_followers [''a'', ''b''] ''a'' 2 [''b'']"
proof -
  have keys: "bt_keys (pi_nodes demo_input) = [''a'', ''b'']" "pi_target_followers demo_input = 2"
    by code_simp+
  have "\<forall>r a. assignment_for (pp_snapshot demo_plan) r = Some a \<longrightarrow>
      valid_followers [''a'', ''b''] (pa_owner a) 2 (pa_followers a)"
    using plan_total_and_valid [OF refl, of Deterministic demo_input] by (simp add: demo_plan_eq keys)
  from this [rule_format, OF demo_plan_assignment] show ?thesis
    by (simp add: demo_plan_eq PartitionAssignment_new_def)
qed

text \<open>
  C16. Planning is stable: running either strategy again on its own result (same nodes, resources,
  follower target and generation) returns exactly the same plan, so no owner, follower or epoch
  moves without a reason.
\<close>

theorem replan_returns_same_plan:
  assumes "as_strategy s input = Some (Inr p)"
  shows "as_strategy s (input\<lparr>pi_existing := cs_assignments (pp_snapshot p)\<rparr>) = Some (Inr p)"
proof -
  let ?in = "input\<lparr>pi_existing := cs_assignments (pp_snapshot p)\<rparr>"
  obtain res where res: "as_strategy s ?in = Some res" using strategy.plan_total [of s ?in] by auto
  show ?thesis
  proof (cases res)
    case (Inl e)
    then show ?thesis
      using res assms strategy.plan_error_iff [of s ?in e] strategy.plan_error_iff [of s input e] by simp
  next
    case (Inr q)
    then show ?thesis using res strategy.replan_stable [OF assms, of q] by simp
  qed
qed

theorem replan_returns_same_plan_witness:
  "as_strategy LeastLoaded (demo_input\<lparr>pi_existing := cs_assignments (pp_snapshot demo_plan)\<rparr>)
     = Some (Inr demo_plan)"
  by (rule replan_returns_same_plan [OF demo_plan_eq])

text \<open>
  A planned ownership change is fenced: when the planner moves a resource away from its
  committed owner the epoch grows strictly (below the 64-bit maximum), when the owner stays the
  epoch stays, and a resource without a committed assignment starts at epoch 1.
\<close>

theorem plan_fences_owner_changes:
  assumes "as_strategy s input = Some (Inr p)" "assignment_for (pp_snapshot p) r = Some a"
  shows "case bt_get (pi_existing input) r of
      None \<Rightarrow> pa_epoch a = 1
    | Some e \<Rightarrow> if pa_owner e = pa_owner a then pa_epoch a = pa_epoch e
                else pa_epoch e \<noteq> u64_max \<longrightarrow> pa_epoch e < pa_epoch a"
  using strategy.plan_assignment_valid(4) [OF assms]
  by (auto simp: carried_epoch_def u64_saturating_greater split: option.split)

theorem plan_fences_owner_changes_witness:
  "pa_owner (PartitionAssignment_new demo_resource ''a'' [''b''] 5) = ''a''
   \<and> (4 :: u64) < pa_epoch (PartitionAssignment_new demo_resource ''a'' [''b''] 5)"
  using plan_fences_owner_changes [OF demo_plan_eq demo_plan_assignment]
  by (simp add: demo_input_def PartitionAssignment_new_def)

text \<open>
  The plan depends on the set of requested resources only: their order and repetitions in the
  input do not matter.
\<close>

theorem plan_ignores_resource_order:
  assumes "set rs = set (pi_resources input)"
  shows "as_strategy s (input\<lparr>pi_resources := rs\<rparr>) = as_strategy s input"
proof -
  have eq: "dedup (sort rs) = dedup (sort (pi_resources input))"
    using sort_dedup_cong [OF assms] .
  have planned: "planned_assignment (input\<lparr>pi_resources := rs\<rparr>) = planned_assignment input"
    by (intro ext) (simp add: planned_assignment_def)
  have snap: "planned_snapshot (input\<lparr>pi_resources := rs\<rparr>) = planned_snapshot input"
    by (intro ext) (simp add: planned_snapshot_def)
  have "deterministic_loop (input\<lparr>pi_resources := rs\<rparr>) nodes i xs m = deterministic_loop input nodes i xs m"
    for nodes i xs m
    by (induction xs arbitrary: i m) (simp_all add: planned split: option.split)
  moreover have "least_loaded_loop (input\<lparr>pi_resources := rs\<rparr>) nodes l xs m = least_loaded_loop input nodes l xs m"
    for nodes l xs m
    by (induction xs arbitrary: l m) (simp_all add: planned split: option.split)
  ultimately show ?thesis
    by (cases s) (simp_all add: as_strategy_def deterministic_plan_def least_loaded_plan_def eq snap Let_def)
qed

theorem plan_ignores_resource_order_witness:
  "as_strategy Deterministic (demo_input\<lparr>pi_resources := [demo_resource, demo_resource]\<rparr>)
     = Some (Inr demo_plan)"
  using plan_ignores_resource_order [of "[demo_resource, demo_resource]" demo_input Deterministic]
  by (simp add: demo_plan_eq) (simp add: demo_input_def)

text \<open>Two live nodes, six resources of which \<open>a\<close> already owns two.\<close>

definition skewed_resource :: "u64 \<Rightarrow> ResourceIdentity" where
  "skewed_resource i = ResourceIdentity_new ''ns'' ''q'' i None"

definition skewed_input :: PlacementInput where
  "skewed_input = demo_input\<lparr>
     pi_resources := map skewed_resource [0, 1, 2, 3, 4, 5],
     pi_existing := bt_of_list (map (\<lambda>i. (skewed_resource i,
       PartitionAssignment_new (skewed_resource i) ''a'' [] 1)) [0, 1]),
     pi_target_followers := 0\<rparr>"

text \<open>
  The load counters of the least-loaded strategy count a kept assignment twice, once in
  \<^verbatim>\<open>live_owner_load\<close> and once when the loop keeps it: with two nodes, two resources already
  on \<open>a\<close> and four new ones, all four go to \<open>b\<close>, which ends with four resources against two,
  although \<open>a\<close> owns fewer when the last one is placed.
\<close>

theorem least_loaded_counts_kept_twice:
  "\<exists>p. as_strategy LeastLoaded skewed_input = Some (Inr p)
     \<and> length (owned_by (pp_snapshot p) ''a'') = 2 \<and> length (owned_by (pp_snapshot p) ''b'') = 4"
proof -
  have "(case as_strategy LeastLoaded skewed_input of
       Some (Inr p) \<Rightarrow> length (owned_by (pp_snapshot p) ''a'') = 2 \<and> length (owned_by (pp_snapshot p) ''b'') = 4
     | _ \<Rightarrow> False)"
    by code_simp
  then show ?thesis by (auto split: option.splits sum.splits)
qed

text \<open>
  Strategy names round-trip: parsing the printed name of a strategy, also with surrounding
  white space or in upper case, gives the strategy back.
\<close>

theorem strategy_parse_as_str:
  "list_all (\<lambda>s. strategy_parse (strategy_as_str s) = Some s
     \<and> strategy_parse (''  '' @ strategy_as_str s @ [CHR 0x0A]) = Some s) strategy_all
   \<and> strategy_parse ''LEAST-LOADED'' = Some LeastLoaded \<and> strategy_parse ''fastest'' = None"
  by code_simp

end
