(* ===== verification/Metadata_Log.thy ===== *)
theory Metadata_Log
  imports Json_Model
begin

text \<open>
  The metadata logs of \<^verbatim>\<open>ganglion-storage/src/lib.rs\<close>: the persisted form of a snapshot, the
  in-memory log, the file log with its replay policies, and the contract of the trait
  \<^verbatim>\<open>MetadataLog\<close> as the locale \<open>metadata_log\<close>.

  A poisoned lock is a flag of the log's state.  The file of a file log is its optional content;
  the argument \<open>fault\<close> names the file operation that fails.  The serialization library is the
  codec argument.
\<close>

section \<open>Entries and their persisted form\<close>

record MetadataLogEntry =
  ml_term :: u64
  ml_index :: u64
  ml_snapshot :: CoordinationSnapshot

record PersistedCoordinationSnapshot =
  pc_nodes :: "(string, NodeInfo) btree"
  pc_assignments :: "(string, PartitionAssignment) btree"
  pc_resources :: "ResourceIdentity btset"
  pc_attributes :: "(string, string) btree"
  pc_generation :: u64

record PersistedMetadataLogEntry =
  pe_term :: u64
  pe_index :: u64
  pe_snapshot :: PersistedCoordinationSnapshot

datatype MetadataLogError = Io string | Parse string

definition display_MetadataLogError :: "MetadataLogError \<Rightarrow> string" where
  "display_MetadataLogError self =
     (case self of
        Io details \<Rightarrow> ''metadata log I/O error: '' @ details
      | Parse details \<Rightarrow> ''metadata log parse error: '' @ details)"

definition parse_with_line :: "string \<Rightarrow> nat \<Rightarrow> MetadataLogError" where
  "parse_with_line error line = Parse (''line '' @ show_nat line @ '': '' @ error)"

record mlog_codec =
  enc_key :: "ResourceIdentity \<Rightarrow> (string, string) result"
  dec_key :: "string \<Rightarrow> (string, ResourceIdentity) result"
  enc_line :: "PersistedMetadataLogEntry \<Rightarrow> (string, string) result"
  dec_line :: "string \<Rightarrow> (string, PersistedMetadataLogEntry) result"

text \<open>\<^verbatim>\<open>Iterator::collect\<close> into a \<^verbatim>\<open>Result\<close>: the first error wins.\<close>

fun collect_results :: "('a \<Rightarrow> ('e, 'b) result) \<Rightarrow> 'a list \<Rightarrow> ('e, 'b list) result" where
  "collect_results f [] = Inr []"
| "collect_results f (x # xs) =
     (case f x of
        Inl e \<Rightarrow> Inl e
      | Inr y \<Rightarrow> (case collect_results f xs of Inl e \<Rightarrow> Inl e | Inr ys \<Rightarrow> Inr (y # ys)))"

definition encode_snapshot ::
    "mlog_codec \<Rightarrow> CoordinationSnapshot \<Rightarrow> (MetadataLogError, PersistedCoordinationSnapshot) result" where
  "encode_snapshot codec snapshot =
     (case collect_results
             (\<lambda>(resource, assignment).
                case enc_key codec resource of
                  Inl error \<Rightarrow> Inl (Parse error)
                | Inr key \<Rightarrow> Inr (key, assignment))
             (bt_entries (cs_assignments snapshot)) of
        Inl error \<Rightarrow> Inl error
      | Inr assignments \<Rightarrow>
          Inr \<lparr>pc_nodes = cs_nodes snapshot, pc_assignments = bt_of_list assignments,
               pc_resources = cs_resources snapshot, pc_attributes = cs_attributes snapshot,
               pc_generation = cs_generation snapshot\<rparr>)"

definition decode_snapshot ::
    "mlog_codec \<Rightarrow> PersistedCoordinationSnapshot \<Rightarrow> (MetadataLogError, CoordinationSnapshot) result" where
  "decode_snapshot codec snapshot =
     (case collect_results
             (\<lambda>(raw_resource, assignment).
                case dec_key codec raw_resource of
                  Inl error \<Rightarrow> Inl (Parse error)
                | Inr resource \<Rightarrow> Inr (resource, assignment))
             (bt_entries (pc_assignments snapshot)) of
        Inl error \<Rightarrow> Inl error
      | Inr assignments \<Rightarrow>
          Inr \<lparr>cs_nodes = pc_nodes snapshot, cs_assignments = bt_of_list assignments,
               cs_resources = pc_resources snapshot, cs_attributes = pc_attributes snapshot,
               cs_generation = pc_generation snapshot\<rparr>)"

section \<open>The in-memory log\<close>

record InMemoryMetadataLog =
  im_entries :: "MetadataLogEntry list"
  im_poisoned :: bool

definition InMemoryMetadataLog_new :: InMemoryMetadataLog where
  "InMemoryMetadataLog_new = \<lparr>im_entries = [], im_poisoned = False\<rparr>"

definition lock_poisoned :: MetadataLogError where
  "lock_poisoned = Io ''metadata lock poisoned''"

definition next_log_index :: "MetadataLogEntry list \<Rightarrow> u64" where
  "next_log_index entries =
     (if entries = [] then 1 else u64_saturating_add1 (ml_index (last entries)))"

definition last_entry :: "'a list \<Rightarrow> 'a option" where
  "last_entry entries = (if entries = [] then None else Some (last entries))"

definition im_append_entry ::
    "u64 \<Rightarrow> CoordinationSnapshot \<Rightarrow> InMemoryMetadataLog \<Rightarrow>
     InMemoryMetadataLog \<times> (MetadataLogError, MetadataLogEntry) result" where
  "im_append_entry term snapshot self =
     (if im_poisoned self then (self, Inl lock_poisoned)
      else
        let entry = \<lparr>ml_term = term, ml_index = next_log_index (im_entries self), ml_snapshot = snapshot\<rparr>
        in (self\<lparr>im_entries := im_entries self @ [entry]\<rparr>, Inr entry))"

definition im_latest_entry ::
    "InMemoryMetadataLog \<Rightarrow> (MetadataLogError, MetadataLogEntry option) result" where
  "im_latest_entry self =
     (if im_poisoned self then Inl lock_poisoned else Inr (last_entry (im_entries self)))"

definition im_read_entries ::
    "InMemoryMetadataLog \<Rightarrow> (MetadataLogError, MetadataLogEntry list) result" where
  "im_read_entries self = (if im_poisoned self then Inl lock_poisoned else Inr (im_entries self))"

definition im_clear :: "InMemoryMetadataLog \<Rightarrow> InMemoryMetadataLog \<times> (MetadataLogError, unit) result" where
  "im_clear self =
     (if im_poisoned self then (self, Inl lock_poisoned) else (self\<lparr>im_entries := []\<rparr>, Inr ()))"

definition first_kept :: "u64 \<Rightarrow> u64" where
  "first_kept first_index = (if first_index = 0 then 1 else first_index)"

definition im_truncate_from ::
    "u64 \<Rightarrow> InMemoryMetadataLog \<Rightarrow> InMemoryMetadataLog \<times> (MetadataLogError, unit) result" where
  "im_truncate_from first_index self =
     (if im_poisoned self then (self, Inl lock_poisoned)
      else (self\<lparr>im_entries := filter (\<lambda>entry. first_kept first_index \<le> ml_index entry) (im_entries self)\<rparr>,
            Inr ()))"

section \<open>The file log\<close>

datatype FileMetadataReplayPolicy = Strict | TruncateTail nat

definition FileMetadataReplayPolicy_default :: FileMetadataReplayPolicy where
  "FileMetadataReplayPolicy_default = Strict"

record FileMetadataLog =
  fm_file :: "string option"
  fm_poisoned :: bool
  fm_replay_policy :: FileMetadataReplayPolicy

definition FileMetadataLog_with_replay_policy ::
    "string option \<Rightarrow> FileMetadataReplayPolicy \<Rightarrow> FileMetadataLog" where
  "FileMetadataLog_with_replay_policy content replay_policy =
     \<lparr>fm_file = content, fm_poisoned = False, fm_replay_policy = replay_policy\<rparr>"

definition FileMetadataLog_new :: "string option \<Rightarrow> FileMetadataLog" where
  "FileMetadataLog_new content =
     FileMetadataLog_with_replay_policy content FileMetadataReplayPolicy_default"

datatype log_fault =
    FileOpenFails string | FileReadFails string | CreateDirFails string | FileCreateFails string
  | FileWriteFails nat string

definition recoverable_tail_error ::
    "FileMetadataReplayPolicy \<Rightarrow> MetadataLogError \<Rightarrow> nat \<Rightarrow> MetadataLogEntry list \<Rightarrow>
     (MetadataLogError, MetadataLogEntry list) result" where
  "recoverable_tail_error policy error skipped_tail_lines entries =
     (case policy of
        Strict \<Rightarrow> Inl error
      | TruncateTail max_tail_lines \<Rightarrow>
          if skipped_tail_lines \<le> max_tail_lines then Inr entries else Inl error)"

text \<open>A line that counts: neither blank nor a comment.\<close>

definition content_line :: "string \<Rightarrow> bool" where
  "content_line line \<longleftrightarrow> trim line \<noteq> [] \<and> hd (trim line) \<noteq> CHR ''#''"

definition remaining_tail_lines :: "string list \<Rightarrow> nat" where
  "remaining_tail_lines rest = length (filter content_line rest) + 1"

fun read_lines ::
    "mlog_codec \<Rightarrow> FileMetadataReplayPolicy \<Rightarrow> nat \<Rightarrow> string list \<Rightarrow> MetadataLogEntry list \<Rightarrow>
     (MetadataLogError, MetadataLogEntry list) result" where
  "read_lines codec policy line_offset [] entries = Inr entries"
| "read_lines codec policy line_offset (line # rest) entries =
     (if \<not> content_line line then read_lines codec policy (line_offset + 1) rest entries
      else
        let line_no = line_offset + 1;
            recover = (\<lambda>error. recoverable_tail_error policy error (remaining_tail_lines rest) entries)
        in case dec_line codec (trim line) of
             Inl error \<Rightarrow> recover (parse_with_line error line_no)
           | Inr persisted \<Rightarrow>
               let expected_index = (if entries = [] then pe_index persisted else ml_index (last entries) + 1)
               in if pe_index persisted = 0 then
                    recover (Parse (''line '' @ show_nat line_no @ '': metadata log index must be >= 1''))
                  else if pe_index persisted \<noteq> expected_index then
                    recover (Parse (''line '' @ show_nat line_no
                      @ '': non-sequential log index; expected '' @ show_nat (unat expected_index)
                      @ '', got '' @ show_nat (unat (pe_index persisted))))
                  else case decode_snapshot codec (pe_snapshot persisted) of
                         Inl error \<Rightarrow> Inl error
                       | Inr snapshot \<Rightarrow>
                           read_lines codec policy (line_offset + 1) rest
                             (entries @ [\<lparr>ml_term = pe_term persisted, ml_index = pe_index persisted,
                                          ml_snapshot = snapshot\<rparr>]))"

text \<open>
  All lines are read before the first is parsed, so one line that is not UTF-8 fails the read as an
  I/O error, under every policy and wherever it stands.
\<close>

definition fm_read_all_entries ::
    "mlog_codec \<Rightarrow> log_fault option \<Rightarrow> FileMetadataLog \<Rightarrow> (MetadataLogError, MetadataLogEntry list) result" where
  "fm_read_all_entries codec fault self =
     (case fault of
        Some (FileOpenFails error) \<Rightarrow> Inl (Io error)
      | _ \<Rightarrow>
          (case fm_file self of
             None \<Rightarrow> Inr []
           | Some content \<Rightarrow>
               (case fault of
                  Some (FileReadFails error) \<Rightarrow> Inl (Io error)
                | _ \<Rightarrow>
                    if list_all utf8_valid (lines content)
                    then read_lines codec (fm_replay_policy self) 0 (lines content) []
                    else Inl (Io invalid_utf8))))"

definition encode_entry :: "mlog_codec \<Rightarrow> MetadataLogEntry \<Rightarrow> (MetadataLogError, string) result" where
  "encode_entry codec entry =
     (case encode_snapshot codec (ml_snapshot entry) of
        Inl error \<Rightarrow> Inl error
      | Inr snapshot \<Rightarrow>
          (case enc_line codec \<lparr>pe_term = ml_term entry, pe_index = ml_index entry, pe_snapshot = snapshot\<rparr> of
             Inl error \<Rightarrow> Inl (Parse error)
           | Inr payload \<Rightarrow> Inr payload))"

text \<open>The lines written before the first entry that cannot be encoded, and its error.\<close>

fun encode_entries :: "mlog_codec \<Rightarrow> MetadataLogEntry list \<Rightarrow> string list \<times> MetadataLogError option" where
  "encode_entries codec [] = ([], None)"
| "encode_entries codec (entry # rest) =
     (case encode_entry codec entry of
        Inl error \<Rightarrow> ([], Some error)
      | Inr payload \<Rightarrow> (case encode_entries codec rest of (ls, error) \<Rightarrow> (payload # ls, error)))"

definition fm_write_entries ::
    "mlog_codec \<Rightarrow> log_fault option \<Rightarrow> MetadataLogEntry list \<Rightarrow> FileMetadataLog \<Rightarrow>
     FileMetadataLog \<times> (MetadataLogError, unit) result" where
  "fm_write_entries codec fault entries self =
     (case fault of
        Some (CreateDirFails error) \<Rightarrow> (self, Inl (Io error))
      | Some (FileCreateFails error) \<Rightarrow> (self, Inl (Io error))
      | _ \<Rightarrow>
          (case encode_entries codec entries of
             (ls, encode_error) \<Rightarrow>
               (case fault of
                  Some (FileWriteFails n error) \<Rightarrow>
                    if n < length (unlines ls)
                    then (self\<lparr>fm_file := Some (take n (unlines ls))\<rparr>, Inl (Io error))
                    else (self\<lparr>fm_file := Some (unlines ls)\<rparr>,
                          case encode_error of Some e \<Rightarrow> Inl e | None \<Rightarrow> Inr ())
                | _ \<Rightarrow>
                    (self\<lparr>fm_file := Some (unlines ls)\<rparr>,
                     case encode_error of Some e \<Rightarrow> Inl e | None \<Rightarrow> Inr ()))))"

definition fm_append_entry ::
    "mlog_codec \<Rightarrow> log_fault option \<Rightarrow> u64 \<Rightarrow> CoordinationSnapshot \<Rightarrow> FileMetadataLog \<Rightarrow>
     FileMetadataLog \<times> (MetadataLogError, MetadataLogEntry) result" where
  "fm_append_entry codec fault term snapshot self =
     (if fm_poisoned self then (self, Inl lock_poisoned)
      else case fm_read_all_entries codec fault self of
        Inl error \<Rightarrow> (self, Inl error)
      | Inr entries \<Rightarrow>
          let entry = \<lparr>ml_term = term, ml_index = next_log_index entries, ml_snapshot = snapshot\<rparr> in
          (case fm_write_entries codec fault (entries @ [entry]) self of
             (self', Inl error) \<Rightarrow> (self', Inl error)
           | (self', Inr _) \<Rightarrow> (self', Inr entry)))"

definition fm_latest_entry ::
    "mlog_codec \<Rightarrow> log_fault option \<Rightarrow> FileMetadataLog \<Rightarrow> (MetadataLogError, MetadataLogEntry option) result" where
  "fm_latest_entry codec fault self =
     (if fm_poisoned self then Inl lock_poisoned
      else case fm_read_all_entries codec fault self of
        Inl error \<Rightarrow> Inl error
      | Inr entries \<Rightarrow> Inr (last_entry entries))"

definition fm_read_entries ::
    "mlog_codec \<Rightarrow> log_fault option \<Rightarrow> FileMetadataLog \<Rightarrow> (MetadataLogError, MetadataLogEntry list) result" where
  "fm_read_entries codec fault self =
     (if fm_poisoned self then Inl lock_poisoned else fm_read_all_entries codec fault self)"

definition fm_clear ::
    "mlog_codec \<Rightarrow> log_fault option \<Rightarrow> FileMetadataLog \<Rightarrow> FileMetadataLog \<times> (MetadataLogError, unit) result" where
  "fm_clear codec fault self =
     (if fm_poisoned self then (self, Inl lock_poisoned) else fm_write_entries codec fault [] self)"

definition fm_truncate_from ::
    "mlog_codec \<Rightarrow> log_fault option \<Rightarrow> u64 \<Rightarrow> FileMetadataLog \<Rightarrow>
     FileMetadataLog \<times> (MetadataLogError, unit) result" where
  "fm_truncate_from codec fault first_index self =
     (if fm_poisoned self then (self, Inl lock_poisoned)
      else case fm_read_all_entries codec fault self of
        Inl error \<Rightarrow> (self, Inl error)
      | Inr entries \<Rightarrow>
          fm_write_entries codec fault (filter (\<lambda>entry. first_kept first_index \<le> ml_index entry) entries) self)"

section \<open>The contract of a metadata log\<close>

datatype log_op = LAppend u64 CoordinationSnapshot | LClear | LTruncate u64

text \<open>The log as a list: what every implementation promises.\<close>

fun spec_op :: "log_op \<Rightarrow> MetadataLogEntry list \<Rightarrow> MetadataLogEntry list" where
  "spec_op (LAppend t s) es = es @ [\<lparr>ml_term = t, ml_index = next_log_index es, ml_snapshot = s\<rparr>]"
| "spec_op LClear es = []"
| "spec_op (LTruncate i) es = filter (\<lambda>e. first_kept i \<le> ml_index e) es"

text \<open>Indices are consecutive and positive; \<open>room\<close> leaves space for \<open>n\<close> more.\<close>

fun consecutive :: "MetadataLogEntry list \<Rightarrow> bool" where
  "consecutive [] \<longleftrightarrow> True"
| "consecutive [e] \<longleftrightarrow> ml_index e \<noteq> 0"
| "consecutive (e # f # es) \<longleftrightarrow> ml_index e \<noteq> 0 \<and> ml_index f = ml_index e + 1 \<and> consecutive (f # es)"

definition last_index :: "MetadataLogEntry list \<Rightarrow> u64" where
  "last_index es = (if es = [] then 0 else ml_index (last es))"

definition room :: "nat \<Rightarrow> MetadataLogEntry list \<Rightarrow> bool" where
  "room n es \<longleftrightarrow> unat (last_index es) + n < 2 ^ 64"

lemma consecutive_Cons:
  "consecutive (e # es) \<longleftrightarrow> ml_index e \<noteq> 0 \<and> consecutive es
     \<and> (es = [] \<or> ml_index (hd es) = ml_index e + 1)"
  by (cases es) auto

lemma consecutive_append1:
  "consecutive (es @ [e]) \<longleftrightarrow> consecutive es \<and> ml_index e \<noteq> 0
     \<and> (es = [] \<or> ml_index e = ml_index (last es) + 1)"
  by (induction es) (auto simp: consecutive_Cons)

lemma consecutive_sorted:
  "consecutive (e # es) \<Longrightarrow> x \<in> set es \<Longrightarrow> ml_index e < ml_index x"
proof (induction es arbitrary: e)
  case (Cons f es)
  have "ml_index e \<noteq> u64_max" using Cons.prems(1) by (auto simp: consecutive_Cons)
  then have "ml_index e < ml_index f" using Cons.prems(1) by (simp add: u64_less_succ)
  moreover have "consecutive (f # es)" using Cons.prems(1) by simp
  ultimately show ?case using Cons.IH [of f] Cons.prems(2) by (metis less_trans set_ConsD)
qed simp

lemma consecutive_filter:
  "consecutive es \<Longrightarrow> consecutive (filter (\<lambda>e. k \<le> ml_index e) es)"
proof (induction es)
  case (Cons e es)
  show ?case
  proof (cases "k \<le> ml_index e")
    case True
    then have "filter (\<lambda>e. k \<le> ml_index e) (e # es) = e # es"
      using consecutive_sorted [OF Cons.prems] by (auto intro!: filter_True dest: less_imp_le intro: order_trans)
    then show ?thesis using Cons.prems by simp
  next
    case False
    then show ?thesis using Cons by (simp add: consecutive_Cons)
  qed
qed simp

lemma consecutive_prefix: "consecutive (xs @ ys) \<Longrightarrow> consecutive xs"
proof (induction xs)
  case (Cons x xs)
  then show ?case by (cases xs) (auto simp: consecutive_Cons)
qed simp

lemma last_filter: "filter P es \<noteq> [] \<Longrightarrow> consecutive es \<Longrightarrow> P = (\<lambda>e. k \<le> ml_index e) \<Longrightarrow>
    last (filter P es) = last es"
proof (induction es rule: rev_induct)
  case (snoc e es)
  show ?case
  proof (cases "P e")
    case False
    have "x \<in> set es \<Longrightarrow> ml_index x < ml_index e" for x
    proof -
      assume "x \<in> set es"
      then obtain ys zs where "es = ys @ x # zs" by (meson split_list)
      then have "consecutive (x # zs @ [e])"
        using snoc.prems(2) by (induction ys arbitrary: es) (auto simp: consecutive_Cons)
      then show ?thesis using consecutive_sorted by fastforce
    qed
    then have "filter P es = []" using False snoc.prems(3) by (force simp: filter_empty_conv)
    then show ?thesis using False snoc.prems(1) by simp
  qed simp
qed simp

lemma next_log_index_room:
  assumes "room (Suc n) es"
  shows "next_log_index es = last_index es + 1" "unat (next_log_index es) = unat (last_index es) + 1"
proof -
  have "last_index es \<noteq> u64_max" using assms by (simp add: room_def u64_max_unat)
  then show "next_log_index es = last_index es + 1" "unat (next_log_index es) = unat (last_index es) + 1"
    by (auto simp: next_log_index_def last_index_def u64_saturating_exact u64_unat_succ)
qed

lemma consecutive_spec_append:
  assumes "consecutive es" "room (Suc n) es"
  shows "consecutive (spec_op (LAppend t s) es)"
proof -
  have "next_log_index es \<noteq> 0" using next_log_index_room(2) [OF assms(2)] by auto
  then show ?thesis
    using assms(1) next_log_index_room(1) [OF assms(2)]
    by (auto simp: consecutive_append1 last_index_def)
qed

lemma room_spec_op:
  assumes "consecutive es" "room (Suc n) es"
  shows "room n (spec_op p es)"
proof (cases p)
  case (LAppend t s)
  then show ?thesis using assms(2) next_log_index_room(2) [OF assms(2)]
    by (simp add: room_def last_index_def)
next
  case LClear
  then show ?thesis using assms(2) by (simp add: room_def last_index_def)
next
  case (LTruncate i)
  have "last_index (spec_op p es) \<in> {0, last_index es}"
    using last_filter [OF _ assms(1) refl, of "first_kept i"] LTruncate
    by (auto simp: last_index_def)
  then show ?thesis using assms(2) by (auto simp: room_def)
qed

locale metadata_log =
  fixes inv :: "'s \<Rightarrow> bool"
    and contents :: "'s \<Rightarrow> MetadataLogEntry list"
    and append_entry :: "u64 \<Rightarrow> CoordinationSnapshot \<Rightarrow> 's \<Rightarrow> 's \<times> (MetadataLogError, MetadataLogEntry) result"
    and latest_entry :: "'s \<Rightarrow> (MetadataLogError, MetadataLogEntry option) result"
    and read_entries :: "'s \<Rightarrow> (MetadataLogError, MetadataLogEntry list) result"
    and clear :: "'s \<Rightarrow> 's \<times> (MetadataLogError, unit) result"
    and truncate_from :: "u64 \<Rightarrow> 's \<Rightarrow> 's \<times> (MetadataLogError, unit) result"
  assumes consecutive: "inv s \<Longrightarrow> consecutive (contents s)"
    and read: "inv s \<Longrightarrow> read_entries s = Inr (contents s)"
    and latest: "inv s \<Longrightarrow> latest_entry s = Inr (last_entry (contents s))"
    and append: "inv s \<Longrightarrow> room 1 (contents s) \<Longrightarrow> \<exists>s'. append_entry t sn s =
        (s', Inr \<lparr>ml_term = t, ml_index = next_log_index (contents s), ml_snapshot = sn\<rparr>)
        \<and> inv s' \<and> contents s' = spec_op (LAppend t sn) (contents s)"
    and clear: "inv s \<Longrightarrow> \<exists>s'. clear s = (s', Inr ()) \<and> inv s' \<and> contents s' = []"
    and truncate: "inv s \<Longrightarrow> \<exists>s'. truncate_from i s = (s', Inr ()) \<and> inv s'
        \<and> contents s' = spec_op (LTruncate i) (contents s)"
begin

fun run_op :: "log_op \<Rightarrow> 's \<Rightarrow> 's" where
  "run_op (LAppend t sn) s = fst (append_entry t sn s)"
| "run_op LClear s = fst (clear s)"
| "run_op (LTruncate i) s = fst (truncate_from i s)"

lemma run_op_step:
  "inv s \<Longrightarrow> room 1 (contents s) \<Longrightarrow> inv (run_op p s) \<and> contents (run_op p s) = spec_op p (contents s)"
proof (cases p)
  case (LAppend t sn)
  then show "inv s \<Longrightarrow> room 1 (contents s) \<Longrightarrow> ?thesis" using append [of s t sn] by auto
next
  case LClear
  then show "inv s \<Longrightarrow> room 1 (contents s) \<Longrightarrow> ?thesis" using clear [of s] by auto
next
  case (LTruncate i)
  then show "inv s \<Longrightarrow> room 1 (contents s) \<Longrightarrow> ?thesis" using truncate [of s i] by auto
qed

lemma run_ops:
  "inv s \<Longrightarrow> room (length ops) (contents s) \<Longrightarrow>
     inv (fold run_op ops s) \<and> contents (fold run_op ops s) = fold spec_op ops (contents s)"
proof (induction ops arbitrary: s)
  case (Cons p ops)
  have "room 1 (contents s)" using Cons.prems(2) by (simp add: room_def)
  note step = run_op_step [OF Cons.prems(1) this, of p]
  have "room (length ops) (spec_op p (contents s))"
    using room_spec_op [OF consecutive [OF Cons.prems(1)]] Cons.prems(2) by simp
  with Cons.IH [of "run_op p s"] step show ?case by simp
qed simp

end


section \<open>The implementations keep the contract\<close>

interpretation im: metadata_log "\<lambda>s. \<not> im_poisoned s \<and> consecutive (im_entries s)" im_entries
    im_append_entry im_latest_entry im_read_entries im_clear im_truncate_from
proof unfold_locales
  fix s :: InMemoryMetadataLog and t sn assume "\<not> im_poisoned s \<and> consecutive (im_entries s)" "room 1 (im_entries s)"
  then show "\<exists>s'. im_append_entry t sn s =
        (s', Inr \<lparr>ml_term = t, ml_index = next_log_index (im_entries s), ml_snapshot = sn\<rparr>)
        \<and> (\<not> im_poisoned s' \<and> consecutive (im_entries s'))
        \<and> im_entries s' = spec_op (LAppend t sn) (im_entries s)"
    using consecutive_spec_append [of "im_entries s" 0 t sn] by (simp add: im_append_entry_def Let_def)
qed (auto simp: im_read_entries_def im_latest_entry_def im_clear_def im_truncate_from_def
    consecutive_filter)

subsection \<open>The persisted form\<close>

definition mlog_codec_ok :: "mlog_codec \<Rightarrow> bool" where
  "mlog_codec_ok codec \<longleftrightarrow> codec_roundtrip (enc_key codec) (dec_key codec)
     \<and> codec_total (enc_key codec)
     \<and> codec_roundtrip (enc_line codec) (dec_line codec) \<and> codec_total (enc_line codec)
     \<and> codec_one_line (enc_line codec) \<and> codec_braced (enc_line codec) \<and> codec_utf8 (enc_line codec)"

lemma collect_results_map:
  "(\<And>x. x \<in> set xs \<Longrightarrow> f x = Inr (g x)) \<Longrightarrow> collect_results f xs = Inr (map g xs)"
  by (induction xs) auto

lemma collect_results_total:
  assumes "\<And>x. x \<in> set xs \<Longrightarrow> \<exists>y. f x = Inr y"
  shows "\<exists>g. collect_results f xs = Inr (map g xs) \<and> (\<forall>x \<in> set xs. f x = Inr (g x))"
proof -
  from assms have "\<forall>x \<in> set xs. f x = Inr (projr (f x))" by (metis sum.sel(2))
  then show ?thesis using collect_results_map [of xs f "\<lambda>x. projr (f x)"] by blast
qed

lemma keys_distinct:
  assumes "distinct (map fst es)" "inj key"
  shows "distinct (map fst (map (\<lambda>(r, a). (key r, a)) es))"
proof -
  have eq: "map fst (map (\<lambda>(r, a). (key r, a)) es) = map key (map fst es)" by (induction es) auto
  have "distinct (map key xs)" if "distinct xs" for xs
    using that assms(2) by (auto simp: distinct_map intro: inj_on_subset)
  from this [OF assms(1)] show ?thesis by (simp only: eq)
qed

lemma rekey_roundtrip:
  fixes m :: "('k::linorder, 'v) btree" and key :: "'k \<Rightarrow> 'l::linorder"
  assumes "\<And>r. unkey (key r) = r"
  defines "p \<equiv> bt_of_list (map (\<lambda>(r, a). (key r, a)) (bt_entries m))"
  shows "bt_of_list (map (\<lambda>(k, a). (unkey k, a)) (bt_entries p)) = m"
    and "\<forall>e \<in> set (bt_entries p). \<exists>r. fst e = key r"
proof -
  let ?es = "bt_entries m" and ?ps = "map (\<lambda>(r, a). (key r, a)) (bt_entries m)"
  have d: "distinct (map fst ?es)" by (simp add: strict_keys_distinct)
  have "inj key" using assms(1) by (metis injI)
  then have dp: "distinct (map fst ?ps)" by (rule keys_distinct [OF d])
  have set: "set (bt_entries p) = set ?ps"
  proof (rule set_eqI)
    fix x :: "'l \<times> 'v"
    have "bt_get p (fst x) = map_of ?ps (fst x)"
      unfolding p_def by (rule bt_get_of_list_distinct [OF dp])
    then show "x \<in> set (bt_entries p) \<longleftrightarrow> x \<in> set ?ps"
      using map_of_eq_Some_iff [OF dp, of "fst x" "snd x"] bt_get_iff [of p "fst x" "snd x"]
      by (simp only: prod.collapse)
  qed
  then show keys: "\<forall>e \<in> set (bt_entries p). \<exists>r. fst e = key r" by force
  let ?qs = "map (\<lambda>(k, a). (unkey k, a)) (bt_entries p)"
  have "(\<lambda>(k, a). (unkey k, a)) ` (\<lambda>(r, a). (key r, a)) ` set ?es = set ?es"
    using assms(1) by (force simp: image_image case_prod_unfold)
  then have "set ?qs = set ?es" using set by simp
  moreover have "distinct (map fst ?qs)"
  proof -
    have "map fst ?qs = map unkey (map fst (bt_entries p))" by (induction "bt_entries p") auto
    moreover have "inj_on unkey (set (map fst (bt_entries p)))"
    proof (rule inj_onI)
      fix x y assume "x \<in> set (map fst (bt_entries p))" "y \<in> set (map fst (bt_entries p))"
        and eq: "unkey x = unkey y"
      then obtain r q where "x = key r" "y = key q" using keys by fastforce
      then show "x = y" using eq assms(1) by metis
    qed
    moreover have "distinct (map fst (bt_entries p))" by (simp add: strict_keys_distinct)
    ultimately show ?thesis by (simp only: distinct_map)
  qed
  ultimately have "map_of ?qs = map_of ?es" using d by (simp only: map_of_inject_set)
  then show "bt_of_list ?qs = m"
    using bt_get_of_list_distinct [OF \<open>distinct (map fst ?qs)\<close>]
    by (intro bt_eqI) (metis bt_get_of_list_distinct bt_of_list_entries d)
qed

lemma snapshot_roundtrip:
  assumes "mlog_codec_ok codec"
  shows "\<exists>p. encode_snapshot codec s = Inr p \<and> decode_snapshot codec p = Inr s"
proof -
  define key where "key r = projr (enc_key codec r)" for r
  define unkey where "unkey k = projr (dec_key codec k)" for k
  have enc: "enc_key codec r = Inr (key r)" for r
  proof -
    have "\<exists>b. enc_key codec r = Inr b" using assms by (simp add: mlog_codec_ok_def codec_total_def)
    then show ?thesis by (auto simp: key_def)
  qed
  then have dec: "dec_key codec (key r) = Inr r" for r
    using codec_roundtripD [of "enc_key codec" "dec_key codec" r "key r"] enc [of r] assms
    by (simp add: mlog_codec_ok_def)
  then have inv: "unkey (key r) = r" for r by (simp add: unkey_def)
  let ?p = "bt_of_list (map (\<lambda>(r, a). (key r, a)) (bt_entries (cs_assignments s)))"
  note rk = rekey_roundtrip [of unkey key "cs_assignments s", OF inv]
  have "encode_snapshot codec s =
      Inr \<lparr>pc_nodes = cs_nodes s, pc_assignments = ?p, pc_resources = cs_resources s,
           pc_attributes = cs_attributes s, pc_generation = cs_generation s\<rparr>"
    by (simp add: encode_snapshot_def enc collect_results_map [where g = "\<lambda>(r, a). (key r, a)"] split_def)
  moreover have "collect_results (\<lambda>(k, a). case dec_key codec k of
        Inl error \<Rightarrow> Inl (Parse error) | Inr r \<Rightarrow> Inr (r, a)) (bt_entries ?p)
      = Inr (map (\<lambda>(k, a). (unkey k, a)) (bt_entries ?p))"
  proof (rule collect_results_map)
    fix x assume "x \<in> set (bt_entries ?p)"
    then obtain r where "fst x = key r" using rk(2) by auto
    then show "(case x of (k, a) \<Rightarrow> case dec_key codec k of
        Inl error \<Rightarrow> Inl (Parse error) | Inr r \<Rightarrow> Inr (r, a)) = Inr (case x of (k, a) \<Rightarrow> (unkey k, a))"
      using dec inv by (cases x) simp
  qed
  ultimately show ?thesis by (simp add: decode_snapshot_def rk(1))
qed

subsection \<open>The file\<close>

lemma encoded_line:
  assumes "mlog_codec_ok codec" "encode_entry codec e = Inr l"
  shows "content_line l" "plain_line l" "trim l = l"
    and "\<exists>p. dec_line codec l = Inr p \<and> pe_term p = ml_term e \<and> pe_index p = ml_index e
      \<and> decode_snapshot codec (pe_snapshot p) = Inr (ml_snapshot e)"
    and "utf8_valid l"
proof -
  obtain p where p: "encode_snapshot codec (ml_snapshot e) = Inr p" "decode_snapshot codec p = Inr (ml_snapshot e)"
    using snapshot_roundtrip [OF assms(1)] by blast
  let ?q = "\<lparr>pe_term = ml_term e, pe_index = ml_index e, pe_snapshot = p\<rparr>"
  have enc: "enc_line codec ?q = Inr l"
    using assms(2) p(1) by (auto simp: encode_entry_def split: sum.splits)
  then show "\<exists>p. dec_line codec l = Inr p \<and> pe_term p = ml_term e \<and> pe_index p = ml_index e
      \<and> decode_snapshot codec (pe_snapshot p) = Inr (ml_snapshot e)"
    using codec_roundtripD [of "enc_line codec" "dec_line codec" ?q l] assms(1) p(2)
    by (auto simp: mlog_codec_ok_def)
  obtain a c where ac: "l = CHR ''{'' # a" "l = c @ ''}''"
    using assms(1) enc unfolding mlog_codec_ok_def codec_braced_def by blast
  show t: "trim l = l" by (rule trim_braced [OF ac])
  show "content_line l" using ac(1) t by (simp add: content_line_def)
  have "CHR 0x0A \<notin> set l"
    using codec_one_lineD [of "enc_line codec" ?q l] assms(1) enc by (simp add: mlog_codec_ok_def)
  then show "plain_line l" using ac(2) by (simp add: plain_line_def)
  show "utf8_valid l" using codec_utf8D [of "enc_line codec" ?q l] assms(1) enc by (simp add: mlog_codec_ok_def)
qed

lemma read_encoded:
  assumes "mlog_codec_ok codec" "encode_entries codec es = (ls, None)" "consecutive (pre @ es)"
  shows "read_lines codec policy n (ls @ rest) pre = read_lines codec policy (n + length es) rest (pre @ es)"
  using assms(2,3)
proof (induction es arbitrary: ls pre n)
  case (Cons e es)
  then obtain l ls' where l: "encode_entry codec e = Inr l" "encode_entries codec es = (ls', None)" "ls = l # ls'"
    by (auto split: sum.splits prod.splits)
  note line = encoded_line [OF assms(1) l(1)]
  obtain p where p: "dec_line codec l = Inr p" "pe_term p = ml_term e" "pe_index p = ml_index e"
    "decode_snapshot codec (pe_snapshot p) = Inr (ml_snapshot e)" using line(4) by blast
  have "consecutive (pre @ [e])"
    using Cons.prems(2) consecutive_prefix [of "pre @ [e]" es] by simp
  then have "ml_index e \<noteq> 0" "(if pre = [] then ml_index e else ml_index (last pre) + 1) = ml_index e"
    by (auto simp: consecutive_append1)
  then have "read_lines codec policy n (ls @ rest) pre = read_lines codec policy (n + 1) (ls' @ rest)
      (pre @ [\<lparr>ml_term = ml_term e, ml_index = ml_index e, ml_snapshot = ml_snapshot e\<rparr>])"
    using line(1,3) p by (cases "pre = []") (simp_all add: l(3) Let_def)
  also have "\<lparr>ml_term = ml_term e, ml_index = ml_index e, ml_snapshot = ml_snapshot e\<rparr> = e" by simp
  also have "read_lines codec policy (n + 1) (ls' @ rest) (pre @ [e])
      = read_lines codec policy (n + 1 + length es) rest ((pre @ [e]) @ es)"
    by (rule Cons.IH [OF l(2)]) (use Cons.prems(2) in simp)
  finally show ?case by simp
qed simp

lemma encode_entries_total:
  assumes "mlog_codec_ok codec"
  shows "\<exists>ls. encode_entries codec es = (ls, None) \<and> (\<forall>l \<in> set ls. plain_line l) \<and> list_all utf8_valid ls"
proof (induction es)
  case (Cons e es)
  obtain p where p: "encode_snapshot codec (ml_snapshot e) = Inr p"
    using snapshot_roundtrip [OF assms] by blast
  have "\<exists>l. enc_line codec \<lparr>pe_term = ml_term e, pe_index = ml_index e, pe_snapshot = p\<rparr> = Inr l"
    using assms by (simp add: mlog_codec_ok_def codec_total_def)
  then obtain l where l: "encode_entry codec e = Inr l" using p by (auto simp: encode_entry_def)
  with Cons encoded_line(2,5) [OF assms l] show ?case by auto
qed simp

lemma write_then_read:
  assumes "mlog_codec_ok codec" "consecutive es"
  shows "\<exists>content. fm_write_entries codec None es self = (self\<lparr>fm_file := Some content\<rparr>, Inr ())
    \<and> fm_read_all_entries codec None (self\<lparr>fm_file := Some content\<rparr>) = Inr es"
proof -
  obtain ls where ls: "encode_entries codec es = (ls, None)" "\<forall>l \<in> set ls. plain_line l" "list_all utf8_valid ls"
    using encode_entries_total [OF assms(1)] by blast
  have "read_lines codec (fm_replay_policy self) 0 (lines (unlines ls)) [] = Inr es"
    using read_encoded [OF assms(1) ls(1), of "[]" _ 0 "[]"] assms(2) lines_unlines_id [OF ls(2)] by simp
  moreover have "list_all utf8_valid (lines (unlines ls))" using ls(3) lines_unlines_id [OF ls(2)] by simp
  ultimately show ?thesis using ls(1)
    by (intro exI [of _ "unlines ls"]) (simp add: fm_write_entries_def fm_read_all_entries_def)
qed

definition fm_contents :: "mlog_codec \<Rightarrow> FileMetadataLog \<Rightarrow> MetadataLogEntry list" where
  "fm_contents codec self = (case fm_read_all_entries codec None self of Inr es \<Rightarrow> es | Inl _ \<Rightarrow> [])"

definition fm_inv :: "mlog_codec \<Rightarrow> FileMetadataLog \<Rightarrow> bool" where
  "fm_inv codec self \<longleftrightarrow> mlog_codec_ok codec \<and> \<not> fm_poisoned self
     \<and> fm_read_all_entries codec None self = Inr (fm_contents codec self)
     \<and> consecutive (fm_contents codec self)"

lemma fm_write_inv:
  assumes "fm_inv codec s" "consecutive es"
  shows "\<exists>s'. fm_write_entries codec None es s = (s', Inr ()) \<and> fm_inv codec s' \<and> fm_contents codec s' = es"
proof -
  obtain content where c: "fm_write_entries codec None es s = (s\<lparr>fm_file := Some content\<rparr>, Inr ())"
    "fm_read_all_entries codec None (s\<lparr>fm_file := Some content\<rparr>) = Inr es"
    using write_then_read [of codec es s] assms by (auto simp: fm_inv_def)
  then show ?thesis using assms by (auto simp: fm_inv_def fm_contents_def)
qed

interpretation fm: metadata_log "fm_inv codec" "fm_contents codec" "fm_append_entry codec None"
    "fm_latest_entry codec None" "fm_read_entries codec None" "fm_clear codec None"
    "fm_truncate_from codec None" for codec
proof unfold_locales
  fix s assume inv: "fm_inv codec s"
  show "consecutive (fm_contents codec s)" using inv by (simp add: fm_inv_def)
  show "fm_read_entries codec None s = Inr (fm_contents codec s)"
    using inv by (simp add: fm_inv_def fm_read_entries_def)
  show "fm_latest_entry codec None s = Inr (last_entry (fm_contents codec s))"
    using inv by (simp add: fm_inv_def fm_latest_entry_def)
  show "\<exists>s'. fm_clear codec None s = (s', Inr ()) \<and> fm_inv codec s' \<and> fm_contents codec s' = []"
    using fm_write_inv [OF inv, of "[]"] inv by (simp add: fm_clear_def fm_inv_def)
  show "\<exists>s'. fm_truncate_from codec None i s = (s', Inr ()) \<and> fm_inv codec s'
      \<and> fm_contents codec s' = spec_op (LTruncate i) (fm_contents codec s)" for i
    using fm_write_inv [OF inv consecutive_filter, of "fm_contents codec s" "first_kept i"] inv
    by (simp add: fm_truncate_from_def fm_inv_def)
  fix t sn assume room: "room 1 (fm_contents codec s)"
  let ?e = "\<lparr>ml_term = t, ml_index = next_log_index (fm_contents codec s), ml_snapshot = sn\<rparr>"
  obtain s' where "fm_write_entries codec None (fm_contents codec s @ [?e]) s = (s', Inr ())"
    "fm_inv codec s'" "fm_contents codec s' = fm_contents codec s @ [?e]"
    using fm_write_inv [OF inv consecutive_spec_append, of "fm_contents codec s" 0 t sn] inv room
    by (auto simp: fm_inv_def)
  then show "\<exists>s'. fm_append_entry codec None t sn s = (s', Inr ?e) \<and> fm_inv codec s'
      \<and> fm_contents codec s' = spec_op (LAppend t sn) (fm_contents codec s)"
    using inv by (simp add: fm_append_entry_def fm_inv_def Let_def)
qed

section \<open>Properties\<close>

fun im_op :: "log_op \<Rightarrow> InMemoryMetadataLog \<Rightarrow> InMemoryMetadataLog" where
  "im_op (LAppend t sn) s = fst (im_append_entry t sn s)"
| "im_op LClear s = fst (im_clear s)"
| "im_op (LTruncate i) s = fst (im_truncate_from i s)"

fun fm_op :: "mlog_codec \<Rightarrow> log_op \<Rightarrow> FileMetadataLog \<Rightarrow> FileMetadataLog" where
  "fm_op codec (LAppend t sn) s = fst (fm_append_entry codec None t sn s)"
| "fm_op codec LClear s = fst (fm_clear codec None s)"
| "fm_op codec (LTruncate i) s = fst (fm_truncate_from codec None i s)"

lemma run_op_im: "im.run_op = im_op"
  by (rule ext, rule ext) (case_tac x; simp)

lemma run_op_fm: "fm.run_op codec = fm_op codec"
  by (rule ext, rule ext) (case_tac x; simp)

lemma fresh_file_inv:
  "mlog_codec_ok codec \<Longrightarrow> fm_inv codec (FileMetadataLog_with_replay_policy None policy)"
  "fm_contents codec (FileMetadataLog_with_replay_policy None policy) = []"
  by (simp_all add: fm_inv_def fm_contents_def fm_read_all_entries_def
      FileMetadataLog_with_replay_policy_def)

text \<open>
  C11. The in-memory log and the file log implement the same abstract log: after any sequence of
  appends, clears and truncations that fits the 64-bit index, both return the list the abstract
  operations build, in full and as its latest entry, with consecutive positive indices; the file
  log does so by encoding, writing, reading and decoding its whole content at every step.
\<close>

theorem metadata_logs_refine_list:
  fixes codec policy ops
  assumes codec: "mlog_codec_ok codec" and fits: "length ops < 2 ^ 64"
  defines "im \<equiv> fold im_op ops InMemoryMetadataLog_new"
    and "fm \<equiv> fold (fm_op codec) ops (FileMetadataLog_with_replay_policy None policy)"
    and "es \<equiv> fold spec_op ops []"
  shows "im_read_entries im = Inr es \<and> im_latest_entry im = Inr (last_entry es)
    \<and> fm_read_entries codec None fm = Inr es \<and> fm_latest_entry codec None fm = Inr (last_entry es)
    \<and> consecutive es"
proof -
  have room: "room (length ops) []" using fits by (simp add: room_def last_index_def)
  have im: "(\<not> im_poisoned im \<and> consecutive (im_entries im)) \<and> im_entries im = es"
    using im.run_ops [of InMemoryMetadataLog_new ops] room
    by (auto simp: run_op_im im_def es_def InMemoryMetadataLog_new_def)
  have fm: "fm_inv codec fm \<and> fm_contents codec fm = es"
    using fm.run_ops [of codec "FileMetadataLog_with_replay_policy None policy" ops]
      fresh_file_inv(1) [OF codec, of policy] room
    by (simp add: run_op_fm fm_def es_def fresh_file_inv(2))
  show ?thesis
    using im fm im.read [of im] im.latest [of im] fm.read [of codec fm] fm.latest [of codec fm] by auto
qed

text \<open>
  C25. Torn tails are recovered within the policy's bound and only there.  Take a file that holds
  encoded entries followed by a line the decoder rejects and any further lines.  If one of these lines
  is not UTF-8 (a tail torn inside a character), the read fails with an I/O error under every policy.
  Otherwise the strict policy fails with the first bad line's number, and the tail policy returns
  exactly the entries before it when at most its bound of non-blank non-comment lines is lost, and
  fails otherwise.
\<close>

theorem file_log_tail_recovery:
  assumes codec: "mlog_codec_ok codec" and es: "consecutive es" "encode_entries codec es = (ls, None)"
    and plain: "\<forall>l \<in> set (ls @ junk # tail). plain_line l"
    and junk: "content_line junk" "dec_line codec (trim junk) = Inl error"
    and content: "fm_file self = Some (unlines (ls @ junk # tail))"
  shows "fm_read_all_entries codec None self =
    (if \<not> list_all utf8_valid (junk # tail) then Inl (Io ''stream did not contain valid UTF-8'')
     else case fm_replay_policy self of
       Strict \<Rightarrow> Inl (parse_with_line error (length es + 1))
     | TruncateTail m \<Rightarrow>
         if length (filter content_line (junk # tail)) \<le> m then Inr es
         else Inl (parse_with_line error (length es + 1)))"
proof -
  have ls: "lines (unlines (ls @ junk # tail)) = ls @ junk # tail" by (rule lines_unlines_id [OF plain])
  have valid: "list_all utf8_valid ls" using encode_entries_total [OF codec, of es] es(2) by auto
  have "read_lines codec (fm_replay_policy self) 0 (ls @ junk # tail) []
      = read_lines codec (fm_replay_policy self) (length es) (junk # tail) es"
    using read_encoded [OF codec es(2), of "[]" _ 0 "junk # tail"] es(1) by simp
  also have "\<dots> = recoverable_tail_error (fm_replay_policy self) (parse_with_line error (length es + 1))
      (length (filter content_line (junk # tail))) es"
    using junk by (simp add: remaining_tail_lines_def)
  finally show ?thesis
    using content valid ls by (simp add: fm_read_all_entries_def recoverable_tail_error_def invalid_utf8_def
        split: FileMetadataReplayPolicy.split)
qed

text \<open>
  A rewrite is not atomic: when the write of an append fails after the file was created anew,
  the append reports the error and every entry stored before it is gone.
\<close>

theorem file_log_failed_write_loses_entries:
  assumes "fm_inv codec self"
  shows "\<exists>self'. fm_append_entry codec (Some (FileWriteFails 0 error)) t sn self = (self', Inl (Io error))
    \<and> fm_read_entries codec None self' = Inr []"
proof -
  let ?es = "fm_contents codec self"
  let ?e = "\<lparr>ml_term = t, ml_index = next_log_index ?es, ml_snapshot = sn\<rparr>"
  have codec: "mlog_codec_ok codec" using assms by (simp add: fm_inv_def)
  obtain ls where ls: "encode_entries codec (?es @ [?e]) = (ls, None)"
    using encode_entries_total [OF codec] by blast
  then have "ls \<noteq> []" by (cases ?es) (auto split: sum.splits prod.splits)
  then have "0 < length (unlines ls)" by (cases ls) (simp_all add: unlines_def)
  moreover have "fm_read_all_entries codec (Some (FileWriteFails 0 error)) self = Inr ?es"
    using assms by (auto simp: fm_inv_def fm_read_all_entries_def split: option.splits)
  ultimately show ?thesis using ls assms
    by (simp add: fm_append_entry_def fm_write_entries_def fm_read_entries_def fm_read_all_entries_def
        fm_inv_def Let_def)
qed

text \<open>
  A stored line loses nothing: an entry with a positive index is encoded (its assignments keyed
  by their serialized resource, which orders them differently) to a line that reads back as
  exactly that entry under every replay policy.
\<close>

theorem entry_line_roundtrip:
  assumes "mlog_codec_ok codec" "ml_index e \<noteq> 0"
  shows "\<exists>l. encode_entry codec e = Inr l \<and> lines (unlines [l]) = [l]
    \<and> read_lines codec policy 0 [l] [] = Inr [e]"
proof -
  obtain ls where ls: "encode_entries codec [e] = (ls, None)" "\<forall>l \<in> set ls. plain_line l"
    using encode_entries_total [OF assms(1)] by blast
  then obtain l where l: "encode_entry codec e = Inr l" "ls = [l]" by (auto split: sum.splits)
  have "read_lines codec policy 0 (ls @ []) [] = Inr [e]"
    using read_encoded [OF assms(1) ls(1), of "[]" policy 0 "[]"] assms(2) by simp
  then show ?thesis using l ls(2) lines_unlines_id [of ls] by simp
qed

section \<open>Witnesses\<close>

instance PersistedCoordinationSnapshot_ext :: (countable) countable
  by (rule countable_classI [of "\<lambda>r. to_nat (bt_entries (pc_nodes r), bt_entries (pc_assignments r),
        bt_entries (pc_resources r), bt_entries (pc_attributes r), pc_generation r,
        PersistedCoordinationSnapshot.more r)"]) (simp add: bt_entries_inject)

instance PersistedMetadataLogEntry_ext :: (countable) countable
  by (rule countable_classI [of "\<lambda>r. to_nat (pe_term r, pe_index r, pe_snapshot r,
        PersistedMetadataLogEntry.more r)"]) simp

definition unary_mlog :: mlog_codec where
  "unary_mlog = \<lparr>enc_key = unary_encode, dec_key = unary_decode,
     enc_line = unary_encode, dec_line = unary_decode\<rparr>"

lemma unary_mlog_ok: "mlog_codec_ok unary_mlog"
  by (auto simp: mlog_codec_ok_def unary_mlog_def unary_laws)

definition demo_log_ops :: "log_op list" where
  "demo_log_ops = [LAppend 1 CoordinationSnapshot_default, LAppend 1 (demo_snapshot ''a'' [] 1 1), LTruncate 2]"

definition demo_log_list :: "MetadataLogEntry list" where
  "demo_log_list = [\<lparr>ml_term = 1, ml_index = 2, ml_snapshot = demo_snapshot ''a'' [] 1 1\<rparr>]"

lemma demo_log_spec: "fold spec_op demo_log_ops [] = demo_log_list"
  by code_simp

theorem metadata_logs_refine_list_witness:
  "fm_read_entries unary_mlog None
     (fold (fm_op unary_mlog) demo_log_ops (FileMetadataLog_with_replay_policy None Strict)) = Inr demo_log_list
   \<and> im_read_entries (fold im_op demo_log_ops InMemoryMetadataLog_new) = Inr demo_log_list"
proof -
  have "length demo_log_ops < 2 ^ 64" by (simp add: demo_log_ops_def)
  from metadata_logs_refine_list [OF unary_mlog_ok this, of Strict] show ?thesis
    by (simp add: demo_log_spec)
qed

theorem entry_line_roundtrip_witness:
  "\<exists>l. encode_entry unary_mlog (hd demo_log_list) = Inr l
     \<and> read_lines unary_mlog Strict 0 [l] [] = Inr demo_log_list"
  using entry_line_roundtrip [OF unary_mlog_ok, of "hd demo_log_list" Strict]
  by (auto simp: demo_log_list_def simp del: read_lines.simps)

theorem file_log_tail_recovery_witness:
  "\<exists>ls. encode_entries unary_mlog demo_log_list = (ls, None)
     \<and> fm_read_all_entries unary_mlog None \<lparr>fm_file = Some (unlines (ls @ [''{torn''])),
           fm_poisoned = False, fm_replay_policy = TruncateTail 1\<rparr> = Inr demo_log_list
     \<and> fm_read_all_entries unary_mlog None \<lparr>fm_file = Some (unlines (ls @ [''{torn''])),
           fm_poisoned = False, fm_replay_policy = Strict\<rparr> = Inl (parse_with_line ''syntax'' 2)
     \<and> fm_read_all_entries unary_mlog None \<lparr>fm_file = Some (unlines (ls @ [''{torn'', [CHR 0xC3]])),
           fm_poisoned = False, fm_replay_policy = TruncateTail 2\<rparr> = Inl (Io ''stream did not contain valid UTF-8'')"
proof -
  obtain ls where ls: "encode_entries unary_mlog demo_log_list = (ls, None)" "\<forall>l \<in> set ls. plain_line l"
    using encode_entries_total [OF unary_mlog_ok] by blast
  have c: "consecutive demo_log_list" by (simp add: demo_log_list_def)
  have p: "\<forall>l \<in> set (ls @ ''{torn'' # []). plain_line l" "\<forall>l \<in> set (ls @ ''{torn'' # [[CHR 0xC3]]). plain_line l"
    using ls(2) by (simp_all add: plain_line_def)
  have t: "trim ''{torn'' = ''{torn''" by code_simp
  have u: "utf8_valid ''{torn''" "\<not> utf8_valid [CHR 0xC3]" by code_simp+
  have j: "content_line ''{torn''" "dec_line unary_mlog (trim ''{torn'') = Inl ''syntax''"
    by (simp add: content_line_def t)
      (simp add: t unary_mlog_def unary_decode_def unary_text_def eval_nat_numeral)
  note read = file_log_tail_recovery [OF unary_mlog_ok c ls(1) p(1) j]
  show ?thesis
    using ls(1) j(1) u read [of
        "\<lparr>fm_file = Some (unlines (ls @ [''{torn''])), fm_poisoned = False, fm_replay_policy = TruncateTail 1\<rparr>"]
      read [of "\<lparr>fm_file = Some (unlines (ls @ [''{torn''])), fm_poisoned = False, fm_replay_policy = Strict\<rparr>"]
      file_log_tail_recovery [OF unary_mlog_ok c ls(1) p(2) j, of
        "\<lparr>fm_file = Some (unlines (ls @ [''{torn'', [CHR 0xC3]])), fm_poisoned = False, fm_replay_policy = TruncateTail 2\<rparr>"]
    by (simp add: demo_log_list_def numeral_2_eq_2 del: utf8_valid.simps)
qed

theorem file_log_failed_write_loses_entries_witness:
  "\<exists>self self'. fm_read_entries unary_mlog None self = Inr demo_log_list
     \<and> fm_append_entry unary_mlog (Some (FileWriteFails 0 ''disk full'')) 1 CoordinationSnapshot_default self
         = (self', Inl (Io ''disk full''))
     \<and> fm_read_entries unary_mlog None self' = Inr []"
proof -
  let ?self = "fold (fm_op unary_mlog) demo_log_ops (FileMetadataLog_with_replay_policy None Strict)"
  have "length demo_log_ops < 2 ^ 64" by (simp add: demo_log_ops_def)
  then have "fm_inv unary_mlog ?self \<and> fm_contents unary_mlog ?self = demo_log_list"
    using fm.run_ops [of unary_mlog "FileMetadataLog_with_replay_policy None Strict" demo_log_ops]
      fresh_file_inv(1) [OF unary_mlog_ok, of Strict] fresh_file_inv(2) [of unary_mlog Strict]
    by (simp add: run_op_fm demo_log_spec room_def last_index_def)
  then show ?thesis
    using file_log_failed_write_loses_entries [of unary_mlog ?self "''disk full''" 1
        CoordinationSnapshot_default] fm.read [of unary_mlog ?self] by auto
qed

end
