(* ===== verification/Replay_Profile.thy ===== *)
theory Replay_Profile
  imports Placement Metadata_Log
begin

text \<open>
  The error type of \<^verbatim>\<open>ganglion-openraft/src/lib.rs\<close> and the start-up replay profile: its
  conversion from and to the file log's replay policy, its textual form, and its resolution from
  an explicit setting or the environment.  The process environment is the argument \<open>env\<close>; the
  Unicode escaping of \<^verbatim>\<open>Debug\<close> for strings is the argument \<open>debug_str\<close>.
\<close>

section \<open>Errors\<close>

datatype OpenraftAdapterError =
    NotLeader
  | StaleGenerationError
  | GenerationMismatchError u64 u64
  | AttributeMismatchError string "string option"
  | PoisonedState
  | StaleTerm
  | Planner PlacementError
  | Config string
  | Storage string

definition debug_option :: "(string \<Rightarrow> string) \<Rightarrow> string option \<Rightarrow> string" where
  "debug_option debug_str v =
     (case v of None \<Rightarrow> ''None'' | Some s \<Rightarrow> ''Some('' @ debug_str s @ '')'')"

fun debug_PlacementError :: "PlacementError \<Rightarrow> string" where
  "debug_PlacementError NoNodesForResources = ''NoNodesForResources''"

fun display_OpenraftAdapterError :: "(string \<Rightarrow> string) \<Rightarrow> OpenraftAdapterError \<Rightarrow> string" where
  "display_OpenraftAdapterError debug_str NotLeader = ''metadata write attempted by non-leader''"
| "display_OpenraftAdapterError debug_str StaleGenerationError =
     ''snapshot generation is older than current generation''"
| "display_OpenraftAdapterError debug_str (GenerationMismatchError expected actual) =
     ''guarded write expected generation '' @ show_nat (unat expected) @ '' but found '' @ show_nat (unat actual)"
| "display_OpenraftAdapterError debug_str (AttributeMismatchError key actual) =
     ''attribute CAS on `'' @ key @ ''` found unexpected value '' @ debug_option debug_str actual"
| "display_OpenraftAdapterError debug_str PoisonedState = ''consensus state lock was poisoned''"
| "display_OpenraftAdapterError debug_str StaleTerm = ''proposal term is older than current leader term''"
| "display_OpenraftAdapterError debug_str (Config error) = ''configuration error: '' @ error"
| "display_OpenraftAdapterError debug_str (Planner error) = ''planner error: '' @ debug_PlacementError error"
| "display_OpenraftAdapterError debug_str (Storage error) = ''storage error: '' @ error"

definition from_MetadataLogError :: "MetadataLogError \<Rightarrow> OpenraftAdapterError" where
  "from_MetadataLogError error = Storage (display_MetadataLogError error)"

section \<open>Profiles\<close>

datatype PersistedMetadataReplayProfile =
    ProfileStrict
  | ProfileDefault
  | ProfileTruncateTail nat

definition DEFAULT_TAIL_REPLAY_LIMIT :: nat where
  "DEFAULT_TAIL_REPLAY_LIMIT = 1"

definition env_var_name :: string where
  "env_var_name = ''GANGLION_PERSISTED_REPLAY_PROFILE''"

definition to_replay_policy :: "PersistedMetadataReplayProfile \<Rightarrow> FileMetadataReplayPolicy" where
  "to_replay_policy self =
     (case self of
        ProfileStrict \<Rightarrow> Strict
      | ProfileDefault \<Rightarrow> TruncateTail DEFAULT_TAIL_REPLAY_LIMIT
      | ProfileTruncateTail max_tail_lines \<Rightarrow> TruncateTail max_tail_lines)"

definition from_replay_policy :: "FileMetadataReplayPolicy \<Rightarrow> PersistedMetadataReplayProfile" where
  "from_replay_policy policy =
     (case policy of
        Strict \<Rightarrow> ProfileStrict
      | TruncateTail max_tail_lines \<Rightarrow>
          if max_tail_lines = DEFAULT_TAIL_REPLAY_LIMIT then ProfileDefault
          else ProfileTruncateTail max_tail_lines)"

definition parse_tail_limit :: "string \<Rightarrow> (OpenraftAdapterError, PersistedMetadataReplayProfile) result" where
  "parse_tail_limit suffix =
     (case parse_usize suffix of
        Inl error \<Rightarrow> Inl (Config (''invalid tail limit `'' @ suffix @ ''`: '' @ display_ParseIntError error))
      | Inr max_tail_lines \<Rightarrow> Inr (ProfileTruncateTail max_tail_lines))"

definition profile_from_str :: "string \<Rightarrow> (OpenraftAdapterError, PersistedMetadataReplayProfile) result" where
  "profile_from_str raw =
     (let normalized = to_ascii_lowercase (trim raw) in
      if normalized = [] \<or> normalized = ''default'' then Inr ProfileDefault
      else if normalized = ''strict'' then Inr ProfileStrict
      else if normalized = ''resilient'' then Inr ProfileDefault
      else case strip_prefix ''truncate_tail:'' normalized of
        Some suffix \<Rightarrow> parse_tail_limit suffix
      | None \<Rightarrow>
          (case strip_prefix ''tail:'' normalized of
             Some suffix \<Rightarrow> parse_tail_limit suffix
           | None \<Rightarrow>
               (case parse_usize normalized of
                  Inr max_tail_lines \<Rightarrow> Inr (ProfileTruncateTail max_tail_lines)
                | Inl error \<Rightarrow>
                    Inl (Config (''invalid persisted replay profile `'' @ raw @ ''`: ''
                           @ display_ParseIntError error)))))"

section \<open>Resolution\<close>

datatype PersistedMetadataReplayProfileSource = SourceDefault | SourceEnvironment | SourceExplicit

record PersistedMetadataReplayProfileResolution =
  rs_profile :: PersistedMetadataReplayProfile
  rs_source :: PersistedMetadataReplayProfileSource

text \<open>\<^verbatim>\<open>std::env::VarError\<close>, with the message of the second form.\<close>

datatype VarError = NotPresent | NotUnicode string

type_synonym environment = "string \<Rightarrow> (VarError, string) result"

definition from_profile :: "PersistedMetadataReplayProfile \<Rightarrow> PersistedMetadataReplayProfileResolution" where
  "from_profile profile = \<lparr>rs_profile = profile, rs_source = SourceExplicit\<rparr>"

definition resolved ::
    "PersistedMetadataReplayProfileSource \<Rightarrow> string \<Rightarrow>
     (OpenraftAdapterError, PersistedMetadataReplayProfileResolution) result" where
  "resolved source raw =
     (case profile_from_str raw of
        Inl error \<Rightarrow> Inl error
      | Inr profile \<Rightarrow> Inr \<lparr>rs_profile = profile, rs_source = source\<rparr>)"

definition from_env_or_default ::
    "environment \<Rightarrow> (OpenraftAdapterError, PersistedMetadataReplayProfileResolution) result" where
  "from_env_or_default env =
     (case env env_var_name of
        Inr raw \<Rightarrow> resolved SourceEnvironment raw
      | Inl NotPresent \<Rightarrow> Inr \<lparr>rs_profile = ProfileDefault, rs_source = SourceDefault\<rparr>
      | Inl (NotUnicode error) \<Rightarrow> Inl (Config (''failed to read '' @ env_var_name @ '': '' @ error)))"

definition from_explicit_or_env ::
    "environment \<Rightarrow> string option \<Rightarrow>
     (OpenraftAdapterError, PersistedMetadataReplayProfileResolution) result" where
  "from_explicit_or_env env explicit =
     (case explicit of
        Some raw \<Rightarrow> resolved SourceExplicit raw
      | None \<Rightarrow> from_env_or_default env)"

definition replay_profile :: "PersistedMetadataReplayProfileResolution \<Rightarrow> PersistedMetadataReplayProfile" where
  "replay_profile self = rs_profile self"

definition from_env_var :: "environment \<Rightarrow> (OpenraftAdapterError, PersistedMetadataReplayProfile) result" where
  "from_env_var env =
     (case from_env_or_default env of Inl error \<Rightarrow> Inl error | Inr resolution \<Rightarrow> Inr (rs_profile resolution))"

section \<open>Whitespace and case around a setting\<close>

text \<open>Whitespace words are a prefix code in both directions, so a run of them is trimmed word by word.\<close>

definition prefix_code :: "string list \<Rightarrow> bool" where
  "prefix_code ws \<longleftrightarrow> (\<forall>v \<in> set ws. v \<noteq> [] \<and>
     (\<forall>w \<in> set ws. w = v \<or> (length w \<le> length v \<and> take (length w) v \<noteq> w)
        \<or> (length v < length w \<and> take (length v) w \<noteq> v)))"

lemma prefix_code_whitespace: "prefix_code whitespace" "prefix_code (map rev whitespace)"
  by code_simp+

lemma strip_any_code:
  assumes "prefix_code ws" "v \<in> set ws"
  shows "strip_any ws (v @ s) = Some s"
proof -
  have v: "v \<noteq> []" using assms by (simp add: prefix_code_def)
  have match: "w = v" if "w \<in> set ws" "take (length w) (v @ s) = w" for w
  proof (rule ccontr)
    assume ne: "w \<noteq> v"
    have "w = v \<or> (length w \<le> length v \<and> take (length w) v \<noteq> w)
        \<or> (length v < length w \<and> take (length v) w \<noteq> v)"
      using assms that(1) unfolding prefix_code_def by (elim ballE conjE) auto
    with ne consider "length w \<le> length v" "take (length w) v \<noteq> w"
      | "length v < length w" "take (length v) w \<noteq> v" by (elim disjE conjE) simp_all
    then show False
    proof cases
      case 1
      then show False using that(2) by simp
    next
      case 2
      then have "take (length v) (take (length w) (v @ s)) = v" by simp
      then show False using 2(2) by (simp only: that(2))
    qed
  qed
  have "v \<in> set us \<Longrightarrow> set us \<subseteq> set ws \<Longrightarrow> strip_any us (v @ s) = Some s" for us
  proof (induction us)
    case (Cons w us)
    show ?case
    proof (cases "w = v")
      case True
      then show ?thesis using v by simp
    next
      case False
      then have "take (length w) (v @ s) \<noteq> w" using match [of w] Cons.prems(2) by auto
      then show ?thesis using Cons False by (simp del: take_append drop_append)
    qed
  qed simp
  then show ?thesis using assms(2) by simp
qed

lemma trim_with_run:
  assumes "prefix_code ws" "set vs \<subseteq> set ws"
  shows "trim_with ws (concat vs @ s) = trim_with ws s"
  using assms(2)
proof (induction vs)
  case (Cons v vs)
  then have "strip_any ws (v @ (concat vs @ s)) = Some (concat vs @ s)"
    using strip_any_code [OF assms(1)] by simp
  then show ?case using Cons by (simp add: trim_with.simps [of ws "v @ (concat vs @ s)"])
qed simp

text \<open>A character no whitespace word begins or ends with.\<close>

definition solid :: "char \<Rightarrow> bool" where
  "solid c \<longleftrightarrow> (\<forall>w \<in> set whitespace. hd w \<noteq> c \<and> last w \<noteq> c)"

lemma trim_with_solid:
  assumes "\<forall>w \<in> set ws. w \<noteq> [] \<longrightarrow> hd w \<noteq> c"
  shows "trim_with ws (c # s) = c # s"
proof -
  have "strip_any ws (c # s) = None" using assms
  proof (induction ws)
    case (Cons w ws)
    then show ?case by (cases w) auto
  qed simp
  then show ?thesis by (simp add: trim_with.simps [of ws "c # s"])
qed

lemma trim_surrounded:
  assumes before: "set before \<subseteq> set whitespace" and after: "set after \<subseteq> set whitespace"
    and s: "s \<noteq> []" "solid (hd s)" "solid (last s)"
  shows "trim (concat before @ s @ concat after) = s"
proof -
  have ne: "\<forall>w \<in> set whitespace. w \<noteq> []" by code_simp
  have "trim_with whitespace (concat before @ s @ concat after) = trim_with whitespace (s @ concat after)"
    by (rule trim_with_run [OF prefix_code_whitespace(1) before])
  also have "\<dots> = s @ concat after"
  proof -
    obtain c cs where c: "s = c # cs" using s(1) by (cases s) auto
    have "\<forall>w \<in> set whitespace. w \<noteq> [] \<longrightarrow> hd w \<noteq> c" using s(2) c by (simp add: solid_def)
    from trim_with_solid [OF this] show ?thesis using c by simp
  qed
  finally have 1: "trim_with whitespace (concat before @ s @ concat after) = s @ concat after" .
  have "rev (s @ concat after) = concat (map rev (rev after)) @ rev s" by (simp add: rev_concat rev_map)
  then have "trim_with (map rev whitespace) (rev (s @ concat after)) = trim_with (map rev whitespace) (rev s)"
    using trim_with_run [OF prefix_code_whitespace(2), of "map rev (rev after)" "rev s"] after by auto
  also have "\<dots> = rev s"
  proof -
    obtain c cs where c: "rev s = c # cs" using s(1) by (cases "rev s") auto
    then have "last s = c" by (metis last_rev list.sel(1) rev_rev_ident rev_is_Nil_conv list.discI)
    then have "\<forall>w \<in> set (map rev whitespace). w \<noteq> [] \<longrightarrow> hd w \<noteq> c"
      using s(3) ne by (auto simp: solid_def hd_rev)
    from trim_with_solid [OF this] show ?thesis using c by simp
  qed
  finally show ?thesis by (simp add: trim_def 1)
qed

lemma solid_ascii: "CHR '' '' < c \<Longrightarrow> c \<le> CHR ''~'' \<Longrightarrow> solid c"
proof -
  have "\<forall>w \<in> set whitespace. \<not> (CHR '' '' < hd w \<and> hd w \<le> CHR ''~'') \<and> \<not> (CHR '' '' < last w \<and> last w \<le> CHR ''~'')"
    by code_simp
  then show "CHR '' '' < c \<Longrightarrow> c \<le> CHR ''~'' \<Longrightarrow> solid c" by (auto simp: solid_def)
qed

lemma solid_digit: "is_digit c \<Longrightarrow> solid c"
  by (rule solid_ascii) (auto simp: is_digit_def less_eq_char_def less_char_def)

lemma solid_letter: "solid (ascii_lower c) \<Longrightarrow> solid c"
proof (cases "CHR ''A'' \<le> c \<and> c \<le> CHR ''Z''")
  case True
  then show ?thesis by (intro solid_ascii) (auto simp: less_eq_char_def less_char_def)
qed (simp add: ascii_lower_def)

lemma lower_digit: "is_digit c \<Longrightarrow> ascii_lower c = c"
  by (auto simp: is_digit_def ascii_lower_def less_eq_char_def)

lemma lower_show_nat [simp]: "to_ascii_lowercase (show_nat n) = show_nat n"
  by (auto simp: to_ascii_lowercase_def lower_digit show_nat_digits intro: map_idI)

lemma lower_append [simp]: "to_ascii_lowercase (s @ t) = to_ascii_lowercase s @ to_ascii_lowercase t"
  by (simp add: to_ascii_lowercase_def)

lemma solid_prefixes: "\<forall>c \<in> set ''truncate_tail:''. solid c"
  by (auto intro!: solid_ascii simp: less_eq_char_def less_char_def)

lemma strip_prefix_append [simp]: "strip_prefix p (p @ s) = Some s"
  by (simp add: strip_prefix_def)

lemma show_nat_head: obtains c cs where "show_nat n = c # cs" "is_digit c"
  using show_nat_digits [of "hd (show_nat n)" n] by (cases "show_nat n") auto

lemma digit_cases: "is_digit c \<Longrightarrow> c \<noteq> CHR ''t'' \<and> c \<noteq> CHR ''d'' \<and> c \<noteq> CHR ''s'' \<and> c \<noteq> CHR ''r''"
  by (auto simp: is_digit_def less_eq_char_def)

lemma from_str_limit:
  assumes "n \<le> usize_max" "trim raw = p @ show_nat n"
    and "to_ascii_lowercase p \<in> {''truncate_tail:'', ''tail:'', ''''}"
  shows "profile_from_str raw = Inr (ProfileTruncateTail n)"
proof -
  obtain c cs where c: "show_nat n = c # cs" "is_digit c" by (rule show_nat_head)
  note d = digit_cases [OF c(2)]
  note parse = parse_usize_show_nat [OF assms(1), unfolded c(1)]
  have "to_ascii_lowercase (trim raw) = to_ascii_lowercase p @ c # cs"
    using assms(2) lower_show_nat [of n] c(1) by simp
  then show ?thesis
    using assms(3) parse d
    by (elim insertE) (auto simp: profile_from_str_def Let_def parse_tail_limit_def strip_prefix_def)
qed

section \<open>Properties\<close>

text \<open>
  Every documented spelling of a tail limit is accepted: a decimal \<^verbatim>\<open>usize\<close>, alone or after
  \<^verbatim>\<open>tail:\<close> or \<^verbatim>\<open>truncate_tail:\<close> in any letter case, with any run of Unicode whitespace around it,
  parses to that limit, and the limit reaches the file log's replay policy unchanged.
\<close>

theorem profile_limit_roundtrip:
  assumes "n \<le> usize_max" "to_ascii_lowercase p \<in> {''truncate_tail:'', ''tail:'', ''''}"
    and "set before \<subseteq> set whitespace" "set after \<subseteq> set whitespace"
  shows "\<exists>profile. profile_from_str (concat before @ (p @ show_nat n) @ concat after) = Inr profile
    \<and> to_replay_policy profile = TruncateTail n
    \<and> to_replay_policy (from_replay_policy (TruncateTail n)) = TruncateTail n"
proof -
  have chars: "solid c" if "c \<in> set p" for c
  proof -
    have "ascii_lower c \<in> set (to_ascii_lowercase p)" using that by (simp add: to_ascii_lowercase_def)
    then have "ascii_lower c \<in> set ''truncate_tail:''" using assms(2) by auto
    then show ?thesis using solid_prefixes solid_letter by blast
  qed
  obtain c cs where c: "show_nat n = c # cs" "is_digit c" by (rule show_nat_head)
  have "solid (hd (p @ show_nat n))" using chars c solid_digit by (cases p) auto
  moreover have "solid (last (p @ show_nat n))"
    using solid_digit [OF show_nat_digits [of "last (show_nat n)" n]] by simp
  ultimately have "trim (concat before @ (p @ show_nat n) @ concat after) = p @ show_nat n"
    by (intro trim_surrounded assms) auto
  from from_str_limit [OF assms(1) this assms(2)] show ?thesis
    by (simp add: to_replay_policy_def from_replay_policy_def DEFAULT_TAIL_REPLAY_LIMIT_def)
qed

theorem profile_limit_roundtrip_witness:
  "profile_from_str '' TAIL:42 '' = Inr (ProfileTruncateTail 42)
   \<and> to_replay_policy (ProfileTruncateTail 42) = TruncateTail 42"
proof -
  have n: "show_nat 42 = ''42''" by code_simp
  have l: "to_ascii_lowercase ''TAIL:'' = ''tail:''" by code_simp
  have w: "set ['' ''] \<subseteq> set whitespace" by code_simp
  have u: "(42::nat) \<le> usize_max" by (simp add: usize_max_def)
  obtain profile where "profile_from_str (concat ['' ''] @ (''TAIL:'' @ show_nat 42) @ concat ['' '']) = Inr profile"
    "to_replay_policy profile = TruncateTail 42"
    using profile_limit_roundtrip [OF u _ w w, of "''TAIL:''"] l by auto
  moreover have "profile_from_str '' TAIL:42 '' = Inr (ProfileTruncateTail 42)" by code_simp
  ultimately show ?thesis by (simp add: n)
qed

end
