(* ===== verification/Consensus_Node.thy ===== *)
theory Consensus_Node
  imports Replay_Profile
begin

text \<open>
  The single-process consensus adapter of \<^verbatim>\<open>ganglion-openraft/src/lib.rs\<close>: the store with its
  leader, term and snapshot, the metadata node over a metadata log, and the persisted node with its
  constructors.

  A \<^verbatim>\<open>dyn MetadataLog\<close> is the record \<open>log_ops\<close> of the operations the adapter calls, over the
  log's state \<open>'l\<close>.  A poisoned store lock is a flag of the node.  A planner is a function from
  the placement input, as \<open>deterministic_plan\<close> and \<open>least_loaded_plan\<close> are.
\<close>

section \<open>The log behind a node\<close>

record 'l log_ops =
  lo_append :: "u64 \<Rightarrow> CoordinationSnapshot \<Rightarrow> 'l \<Rightarrow> 'l \<times> (MetadataLogError, MetadataLogEntry) result"
  lo_latest :: "'l \<Rightarrow> (MetadataLogError, MetadataLogEntry option) result"
  lo_entries :: "'l \<Rightarrow> (MetadataLogError, MetadataLogEntry list) result"
  lo_clear :: "'l \<Rightarrow> 'l \<times> (MetadataLogError, unit) result"

definition in_memory_ops :: "InMemoryMetadataLog log_ops" where
  "in_memory_ops = \<lparr>lo_append = im_append_entry, lo_latest = im_latest_entry,
     lo_entries = im_read_entries, lo_clear = im_clear\<rparr>"

text \<open>The file log, with the file operation that fails during each call.\<close>

datatype log_call = CallAppend | CallLatest | CallEntries | CallClear

definition file_ops :: "mlog_codec \<Rightarrow> (log_call \<Rightarrow> log_fault option) \<Rightarrow> FileMetadataLog log_ops" where
  "file_ops codec fault = \<lparr>lo_append = fm_append_entry codec (fault CallAppend),
     lo_latest = fm_latest_entry codec (fault CallLatest),
     lo_entries = fm_read_entries codec (fault CallEntries),
     lo_clear = fm_clear codec (fault CallClear)\<rparr>"

section \<open>The store\<close>

record OpenraftLikeStore =
  os_current_term :: u64
  os_leader :: "string option"
  os_snapshot :: CoordinationSnapshot

definition store_new ::
    "'l log_ops \<Rightarrow> 'l \<Rightarrow> CoordinationSnapshot \<Rightarrow> (OpenraftAdapterError, OpenraftLikeStore) result" where
  "store_new ops log initial_snapshot =
     (case lo_latest ops log of
        Inl error \<Rightarrow> Inl (from_MetadataLogError error)
      | Inr latest \<Rightarrow>
          (case latest of
             Some entry \<Rightarrow>
               Inr \<lparr>os_current_term = ml_term entry, os_leader = None, os_snapshot = ml_snapshot entry\<rparr>
           | None \<Rightarrow>
               Inr \<lparr>os_current_term = 1, os_leader = None, os_snapshot = initial_snapshot\<rparr>))"

definition store_is_leader :: "OpenraftLikeStore \<Rightarrow> string \<Rightarrow> bool" where
  "store_is_leader self node_id \<longleftrightarrow> os_leader self = Some node_id"

text \<open>The append proper, after the guards and the clearing of an older term's log.\<close>

definition store_commit ::
    "'l log_ops \<Rightarrow> CoordinationSnapshot \<Rightarrow> u64 \<Rightarrow> OpenraftLikeStore \<Rightarrow> 'l \<Rightarrow>
     OpenraftLikeStore \<times> 'l \<times> (OpenraftAdapterError, MetadataLogEntry) result" where
  "store_commit ops snapshot term self log =
     (case lo_append ops term snapshot log of
        (log', Inl error) \<Rightarrow> (self, log', Inl (from_MetadataLogError error))
      | (log', Inr entry) \<Rightarrow> (self\<lparr>os_snapshot := snapshot\<rparr>, log', Inr entry))"

definition append_snapshot ::
    "'l log_ops \<Rightarrow> string \<Rightarrow> CoordinationSnapshot \<Rightarrow> u64 \<Rightarrow> OpenraftLikeStore \<Rightarrow> 'l \<Rightarrow>
     OpenraftLikeStore \<times> 'l \<times> (OpenraftAdapterError, MetadataLogEntry) result" where
  "append_snapshot ops proposer snapshot term self log =
     (if \<not> store_is_leader self proposer then (self, log, Inl NotLeader)
      else if term < os_current_term self then (self, log, Inl StaleTerm)
      else if cs_generation snapshot < cs_generation (os_snapshot self)
        then (self, log, Inl StaleGenerationError)
      else if os_current_term self < term then
        let self' = self\<lparr>os_current_term := term\<rparr> in
        (case lo_clear ops log of
           (log', Inl error) \<Rightarrow> (self', log', Inl (from_MetadataLogError error))
         | (log', Inr _) \<Rightarrow> store_commit ops snapshot term self' log')
      else store_commit ops snapshot term self log)"

section \<open>The node\<close>

record 'l MetadataNode =
  mn_local_node_id :: string
  mn_store :: OpenraftLikeStore
  mn_poisoned :: bool
  mn_log :: 'l

definition node_new ::
    "'l log_ops \<Rightarrow> string \<Rightarrow> CoordinationSnapshot \<Rightarrow> 'l \<Rightarrow> (OpenraftAdapterError, 'l MetadataNode) result" where
  "node_new ops local_node_id initial_snapshot log =
     (case store_new ops log initial_snapshot of
        Inl error \<Rightarrow> Inl error
      | Inr store \<Rightarrow>
          Inr \<lparr>mn_local_node_id = local_node_id, mn_store = store, mn_poisoned = False, mn_log = log\<rparr>)"

definition with_store_read ::
    "(OpenraftLikeStore \<Rightarrow> 'r) \<Rightarrow> 'l MetadataNode \<Rightarrow> (OpenraftAdapterError, 'r) result" where
  "with_store_read p self = (if mn_poisoned self then Inl PoisonedState else Inr (p (mn_store self)))"

text \<open>A write sees the store and, through the node, its log.\<close>

definition with_store_write ::
    "(OpenraftLikeStore \<Rightarrow> 'l \<Rightarrow> OpenraftLikeStore \<times> 'l \<times> 'r) \<Rightarrow> 'l MetadataNode \<Rightarrow>
     'l MetadataNode \<times> (OpenraftAdapterError, 'r) result" where
  "with_store_write p self =
     (if mn_poisoned self then (self, Inl PoisonedState)
      else case p (mn_store self) (mn_log self) of
        (store, log, r) \<Rightarrow> (self\<lparr>mn_store := store, mn_log := log\<rparr>, Inr r))"

definition set_leader_term :: "string \<Rightarrow> u64 \<Rightarrow> 'l MetadataNode \<Rightarrow> 'l MetadataNode" where
  "set_leader_term node_id term self =
     fst (with_store_write
            (\<lambda>store log.
               let store = (if os_current_term store \<le> term then store\<lparr>os_current_term := term\<rparr> else store)
               in (store\<lparr>os_leader := Some node_id\<rparr>, log, ()))
            self)"

definition current_term :: "'l MetadataNode \<Rightarrow> u64" where
  "current_term self =
     (case with_store_read os_current_term self of Inr term \<Rightarrow> term | Inl _ \<Rightarrow> 0)"

definition set_leader :: "string \<Rightarrow> 'l MetadataNode \<Rightarrow> 'l MetadataNode" where
  "set_leader leader_id self = set_leader_term leader_id (current_term self) self"

definition clear_leader :: "'l MetadataNode \<Rightarrow> 'l MetadataNode" where
  "clear_leader self =
     fst (with_store_write (\<lambda>store log. (store\<lparr>os_leader := None\<rparr>, log, ())) self)"

definition log_len :: "'l log_ops \<Rightarrow> 'l MetadataNode \<Rightarrow> nat" where
  "log_len ops self =
     (case lo_entries ops (mn_log self) of Inr entries \<Rightarrow> length entries | Inl _ \<Rightarrow> 0)"

definition node_last_index :: "'l log_ops \<Rightarrow> 'l MetadataNode \<Rightarrow> u64" where
  "node_last_index ops self =
     (case lo_latest ops (mn_log self) of Inr (Some entry) \<Rightarrow> ml_index entry | _ \<Rightarrow> 0)"

definition node_last_term :: "'l log_ops \<Rightarrow> 'l MetadataNode \<Rightarrow> u64" where
  "node_last_term ops self =
     (case lo_latest ops (mn_log self) of Inr (Some entry) \<Rightarrow> ml_term entry | _ \<Rightarrow> 0)"

definition node_local_id :: "'l MetadataNode \<Rightarrow> string" where
  "node_local_id self = mn_local_node_id self"

definition leader_id :: "'l MetadataNode \<Rightarrow> string option" where
  "leader_id self = (if mn_poisoned self then None else os_leader (mn_store self))"

definition node_is_leader :: "'l MetadataNode \<Rightarrow> bool" where
  "node_is_leader self \<longleftrightarrow> leader_id self = Some (node_local_id self)"

definition node_snapshot :: "'l MetadataNode \<Rightarrow> CoordinationSnapshot" where
  "node_snapshot self =
     (if mn_poisoned self then CoordinationSnapshot_default else os_snapshot (mn_store self))"

definition apply_snapshot ::
    "'l log_ops \<Rightarrow> string \<Rightarrow> CoordinationSnapshot \<Rightarrow> u64 option \<Rightarrow> 'l MetadataNode \<Rightarrow>
     'l MetadataNode \<times> (OpenraftAdapterError, unit) result" where
  "apply_snapshot ops proposer snapshot term self =
     (let term = (case term of Some t \<Rightarrow> t | None \<Rightarrow> current_term self) in
      case with_store_write (append_snapshot ops proposer snapshot term) self of
        (self', Inl error) \<Rightarrow> (self', Inl error)
      | (self', Inr (Inl error)) \<Rightarrow> (self', Inl error)
      | (self', Inr (Inr _)) \<Rightarrow> (self', Inr ()))"

definition plan_and_apply ::
    "'l log_ops \<Rightarrow> string \<Rightarrow> (PlacementInput \<Rightarrow> (PlacementError, PlacementPlan) result) \<Rightarrow>
     PlacementInput \<Rightarrow> 'l MetadataNode \<Rightarrow>
     'l MetadataNode \<times> (OpenraftAdapterError, CoordinationSnapshot) result" where
  "plan_and_apply ops proposer planner input self =
     (case planner input of
        Inl error \<Rightarrow> (self, Inl (Planner error))
      | Inr plan \<Rightarrow>
          (case apply_snapshot ops proposer (pp_snapshot plan) None self of
             (self', Inl error) \<Rightarrow> (self', Inl error)
           | (self', Inr _) \<Rightarrow> (self', Inr (pp_snapshot plan))))"

section \<open>The persisted node\<close>

record 'l PersistedMetadataNode =
  pn_inner :: "'l MetadataNode"
  pn_startup_replay_profile :: PersistedMetadataReplayProfile

definition new_with_log_and_profile ::
    "'l log_ops \<Rightarrow> string \<Rightarrow> CoordinationSnapshot \<Rightarrow> 'l \<Rightarrow> PersistedMetadataReplayProfile \<Rightarrow>
     (OpenraftAdapterError, 'l PersistedMetadataNode) result" where
  "new_with_log_and_profile ops node_id initial_snapshot log startup_replay_profile =
     (case node_new ops node_id initial_snapshot log of
        Inl error \<Rightarrow> Inl error
      | Inr inner \<Rightarrow> Inr \<lparr>pn_inner = inner, pn_startup_replay_profile = startup_replay_profile\<rparr>)"

definition new_with_log ::
    "'l log_ops \<Rightarrow> string \<Rightarrow> CoordinationSnapshot \<Rightarrow> 'l \<Rightarrow>
     (OpenraftAdapterError, 'l PersistedMetadataNode) result" where
  "new_with_log ops node_id initial_snapshot log =
     new_with_log_and_profile ops node_id initial_snapshot log ProfileDefault"

text \<open>The constructors below open the file log at a path; \<open>content\<close> is what the path holds.\<close>

type_synonym file_node_result = "(OpenraftAdapterError, FileMetadataLog PersistedMetadataNode) result"

definition new_with_replay_policy ::
    "FileMetadataLog log_ops \<Rightarrow> string option \<Rightarrow> string \<Rightarrow> CoordinationSnapshot \<Rightarrow>
     FileMetadataReplayPolicy \<Rightarrow> file_node_result" where
  "new_with_replay_policy ops content node_id initial_snapshot replay_policy =
     (let profile = from_replay_policy replay_policy;
          log = (case to_replay_policy profile of
                   Strict \<Rightarrow> FileMetadataLog_new content
                 | TruncateTail _ \<Rightarrow> FileMetadataLog_with_replay_policy content replay_policy)
      in new_with_log_and_profile ops node_id initial_snapshot log profile)"

definition new_with_replay_profile ::
    "FileMetadataLog log_ops \<Rightarrow> string option \<Rightarrow> string \<Rightarrow> CoordinationSnapshot \<Rightarrow>
     PersistedMetadataReplayProfile \<Rightarrow> file_node_result" where
  "new_with_replay_profile ops content node_id initial_snapshot profile =
     new_with_replay_policy ops content node_id initial_snapshot (to_replay_policy profile)"

definition PersistedMetadataNode_new ::
    "FileMetadataLog log_ops \<Rightarrow> string option \<Rightarrow> string \<Rightarrow> CoordinationSnapshot \<Rightarrow> file_node_result" where
  "PersistedMetadataNode_new ops content node_id initial_snapshot =
     new_with_replay_profile ops content node_id initial_snapshot ProfileDefault"

definition new_strict ::
    "FileMetadataLog log_ops \<Rightarrow> string option \<Rightarrow> string \<Rightarrow> CoordinationSnapshot \<Rightarrow> file_node_result" where
  "new_strict ops content node_id initial_snapshot =
     new_with_replay_profile ops content node_id initial_snapshot ProfileStrict"

definition new_with_replay_profile_resolution ::
    "FileMetadataLog log_ops \<Rightarrow> string option \<Rightarrow> string \<Rightarrow> CoordinationSnapshot \<Rightarrow>
     PersistedMetadataReplayProfileResolution \<Rightarrow> file_node_result" where
  "new_with_replay_profile_resolution ops content node_id initial_snapshot startup_profile =
     new_with_replay_profile ops content node_id initial_snapshot (rs_profile startup_profile)"

definition new_with_replay_profile_str ::
    "FileMetadataLog log_ops \<Rightarrow> environment \<Rightarrow> string option \<Rightarrow> string \<Rightarrow> CoordinationSnapshot \<Rightarrow>
     string option \<Rightarrow>
     (OpenraftAdapterError,
      FileMetadataLog PersistedMetadataNode \<times> PersistedMetadataReplayProfileResolution) result" where
  "new_with_replay_profile_str ops env content node_id initial_snapshot raw_profile =
     (case from_explicit_or_env env raw_profile of
        Inl error \<Rightarrow> Inl error
      | Inr resolution \<Rightarrow>
          (case new_with_replay_profile ops content node_id initial_snapshot (rs_profile resolution) of
             Inl error \<Rightarrow> Inl error
           | Inr node \<Rightarrow> Inr (node, resolution)))"

definition new_with_tail_replay_limit ::
    "FileMetadataLog log_ops \<Rightarrow> string option \<Rightarrow> string \<Rightarrow> CoordinationSnapshot \<Rightarrow> nat \<Rightarrow> file_node_result" where
  "new_with_tail_replay_limit ops content node_id initial_snapshot max_tail_lines =
     new_with_replay_profile ops content node_id initial_snapshot (ProfileTruncateTail max_tail_lines)"

definition new_with_profile_env ::
    "FileMetadataLog log_ops \<Rightarrow> environment \<Rightarrow> string option \<Rightarrow> string \<Rightarrow> CoordinationSnapshot \<Rightarrow>
     file_node_result" where
  "new_with_profile_env ops env content node_id initial_snapshot =
     (case from_env_or_default env of
        Inl error \<Rightarrow> Inl error
      | Inr resolution \<Rightarrow> new_with_replay_profile_resolution ops content node_id initial_snapshot resolution)"

definition new_from_env ::
    "FileMetadataLog log_ops \<Rightarrow> environment \<Rightarrow> string option \<Rightarrow> string \<Rightarrow> CoordinationSnapshot \<Rightarrow>
     file_node_result" where
  "new_from_env ops env content node_id initial_snapshot =
     new_with_profile_env ops env content node_id initial_snapshot"

definition startup_replay_profile :: "'l PersistedMetadataNode \<Rightarrow> PersistedMetadataReplayProfile" where
  "startup_replay_profile self = pn_startup_replay_profile self"

definition startup_replay_policy :: "'l PersistedMetadataNode \<Rightarrow> FileMetadataReplayPolicy" where
  "startup_replay_policy self = to_replay_policy (pn_startup_replay_profile self)"

definition pn_apply_snapshot ::
    "'l log_ops \<Rightarrow> string \<Rightarrow> CoordinationSnapshot \<Rightarrow> u64 option \<Rightarrow> 'l PersistedMetadataNode \<Rightarrow>
     'l PersistedMetadataNode \<times> (OpenraftAdapterError, unit) result" where
  "pn_apply_snapshot ops proposer snapshot term self =
     (case apply_snapshot ops proposer snapshot term (pn_inner self) of
        (inner, r) \<Rightarrow> (self\<lparr>pn_inner := inner\<rparr>, r))"

text \<open>The other operations of the persisted node hand over to its inner node.\<close>

definition pn_set_leader_term ::
    "string \<Rightarrow> u64 \<Rightarrow> 'l PersistedMetadataNode \<Rightarrow> 'l PersistedMetadataNode" where
  "pn_set_leader_term node_id term self = self\<lparr>pn_inner := set_leader_term node_id term (pn_inner self)\<rparr>"

definition pn_set_leader :: "string \<Rightarrow> 'l PersistedMetadataNode \<Rightarrow> 'l PersistedMetadataNode" where
  "pn_set_leader new_leader self = self\<lparr>pn_inner := set_leader new_leader (pn_inner self)\<rparr>"

definition pn_clear_leader :: "'l PersistedMetadataNode \<Rightarrow> 'l PersistedMetadataNode" where
  "pn_clear_leader self = self\<lparr>pn_inner := clear_leader (pn_inner self)\<rparr>"

definition pn_plan_and_apply ::
    "'l log_ops \<Rightarrow> string \<Rightarrow> (PlacementInput \<Rightarrow> (PlacementError, PlacementPlan) result) \<Rightarrow>
     PlacementInput \<Rightarrow> 'l PersistedMetadataNode \<Rightarrow>
     'l PersistedMetadataNode \<times> (OpenraftAdapterError, CoordinationSnapshot) result" where
  "pn_plan_and_apply ops proposer planner input self =
     (case plan_and_apply ops proposer planner input (pn_inner self) of
        (inner, r) \<Rightarrow> (self\<lparr>pn_inner := inner\<rparr>, r))"

section \<open>Sequences of operations\<close>

datatype node_op =
    SetLeaderTerm string u64
  | SetLeader string
  | ClearLeader
  | Propose string CoordinationSnapshot "u64 option"

fun node_step :: "'l log_ops \<Rightarrow> node_op \<Rightarrow> 'l MetadataNode \<Rightarrow> 'l MetadataNode" where
  "node_step ops (SetLeaderTerm node_id t) n = set_leader_term node_id t n"
| "node_step ops (SetLeader node_id) n = set_leader node_id n"
| "node_step ops ClearLeader n = clear_leader n"
| "node_step ops (Propose proposer s t) n = fst (apply_snapshot ops proposer s t n)"

lemmas node_ops_defs = set_leader_term_def set_leader_def clear_leader_def apply_snapshot_def
  append_snapshot_def store_commit_def with_store_write_def with_store_read_def current_term_def
  node_snapshot_def leader_id_def Let_def

definition monotone_step :: "'l MetadataNode \<Rightarrow> 'l MetadataNode \<Rightarrow> bool" where
  "monotone_step n n' \<longleftrightarrow> mn_local_node_id n' = mn_local_node_id n \<and> mn_poisoned n' = mn_poisoned n
     \<and> os_current_term (mn_store n) \<le> os_current_term (mn_store n')
     \<and> cs_generation (os_snapshot (mn_store n)) \<le> cs_generation (os_snapshot (mn_store n'))"

lemma monotone_step_refl: "monotone_step n n"
  by (simp add: monotone_step_def)

lemma monotone_step_trans: "monotone_step a b \<Longrightarrow> monotone_step b c \<Longrightarrow> monotone_step a c"
  by (auto simp: monotone_step_def)

lemma commit_monotone:
  "store_commit ops s t self log = (self', log', r) \<Longrightarrow> cs_generation (os_snapshot self) \<le> cs_generation s \<Longrightarrow>
     os_current_term self' = os_current_term self
     \<and> cs_generation (os_snapshot self) \<le> cs_generation (os_snapshot self')"
  by (auto simp: store_commit_def split: prod.splits sum.splits)

lemma append_monotone:
  assumes "append_snapshot ops proposer s t self log = (self', log', r)"
  shows "os_current_term self \<le> os_current_term self'
    \<and> cs_generation (os_snapshot self) \<le> cs_generation (os_snapshot self')"
  using assms commit_monotone [of ops s t self log self' log' r]
    commit_monotone [of ops s t "self\<lparr>os_current_term := t\<rparr>" _ self' log' r]
  by (auto simp: append_snapshot_def Let_def not_less split: if_splits prod.splits sum.splits dest!: less_imp_le)

lemma apply_snapshot_unfold:
  assumes "\<not> mn_poisoned n"
    and "append_snapshot ops proposer s (case t of Some t \<Rightarrow> t | None \<Rightarrow> os_current_term (mn_store n))
           (mn_store n) (mn_log n) = (store, log, r)"
  shows "apply_snapshot ops proposer s t n =
    (n\<lparr>mn_store := store, mn_log := log\<rparr>, case r of Inl e \<Rightarrow> Inl e | Inr _ \<Rightarrow> Inr ())"
proof -
  have "(case t of Some t \<Rightarrow> t | None \<Rightarrow> current_term n)
      = (case t of Some t \<Rightarrow> t | None \<Rightarrow> os_current_term (mn_store n))"
    using assms(1) by (simp add: current_term_def with_store_read_def split: option.split)
  then show ?thesis
    using assms by (simp add: apply_snapshot_def with_store_write_def Let_def split: sum.split)
qed

lemma apply_snapshot_poisoned: "mn_poisoned n \<Longrightarrow> apply_snapshot ops proposer s t n = (n, Inl PoisonedState)"
  by (simp add: apply_snapshot_def with_store_write_def Let_def)

lemma apply_monotone: "monotone_step n (fst (apply_snapshot ops proposer s t n))"
proof (cases "mn_poisoned n")
  case True
  then show ?thesis by (simp add: apply_snapshot_poisoned monotone_step_def)
next
  case False
  obtain store log r where a: "append_snapshot ops proposer s
      (case t of Some t \<Rightarrow> t | None \<Rightarrow> os_current_term (mn_store n)) (mn_store n) (mn_log n) = (store, log, r)"
    using prod_cases3 by blast
  show ?thesis using append_monotone [OF a] apply_snapshot_unfold [OF False a] by (simp add: monotone_step_def)
qed

lemma node_step_monotone: "monotone_step n (node_step ops p n)"
proof (cases p)
  case (Propose proposer s t)
  then show ?thesis by (simp add: apply_monotone)
qed (auto simp: monotone_step_def set_leader_def clear_leader_def set_leader_term_def
    with_store_write_def Let_def)

lemma node_steps_monotone: "monotone_step n (fold (node_step ops) ps n)"
  by (induction ps arbitrary: n) (auto intro: monotone_step_refl monotone_step_trans node_step_monotone)

section \<open>A node over a log that keeps its contract\<close>

context metadata_log
begin

definition ops :: "'s log_ops" where
  "ops = \<lparr>lo_append = append_entry, lo_latest = latest_entry, lo_entries = read_entries, lo_clear = clear\<rparr>"

text \<open>The log's latest entry is what the store holds.\<close>

definition node_inv :: "CoordinationSnapshot \<Rightarrow> 's MetadataNode \<Rightarrow> bool" where
  "node_inv initial n \<longleftrightarrow> \<not> mn_poisoned n \<and> inv (mn_log n) \<and> 1 \<le> os_current_term (mn_store n) \<and>
     (case last_entry (contents (mn_log n)) of
        None \<Rightarrow> os_snapshot (mn_store n) = initial
      | Some e \<Rightarrow> os_snapshot (mn_store n) = ml_snapshot e \<and> ml_term e \<le> os_current_term (mn_store n))"

definition verdict :: "string \<Rightarrow> CoordinationSnapshot \<Rightarrow> u64 \<Rightarrow> 's MetadataNode \<Rightarrow> OpenraftAdapterError option" where
  "verdict proposer s t n =
     (if os_leader (mn_store n) \<noteq> Some proposer then Some NotLeader
      else if t < os_current_term (mn_store n) then Some StaleTerm
      else if cs_generation s < cs_generation (os_snapshot (mn_store n)) then Some StaleGenerationError
      else None)"

definition proposed_log :: "CoordinationSnapshot \<Rightarrow> u64 \<Rightarrow> 's MetadataNode \<Rightarrow> MetadataLogEntry list" where
  "proposed_log s t n =
     spec_op (LAppend t s) (if os_current_term (mn_store n) < t then [] else contents (mn_log n))"

lemma commit_ok:
  assumes "inv log" "room 1 (contents log)"
  shows "\<exists>log' e. store_commit ops s t self log = (self\<lparr>os_snapshot := s\<rparr>, log', Inr e)
    \<and> inv log' \<and> contents log' = spec_op (LAppend t s) (contents log)"
  using append [OF assms, of t s] by (auto simp: store_commit_def ops_def)

lemma append_snapshot_ok:
  assumes "inv log" "room 1 (contents log)" "os_leader self = Some proposer" "os_current_term self \<le> t"
    "cs_generation (os_snapshot self) \<le> cs_generation s"
  shows "\<exists>log' e. append_snapshot ops proposer s t self log
      = (self\<lparr>os_current_term := t, os_snapshot := s\<rparr>, log', Inr e)
    \<and> inv log'
    \<and> contents log' = spec_op (LAppend t s) (if os_current_term self < t then [] else contents log)"
proof (cases "os_current_term self < t")
  case True
  obtain log1 where c: "clear log = (log1, Inr ())" "inv log1" "contents log1 = []"
    using clear [OF assms(1)] by blast
  have "room 1 (contents log1)" by (simp add: c(3) room_def last_index_def)
  from commit_ok [OF c(2) this, of s t "self\<lparr>os_current_term := t\<rparr>"] show ?thesis
    using True assms(3-5) c by (auto simp: append_snapshot_def store_is_leader_def Let_def ops_def not_less)
next
  case False
  then have "self\<lparr>os_snapshot := s\<rparr> = self\<lparr>os_current_term := t, os_snapshot := s\<rparr>" using assms(4) by simp
  then show ?thesis using commit_ok [OF assms(1,2), of s t self] False assms(3-5)
    by (auto simp: append_snapshot_def store_is_leader_def not_less)
qed

lemma apply_snapshot_exact:
  fixes t :: "u64 option"
  assumes n: "node_inv initial n" and room: "room 1 (contents (mn_log n))"
  defines "t' \<equiv> (case t of Some t \<Rightarrow> t | None \<Rightarrow> os_current_term (mn_store n))"
  shows "case verdict proposer s t' n of
      Some error \<Rightarrow> apply_snapshot ops proposer s t n = (n, Inl error)
    | None \<Rightarrow> \<exists>n'. apply_snapshot ops proposer s t n = (n', Inr ()) \<and> node_inv initial n'
        \<and> mn_store n' = (mn_store n)\<lparr>os_current_term := t', os_snapshot := s\<rparr>
        \<and> contents (mn_log n') = proposed_log s t' n"
proof (cases "verdict proposer s t' n")
  case (Some error)
  then have "append_snapshot ops proposer s t' (mn_store n) (mn_log n) = (mn_store n, mn_log n, Inl error)"
    by (auto simp: verdict_def append_snapshot_def store_is_leader_def split: if_splits)
  from apply_snapshot_unfold [OF _ this [unfolded t'_def]] show ?thesis
    using n Some by (simp add: node_inv_def)
next
  case None
  then have v: "os_leader (mn_store n) = Some proposer" "os_current_term (mn_store n) \<le> t'"
    "cs_generation (os_snapshot (mn_store n)) \<le> cs_generation s"
    by (auto simp: verdict_def not_less split: if_splits)
  have i: "inv (mn_log n)" "\<not> mn_poisoned n" using n by (auto simp: node_inv_def)
  obtain log' e where a: "append_snapshot ops proposer s t' (mn_store n) (mn_log n)
      = ((mn_store n)\<lparr>os_current_term := t', os_snapshot := s\<rparr>, log', Inr e)"
    "inv log'" "contents log' = proposed_log s t' n"
    using append_snapshot_ok [OF i(1) room v] unfolding proposed_log_def by (elim exE conjE)
  have "1 \<le> t'" using v(2) n by (auto simp: node_inv_def)
  then show ?thesis
    using None a apply_snapshot_unfold [OF i(2) a(1) [unfolded t'_def], folded t'_def] i(2)
    by (simp add: node_inv_def proposed_log_def last_entry_def)
qed

lemma node_new_inv:
  assumes "inv log" "contents log = []"
  shows "\<exists>n. node_new ops node_id initial log = Inr n \<and> node_inv initial n \<and> mn_log n = log"
  using assms latest [OF assms(1)]
  by (simp add: node_new_def store_new_def ops_def node_inv_def last_entry_def)

lemma node_step_inv:
  assumes n: "node_inv initial n" and room: "room (Suc k) (contents (mn_log n))"
  shows "node_inv initial (node_step ops p n) \<and> room k (contents (mn_log (node_step ops p n)))"
proof -
  have keep: "room k (contents (mn_log n))" using room by (simp add: room_def)
  show ?thesis
  proof (cases p)
    case (Propose proposer s t)
    let ?t = "case t of Some t \<Rightarrow> t | None \<Rightarrow> os_current_term (mn_store n)"
    have room1: "room 1 (contents (mn_log n))" using room by (simp add: room_def)
    have k: "room (Suc k) []" using room by (simp add: room_def last_index_def)
    have cons: "consecutive (contents (mn_log n))" using consecutive n by (simp add: node_inv_def)
    have new: "room k (proposed_log s ?t n)"
      using room_spec_op [OF cons room, of "LAppend ?t s"] room_spec_op [OF _ k, of "LAppend ?t s"]
      by (simp only: proposed_log_def consecutive.simps split: if_split) simp
    show ?thesis
    proof (cases "verdict proposer s ?t n")
      case None
      then show ?thesis using apply_snapshot_exact [OF n room1, of proposer s t] new Propose by auto
    next
      case (Some error)
      then show ?thesis using apply_snapshot_exact [OF n room1, of proposer s t] n keep Propose by simp
    qed
  qed (use n keep in \<open>auto simp: node_inv_def set_leader_def clear_leader_def set_leader_term_def
      with_store_write_def Let_def split: option.splits\<close>)
qed

lemma node_steps_inv_room:
  "node_inv initial n \<Longrightarrow> room (length ps + k) (contents (mn_log n)) \<Longrightarrow>
     node_inv initial (fold (node_step ops) ps n) \<and> room k (contents (mn_log (fold (node_step ops) ps n)))"
proof (induction ps arbitrary: n)
  case (Cons p ps)
  then show ?case using node_step_inv [OF Cons.prems(1), of "length ps + k" p] by simp
qed simp

lemma reopen:
  assumes "node_inv initial n"
  shows "\<exists>n'. node_new ops node_id initial (mn_log n) = Inr n' \<and> node_snapshot n' = node_snapshot n
    \<and> leader_id n' = None \<and> current_term n' \<le> current_term n
    \<and> (contents (mn_log n) \<noteq> [] \<longrightarrow> current_term n' = node_last_term ops n)"
proof -
  have "latest_entry (mn_log n) = Inr (last_entry (contents (mn_log n)))"
    using assms latest by (simp add: node_inv_def)
  then show ?thesis using assms
    by (auto simp: node_inv_def node_new_def store_new_def ops_def node_snapshot_def leader_id_def
        current_term_def with_store_read_def node_last_term_def last_entry_def split: option.splits)
qed

end

lemma ops_in_memory: "im.ops = in_memory_ops"
  by (simp add: im.ops_def in_memory_ops_def)

lemma ops_file: "fm.ops codec = file_ops codec (\<lambda>_. None)"
  by (simp add: fm.ops_def file_ops_def)

definition healthy :: "mlog_codec \<Rightarrow> FileMetadataLog log_ops" where
  "healthy codec = file_ops codec (\<lambda>_. None)"

text \<open>What a fresh node over a file log becomes through a sequence of operations.\<close>

definition file_node_after ::
    "mlog_codec \<Rightarrow> FileMetadataReplayPolicy \<Rightarrow> string \<Rightarrow> CoordinationSnapshot \<Rightarrow> node_op list \<Rightarrow>
     (OpenraftAdapterError, FileMetadataLog MetadataNode) result" where
  "file_node_after codec policy node_id initial ps =
     (case new_with_replay_policy (healthy codec) None node_id initial policy of
        Inl error \<Rightarrow> Inl error
      | Inr node \<Rightarrow> Inr (fold (node_step (healthy codec)) ps (pn_inner node)))"

lemma opened_log:
  "new_with_replay_policy ops content node_id initial policy =
     new_with_log_and_profile ops node_id initial (FileMetadataLog_with_replay_policy content policy)
       (from_replay_policy policy)"
  by (auto simp: new_with_replay_policy_def from_replay_policy_def to_replay_policy_def
      FileMetadataLog_new_def FileMetadataReplayPolicy_default_def Let_def
      split: FileMetadataReplayPolicy.split)

lemma healthy_ops: "healthy codec = fm.ops codec"
  by (simp add: healthy_def ops_file)

lemma fresh_file_node:
  assumes "mlog_codec_ok codec"
  obtains n where "new_with_replay_policy (healthy codec) None node_id initial policy
      = Inr \<lparr>pn_inner = n, pn_startup_replay_profile = from_replay_policy policy\<rparr>"
    "fm.node_inv codec initial n" "fm_contents codec (mn_log n) = []"
proof -
  obtain n where "node_new (fm.ops codec) node_id initial (FileMetadataLog_with_replay_policy None policy) = Inr n"
    "fm.node_inv codec initial n" "mn_log n = FileMetadataLog_with_replay_policy None policy"
    using fm.node_new_inv [OF fresh_file_inv(1) [OF assms] fresh_file_inv(2)] by blast
  then show thesis using that
    by (simp add: opened_log healthy_ops new_with_log_and_profile_def fresh_file_inv(2))
qed

text \<open>The policy and the lock of a log never change.\<close>

lemma write_keeps_policy:
  "fm_write_entries codec fault es self = (self', r) \<Longrightarrow>
     fm_replay_policy self' = fm_replay_policy self \<and> fm_poisoned self' = fm_poisoned self"
  by (auto simp: fm_write_entries_def split: option.splits log_fault.splits prod.splits if_splits)

lemma append_keeps_policy:
  "fm_append_entry codec fault t s self = (self', r) \<Longrightarrow>
     fm_replay_policy self' = fm_replay_policy self \<and> fm_poisoned self' = fm_poisoned self"
  by (auto simp: fm_append_entry_def Let_def split: if_splits sum.splits prod.splits
      dest: write_keeps_policy)

lemma commit_keeps_policy:
  "store_commit (file_ops codec fault) s t self log = (self', log', r) \<Longrightarrow>
     fm_replay_policy log' = fm_replay_policy log \<and> fm_poisoned log' = fm_poisoned log"
  by (auto simp: store_commit_def file_ops_def split: sum.splits prod.splits dest: append_keeps_policy)

lemma propose_keeps_policy:
  assumes "append_snapshot (file_ops codec fault) proposer s t self log = (self', log', r)"
  shows "fm_replay_policy log' = fm_replay_policy log \<and> fm_poisoned log' = fm_poisoned log"
proof (cases "fm_clear codec (fault CallClear) log")
  case (Pair log1 c)
  then have "fm_replay_policy log1 = fm_replay_policy log \<and> fm_poisoned log1 = fm_poisoned log"
    by (auto simp: fm_clear_def split: if_splits dest: write_keeps_policy)
  then show ?thesis using assms Pair
      commit_keeps_policy [of codec fault s t self log self' log' r]
      commit_keeps_policy [of codec fault s t "self\<lparr>os_current_term := t\<rparr>" log1 self' log' r]
    by (auto simp: append_snapshot_def Let_def file_ops_def split: if_splits sum.splits)
qed

lemma step_keeps_policy:
  "fm_replay_policy (mn_log (node_step (file_ops codec fault) p n)) = fm_replay_policy (mn_log n)
   \<and> fm_poisoned (mn_log (node_step (file_ops codec fault) p n)) = fm_poisoned (mn_log n)"
proof (cases p)
  case (Propose proposer s t)
  show ?thesis
  proof (cases "mn_poisoned n")
    case False
    obtain store log r where a: "append_snapshot (file_ops codec fault) proposer s
        (case t of Some t \<Rightarrow> t | None \<Rightarrow> os_current_term (mn_store n)) (mn_store n) (mn_log n) = (store, log, r)"
      using prod_cases3 by blast
    show ?thesis using propose_keeps_policy [OF a] apply_snapshot_unfold [OF False a] Propose by simp
  qed (simp add: Propose apply_snapshot_poisoned)
qed (auto simp: set_leader_def clear_leader_def set_leader_term_def with_store_write_def Let_def)

lemma steps_keep_policy:
  "fm_replay_policy (mn_log (fold (node_step (file_ops codec fault)) ps n)) = fm_replay_policy (mn_log n)
   \<and> fm_poisoned (mn_log (fold (node_step (file_ops codec fault)) ps n)) = fm_poisoned (mn_log n)"
  by (induction ps arbitrary: n) (simp_all add: step_keeps_policy)

lemma file_node_after_inv:
  assumes codec: "mlog_codec_ok codec" and fits: "length ps + k < 2 ^ 64"
    and node: "file_node_after codec policy node_id initial ps = Inr n"
  shows "fm.node_inv codec initial n" "room k (fm_contents codec (mn_log n))"
    and "FileMetadataLog_with_replay_policy (fm_file (mn_log n)) policy = mn_log n"
proof -
  obtain n0 where n0: "new_with_replay_policy (healthy codec) None node_id initial policy
      = Inr \<lparr>pn_inner = n0, pn_startup_replay_profile = from_replay_policy policy\<rparr>"
    "fm.node_inv codec initial n0" "fm_contents codec (mn_log n0) = []"
    using fresh_file_node [OF codec] by blast
  have n: "n = fold (node_step (healthy codec)) ps n0" using node n0(1) by (simp add: file_node_after_def)
  have "room (length ps + k) (fm_contents codec (mn_log n0))" using fits n0(3) by (simp add: room_def last_index_def)
  then show "fm.node_inv codec initial n" "room k (fm_contents codec (mn_log n))"
    using fm.node_steps_inv_room [OF n0(2), of ps k] by (simp_all add: n healthy_ops)
  have "mn_log n0 = FileMetadataLog_with_replay_policy None policy"
    using n0(1) by (auto simp: opened_log new_with_log_and_profile_def node_new_def split: sum.splits)
  then show "FileMetadataLog_with_replay_policy (fm_file (mn_log n)) policy = mn_log n"
    using steps_keep_policy [of codec "\<lambda>_. None" ps n0]
    by (simp add: n healthy_def FileMetadataLog_with_replay_policy_def)
qed

section \<open>Properties\<close>

text \<open>
  C19. A proposal is judged exactly: only the current leader may write, a term below the current one
  and a generation below the stored one are refused in that order, and a refusal changes neither
  the store nor the file.  Otherwise the write succeeds; the node then holds the snapshot and
  the term, and the log ends with it: after the earlier entries in the same term, alone in a
  newer one.
\<close>

theorem file_node_proposal_exact:
  fixes t :: "u64 option"
  assumes codec: "mlog_codec_ok codec" and fits: "length ps + 1 < 2 ^ 64"
    and node: "file_node_after codec policy node_id initial ps = Inr n"
  defines "t' \<equiv> (case t of Some t \<Rightarrow> t | None \<Rightarrow> current_term n)"
  shows "let (n', r) = apply_snapshot (healthy codec) proposer s t n in
    if leader_id n \<noteq> Some proposer then n' = n \<and> r = Inl NotLeader
    else if t' < current_term n then n' = n \<and> r = Inl StaleTerm
    else if cs_generation s < cs_generation (node_snapshot n) then n' = n \<and> r = Inl StaleGenerationError
    else r = Inr () \<and> node_snapshot n' = s \<and> current_term n' = t' \<and> leader_id n' = Some proposer
      \<and> fm_contents codec (mn_log n') =
          spec_op (LAppend t' s) (if current_term n < t' then [] else fm_contents codec (mn_log n))"
proof -
  note i = file_node_after_inv(1,2) [OF codec fits node]
  from i have p: "\<not> mn_poisoned n" by (simp add: fm.node_inv_def)
  then have t: "t' = (case t of Some t \<Rightarrow> t | None \<Rightarrow> os_current_term (mn_store n))"
    by (simp add: t'_def current_term_def with_store_read_def split: option.split)
  show ?thesis
    using fm.apply_snapshot_exact [OF i, of proposer s t, folded t] p
    by (auto simp: fm.verdict_def fm.proposed_log_def healthy_ops leader_id_def current_term_def
        with_store_read_def node_snapshot_def fm.node_inv_def split: if_splits)
qed

text \<open>
  C20. A persisted node restarts where it stopped: after any sequence of leadership changes and
  proposals, a node opened anew on the same file, under the same policy, holds the same snapshot,
  knows no leader, and takes the term of the last stored entry, never one above the old node's.
\<close>

theorem file_node_restart_restores:
  assumes codec: "mlog_codec_ok codec" and fits: "length ps < 2 ^ 64"
    and node: "file_node_after codec policy node_id initial ps = Inr n"
  shows "\<exists>node'. new_with_replay_policy (healthy codec) (fm_file (mn_log n)) node_id initial policy = Inr node'
    \<and> node_snapshot (pn_inner node') = node_snapshot n \<and> leader_id (pn_inner node') = None
    \<and> current_term (pn_inner node') \<le> current_term n
    \<and> startup_replay_policy node' = policy
    \<and> (if fm_contents codec (mn_log n) = [] then node_snapshot n = initial
       else current_term (pn_inner node') = node_last_term (healthy codec) n)"
proof -
  have "length ps + 0 < 2 ^ 64" using fits by simp
  note inv = file_node_after_inv(1) [OF codec this node] and log = file_node_after_inv(3) [OF codec this node]
  obtain n' where n': "node_new (fm.ops codec) node_id initial (mn_log n) = Inr n'"
    "node_snapshot n' = node_snapshot n" "leader_id n' = None" "current_term n' \<le> current_term n"
    "fm_contents codec (mn_log n) \<noteq> [] \<longrightarrow> current_term n' = node_last_term (fm.ops codec) n"
    using fm.reopen [OF inv] by blast
  have initial: "fm_contents codec (mn_log n) = [] \<Longrightarrow> node_snapshot n = initial"
    using inv by (simp add: fm.node_inv_def last_entry_def node_snapshot_def)
  have policy: "to_replay_policy (from_replay_policy policy) = policy"
    by (simp add: to_replay_policy_def from_replay_policy_def split: FileMetadataReplayPolicy.split)
  have "new_with_replay_policy (healthy codec) (fm_file (mn_log n)) node_id initial policy
      = Inr \<lparr>pn_inner = n', pn_startup_replay_profile = from_replay_policy policy\<rparr>"
    using n'(1) by (simp add: opened_log log healthy_ops new_with_log_and_profile_def)
  then show ?thesis using n' initial policy by (simp add: startup_replay_policy_def healthy_ops)
qed

text \<open>
  C21. Whatever the log behind it does, failures included, a node's term and the generation of its
  snapshot never decrease over any sequence of operations, and its identity never changes.
\<close>

theorem node_never_goes_back:
  "mn_local_node_id (fold (node_step ops) ps n) = mn_local_node_id n
   \<and> current_term n \<le> current_term (fold (node_step ops) ps n)
   \<and> cs_generation (node_snapshot n) \<le> cs_generation (node_snapshot (fold (node_step ops) ps n))"
  using node_steps_monotone [of n ops ps]
  by (auto simp: monotone_step_def current_term_def with_store_read_def node_snapshot_def)

text \<open>
  A proposal in a newer term clears the log before it appends, so an append that then fails
  leaves the durable log empty: the node still serves the old snapshot, but a restart falls back to
  the initial one although every earlier write had been acknowledged.
\<close>

theorem new_term_failure_loses_log:
  fixes error :: string
  assumes codec: "mlog_codec_ok codec" and fits: "length ps < 2 ^ 64"
    and node: "file_node_after codec policy node_id initial ps = Inr n"
    and leader: "leader_id n = Some proposer"
    and newer: "current_term n < t" "cs_generation (node_snapshot n) \<le> cs_generation s"
  defines "ops \<equiv> file_ops codec (\<lambda>c. if c = CallAppend then Some (FileOpenFails error) else None)"
  shows "\<exists>n'. apply_snapshot ops proposer s (Some t) n
      = (n', Inl (Storage (''metadata log I/O error: '' @ error)))
    \<and> node_snapshot n' = node_snapshot n \<and> current_term n' = t
    \<and> fm_read_entries codec None (mn_log n') = Inr []
    \<and> (\<exists>n''. node_new (healthy codec) node_id initial (mn_log n') = Inr n'' \<and> node_snapshot n'' = initial)"
proof -
  have "length ps + 0 < 2 ^ 64" using fits by simp
  from file_node_after_inv(1) [OF codec this node]
  have p: "\<not> mn_poisoned n" and l: "fm_inv codec (mn_log n)" by (auto simp: fm.node_inv_def)
  obtain log where c: "fm_clear codec None (mn_log n) = (log, Inr ())" "fm_inv codec log" "fm_contents codec log = []"
    using fm.clear [OF l] by blast
  have "append_snapshot ops proposer s t (mn_store n) (mn_log n)
      = ((mn_store n)\<lparr>os_current_term := t\<rparr>, log, Inl (Storage (''metadata log I/O error: '' @ error)))"
    using c leader newer p
    by (auto simp: append_snapshot_def ops_def file_ops_def store_is_leader_def leader_id_def
        current_term_def with_store_read_def node_snapshot_def store_commit_def fm_append_entry_def
        fm_inv_def fm_read_all_entries_def from_MetadataLogError_def display_MetadataLogError_def
        Let_def not_less dest: less_imp_le)
  then have a: "apply_snapshot ops proposer s (Some t) n
      = (n\<lparr>mn_store := (mn_store n)\<lparr>os_current_term := t\<rparr>, mn_log := log\<rparr>,
         Inl (Storage (''metadata log I/O error: '' @ error)))"
    using apply_snapshot_unfold [OF p, of ops proposer s "Some t"] by simp
  have "\<exists>n''. node_new (healthy codec) node_id initial log = Inr n'' \<and> node_snapshot n'' = initial"
    using fm.node_new_inv [OF c(2,3), of node_id initial] c(3)
    by (auto simp: healthy_ops fm.node_inv_def last_entry_def node_snapshot_def)
  then show ?thesis using a p fm.read [OF c(2)] c(3)
    by (simp add: node_snapshot_def current_term_def with_store_read_def)
qed

section \<open>Witnesses\<close>

definition led_node :: "FileMetadataLog MetadataNode" where
  "led_node = \<lparr>mn_local_node_id = ''a'',
     mn_store = \<lparr>os_current_term = 3, os_leader = Some ''a'', os_snapshot = CoordinationSnapshot_default\<rparr>,
     mn_poisoned = False, mn_log = FileMetadataLog_with_replay_policy None Strict\<rparr>"

definition led_ops :: "node_op list" where
  "led_ops = [SetLeaderTerm ''a'' 3]"

definition led_snapshot :: CoordinationSnapshot where
  "led_snapshot = demo_snapshot ''a'' [] 1 1"

lemma led_node_run:
  "file_node_after unary_mlog Strict ''a'' CoordinationSnapshot_default led_ops = Inr led_node"
  by (simp add: file_node_after_def opened_log new_with_log_and_profile_def node_new_def store_new_def
      healthy_def file_ops_def fm_latest_entry_def fm_read_all_entries_def last_entry_def led_ops_def
      FileMetadataLog_with_replay_policy_def set_leader_term_def with_store_write_def led_node_def Let_def)

lemma led_facts:
  "leader_id led_node = Some ''a''" "current_term led_node = 3"
  "node_snapshot led_node = CoordinationSnapshot_default" "cs_generation led_snapshot = 1"
  "fm_contents unary_mlog (mn_log led_node) = []" "\<not> mn_poisoned led_node"
  by (simp_all add: led_node_def leader_id_def current_term_def with_store_read_def node_snapshot_def
      fresh_file_inv led_snapshot_def demo_snapshot_def)

theorem file_node_proposal_exact_witness:
  "\<exists>n'. apply_snapshot (healthy unary_mlog) ''a'' led_snapshot None led_node = (n', Inr ())
     \<and> node_snapshot n' = led_snapshot \<and> current_term n' = 3
     \<and> fm_contents unary_mlog (mn_log n') = spec_op (LAppend 3 led_snapshot) []"
proof -
  have "length led_ops + 1 < 2 ^ 64" by (simp add: led_ops_def)
  from file_node_proposal_exact [OF unary_mlog_ok this led_node_run, where t = None and proposer = "''a''" and s = led_snapshot]
  show ?thesis
    by (simp add: led_facts CoordinationSnapshot_default_def Let_def split: prod.splits)
qed

lemma led_node_writes:
  "\<exists>n. file_node_after unary_mlog Strict ''a'' CoordinationSnapshot_default
      (led_ops @ [Propose ''a'' led_snapshot None]) = Inr n
    \<and> node_snapshot n = led_snapshot \<and> leader_id n = Some ''a'' \<and> current_term n = 3
    \<and> fm_contents unary_mlog (mn_log n) \<noteq> []"
proof -
  have "length led_ops + 1 < 2 ^ 64" by (simp add: led_ops_def)
  note i = file_node_after_inv(1,2) [OF unary_mlog_ok this led_node_run]
  have "fm.verdict ''a'' led_snapshot 3 led_node = None"
    by (simp add: fm.verdict_def led_node_def led_facts CoordinationSnapshot_default_def)
  then obtain n' where "apply_snapshot (healthy unary_mlog) ''a'' led_snapshot None led_node = (n', Inr ())"
    "fm.node_inv unary_mlog CoordinationSnapshot_default n'"
    "mn_store n' = (mn_store led_node)\<lparr>os_current_term := 3, os_snapshot := led_snapshot\<rparr>"
    "fm_contents unary_mlog (mn_log n') = fm.proposed_log unary_mlog led_snapshot 3 led_node"
    using fm.apply_snapshot_exact [OF i, of "''a''" led_snapshot None]
    by (auto simp: healthy_ops led_node_def)
  then show ?thesis using led_node_run
    by (auto simp: file_node_after_def fm.node_inv_def node_snapshot_def leader_id_def current_term_def
        with_store_read_def led_node_def fm.proposed_log_def split: sum.splits)
qed

theorem file_node_restart_restores_witness:
  "\<exists>n node'. file_node_after unary_mlog Strict ''a'' CoordinationSnapshot_default
      (led_ops @ [Propose ''a'' led_snapshot None]) = Inr n
    \<and> new_with_replay_policy (healthy unary_mlog) (fm_file (mn_log n)) ''a'' CoordinationSnapshot_default Strict
        = Inr node'
    \<and> node_snapshot (pn_inner node') = led_snapshot \<and> leader_id (pn_inner node') = None"
proof -
  obtain n where n: "file_node_after unary_mlog Strict ''a'' CoordinationSnapshot_default
      (led_ops @ [Propose ''a'' led_snapshot None]) = Inr n" "node_snapshot n = led_snapshot"
    using led_node_writes by blast
  have "length (led_ops @ [Propose ''a'' led_snapshot None]) < 2 ^ 64" by (simp add: led_ops_def)
  from file_node_restart_restores [OF unary_mlog_ok this n(1)] show ?thesis using n by auto
qed

theorem new_term_failure_loses_log_witness:
  "\<exists>n n'. node_snapshot n = led_snapshot \<and> fm_read_entries unary_mlog None (mn_log n) \<noteq> Inr []
    \<and> snd (apply_snapshot (file_ops unary_mlog
             (\<lambda>c. if c = CallAppend then Some (FileOpenFails ''denied'') else None))
             ''a'' led_snapshot (Some 4) n) = Inl (Storage ''metadata log I/O error: denied'')
    \<and> fst (apply_snapshot (file_ops unary_mlog
             (\<lambda>c. if c = CallAppend then Some (FileOpenFails ''denied'') else None))
             ''a'' led_snapshot (Some 4) n) = n'
    \<and> fm_read_entries unary_mlog None (mn_log n') = Inr []"
proof -
  let ?ps = "led_ops @ [Propose ''a'' led_snapshot None]"
  obtain n where n: "file_node_after unary_mlog Strict ''a'' CoordinationSnapshot_default ?ps = Inr n"
    "node_snapshot n = led_snapshot" "leader_id n = Some ''a''" "current_term n = 3"
    "fm_contents unary_mlog (mn_log n) \<noteq> []" using led_node_writes by blast
  have len: "length ?ps < 2 ^ 64" "length ?ps + 0 < 2 ^ 64" by (simp_all add: led_ops_def)
  have "fm_inv unary_mlog (mn_log n)"
    using file_node_after_inv(1) [OF unary_mlog_ok len(2) n(1)] by (simp add: fm.node_inv_def)
  then have "fm_read_entries unary_mlog None (mn_log n) \<noteq> Inr []" using fm.read n(5) by simp
  moreover have "current_term n < 4" using n(4) by simp
  ultimately show ?thesis
    using new_term_failure_loses_log [OF unary_mlog_ok len(1) n(1,3), of 4 led_snapshot "''denied''"] n(2)
    by (auto intro!: exI [of _ n])
qed

end
