(* ===== verification/Metadata_Consensus.thy ===== *)
theory Metadata_Consensus
  imports Consensus_Node
begin

text \<open>
  The contract \<^verbatim>\<open>MetadataConsensus\<close> of \<^verbatim>\<open>ganglion-openraft/src/lib.rs\<close> and its two implementations, the
  in-memory and the persisted node, and the control-loop helper \<^verbatim>\<open>plan_and_publish\<close>, which works on any
  of them.  The trait is the locale \<open>metadata_consensus\<close>; what the helper promises is proved in it.
\<close>

section \<open>The in-memory node\<close>

record InMemoryMetadataNode =
  mem_inner :: "InMemoryMetadataLog MetadataNode"

text \<open>The constructor expects its inner node, so \<^const>\<open>None\<close> is a panic.\<close>

definition InMemoryMetadataNode_new :: "string \<Rightarrow> CoordinationSnapshot \<Rightarrow> InMemoryMetadataNode option" where
  "InMemoryMetadataNode_new node_id initial_snapshot =
     (case node_new in_memory_ops node_id initial_snapshot InMemoryMetadataLog_new of
        Inr inner \<Rightarrow> Some \<lparr>mem_inner = inner\<rparr>
      | Inl _ \<Rightarrow> None)"

record InMemoryMetadataNodeBuilder =
  nb_node_id :: string

definition InMemoryMetadataNodeBuilder_new :: "string \<Rightarrow> InMemoryMetadataNodeBuilder" where
  "InMemoryMetadataNodeBuilder_new node_id = \<lparr>nb_node_id = node_id\<rparr>"

definition builder_initial_snapshot ::
    "InMemoryMetadataNodeBuilder \<Rightarrow> CoordinationSnapshot \<Rightarrow> InMemoryMetadataNode option" where
  "builder_initial_snapshot self initial = InMemoryMetadataNode_new (nb_node_id self) initial"

definition mn_set_leader_term :: "string \<Rightarrow> u64 \<Rightarrow> InMemoryMetadataNode \<Rightarrow> InMemoryMetadataNode" where
  "mn_set_leader_term node_id term self = self\<lparr>mem_inner := set_leader_term node_id term (mem_inner self)\<rparr>"

definition mn_set_leader :: "string \<Rightarrow> InMemoryMetadataNode \<Rightarrow> InMemoryMetadataNode" where
  "mn_set_leader new_leader self = self\<lparr>mem_inner := set_leader new_leader (mem_inner self)\<rparr>"

definition mn_clear_leader :: "InMemoryMetadataNode \<Rightarrow> InMemoryMetadataNode" where
  "mn_clear_leader self = self\<lparr>mem_inner := clear_leader (mem_inner self)\<rparr>"

definition mn_plan_and_apply ::
    "string \<Rightarrow> (PlacementInput \<Rightarrow> (PlacementError, PlacementPlan) result) \<Rightarrow> PlacementInput \<Rightarrow>
     InMemoryMetadataNode \<Rightarrow> InMemoryMetadataNode \<times> (OpenraftAdapterError, CoordinationSnapshot) result" where
  "mn_plan_and_apply proposer planner input self =
     (case plan_and_apply in_memory_ops proposer planner input (mem_inner self) of
        (inner, r) \<Rightarrow> (self\<lparr>mem_inner := inner\<rparr>, r))"

definition mn_log_len :: "InMemoryMetadataNode \<Rightarrow> nat" where
  "mn_log_len self = log_len in_memory_ops (mem_inner self)"

definition mn_current_term :: "InMemoryMetadataNode \<Rightarrow> u64" where
  "mn_current_term self = current_term (mem_inner self)"

definition mn_last_index :: "InMemoryMetadataNode \<Rightarrow> u64" where
  "mn_last_index self = node_last_index in_memory_ops (mem_inner self)"

definition mn_last_term :: "InMemoryMetadataNode \<Rightarrow> u64" where
  "mn_last_term self = node_last_term in_memory_ops (mem_inner self)"

definition mn_node_id :: "InMemoryMetadataNode \<Rightarrow> string" where
  "mn_node_id self = node_local_id (mem_inner self)"

definition mn_leader_id :: "InMemoryMetadataNode \<Rightarrow> string option" where
  "mn_leader_id self = leader_id (mem_inner self)"

definition mn_is_leader :: "InMemoryMetadataNode \<Rightarrow> bool" where
  "mn_is_leader self = node_is_leader (mem_inner self)"

definition mn_snapshot :: "InMemoryMetadataNode \<Rightarrow> CoordinationSnapshot" where
  "mn_snapshot self = node_snapshot (mem_inner self)"

definition mn_apply_snapshot ::
    "string \<Rightarrow> CoordinationSnapshot \<Rightarrow> u64 option \<Rightarrow> InMemoryMetadataNode \<Rightarrow>
     InMemoryMetadataNode \<times> (OpenraftAdapterError, unit) result" where
  "mn_apply_snapshot proposer snapshot term self =
     (case apply_snapshot in_memory_ops proposer snapshot term (mem_inner self) of
        (inner, r) \<Rightarrow> (self\<lparr>mem_inner := inner\<rparr>, r))"

section \<open>Reading the persisted node\<close>

definition pn_log_len :: "'l log_ops \<Rightarrow> 'l PersistedMetadataNode \<Rightarrow> nat" where
  "pn_log_len ops self = log_len ops (pn_inner self)"

definition pn_current_term :: "'l PersistedMetadataNode \<Rightarrow> u64" where
  "pn_current_term self = current_term (pn_inner self)"

definition pn_last_index :: "'l log_ops \<Rightarrow> 'l PersistedMetadataNode \<Rightarrow> u64" where
  "pn_last_index ops self = node_last_index ops (pn_inner self)"

definition pn_last_term :: "'l log_ops \<Rightarrow> 'l PersistedMetadataNode \<Rightarrow> u64" where
  "pn_last_term ops self = node_last_term ops (pn_inner self)"

definition pn_node_id :: "'l PersistedMetadataNode \<Rightarrow> string" where
  "pn_node_id self = node_local_id (pn_inner self)"

definition pn_leader_id :: "'l PersistedMetadataNode \<Rightarrow> string option" where
  "pn_leader_id self = leader_id (pn_inner self)"

definition pn_is_leader :: "'l PersistedMetadataNode \<Rightarrow> bool" where
  "pn_is_leader self = node_is_leader (pn_inner self)"

definition pn_snapshot :: "'l PersistedMetadataNode \<Rightarrow> CoordinationSnapshot" where
  "pn_snapshot self = node_snapshot (pn_inner self)"

section \<open>The control loop\<close>

text \<open>
  \<^verbatim>\<open>plan_and_publish\<close> works on any engine; \<open>apply\<close> is the engine's \<^verbatim>\<open>apply_snapshot\<close>, and the
  observer's state is threaded through \<open>publish\<close>.
\<close>

definition plan_and_publish ::
    "(string \<Rightarrow> CoordinationSnapshot \<Rightarrow> u64 option \<Rightarrow> 'c \<Rightarrow> 'c \<times> (OpenraftAdapterError, unit) result) \<Rightarrow>
     string \<Rightarrow> (PlacementInput \<Rightarrow> (PlacementError, PlacementPlan) result) \<Rightarrow> PlacementInput \<Rightarrow>
     (CoordinationSnapshot \<Rightarrow> 'o \<Rightarrow> 'o) \<Rightarrow> 'c \<Rightarrow> 'o \<Rightarrow>
     'c \<times> 'o \<times> (OpenraftAdapterError, CoordinationSnapshot) result" where
  "plan_and_publish apply proposer planner input publish consensus observer =
     (case planner input of
        Inl error \<Rightarrow> (consensus, observer, Inl (Planner error))
      | Inr plan \<Rightarrow>
          (case apply proposer (pp_snapshot plan) None consensus of
             (consensus', Inl error) \<Rightarrow> (consensus', observer, Inl error)
           | (consensus', Inr _) \<Rightarrow>
               (consensus', publish (pp_snapshot plan) observer, Inr (pp_snapshot plan))))"

text \<open>A run of the control loop: each iteration has its proposer, planner and input.\<close>

type_synonym iteration = "string \<times> (PlacementInput \<Rightarrow> (PlacementError, PlacementPlan) result) \<times> PlacementInput"

fun control_loop ::
    "(string \<Rightarrow> CoordinationSnapshot \<Rightarrow> u64 option \<Rightarrow> 'c \<Rightarrow> 'c \<times> (OpenraftAdapterError, unit) result) \<Rightarrow>
     iteration list \<Rightarrow> 'c \<Rightarrow> CoordinationSnapshot list \<Rightarrow> 'c \<times> CoordinationSnapshot list" where
  "control_loop apply [] consensus seen = (consensus, seen)"
| "control_loop apply ((proposer, planner, input) # rest) consensus seen =
     (case plan_and_publish apply proposer planner input (\<lambda>s seen. seen @ [s]) consensus seen of
        (consensus', seen', _) \<Rightarrow> control_loop apply rest consensus' seen')"

section \<open>The contract\<close>

locale metadata_consensus =
  fixes local_node_id :: "'c \<Rightarrow> string"
    and leader_of :: "'c \<Rightarrow> string option"
    and is_leader :: "'c \<Rightarrow> bool"
    and snapshot :: "'c \<Rightarrow> CoordinationSnapshot"
    and apply_to :: "string \<Rightarrow> CoordinationSnapshot \<Rightarrow> u64 option \<Rightarrow> 'c \<Rightarrow> 'c \<times> (OpenraftAdapterError, unit) result"
  assumes leads: "is_leader c \<longleftrightarrow> leader_of c = Some (local_node_id c)"
    and applied: "apply_to proposer s t c = (c', Inr ()) \<Longrightarrow>
      leader_of c = Some proposer \<and> snapshot c' = s \<and> cs_generation (snapshot c) \<le> cs_generation s"
    and refused: "apply_to proposer s t c = (c', Inl error) \<Longrightarrow> snapshot c' = snapshot c"
    and keeps: "apply_to proposer s t c = (c', r) \<Longrightarrow> leader_of c' = leader_of c \<and> local_node_id c' = local_node_id c"
begin

lemma publish_cases:
  "case plan_and_publish apply_to proposer planner input publish c observer of
     (c', observer', Inl error) \<Rightarrow> observer' = observer \<and> snapshot c' = snapshot c
   | (c', observer', Inr s) \<Rightarrow> planner input = Inr \<lparr>pp_snapshot = s\<rparr> \<and> snapshot c' = s
       \<and> observer' = publish s observer \<and> leader_of c = Some proposer
       \<and> cs_generation (snapshot c) \<le> cs_generation s"
proof (cases "planner input")
  case (Inr plan)
  obtain c' r where "apply_to proposer (pp_snapshot plan) None c = (c', r)" by force
  then show ?thesis using Inr applied [of proposer "pp_snapshot plan" None c c'] refused [of proposer "pp_snapshot plan" None c c']
    by (cases r) (auto simp: plan_and_publish_def)
qed (simp add: plan_and_publish_def)

lemma publish_keeps:
  "plan_and_publish apply_to proposer planner input publish c observer = (c', rest) \<Longrightarrow>
     leader_of c' = leader_of c \<and> local_node_id c' = local_node_id c"
  by (auto simp: plan_and_publish_def dest: keeps split: sum.splits prod.splits)

lemma loop_published:
  assumes "control_loop apply_to its c seen = (c', seen')"
  shows "\<exists>new. seen' = seen @ new
    \<and> snapshot c' = (if new = [] then snapshot c else last new)
    \<and> sorted (map cs_generation (snapshot c # new))
    \<and> (\<forall>s\<in>set new. \<exists>(proposer, planner, input)\<in>set its. planner input = Inr \<lparr>pp_snapshot = s\<rparr> \<and> leader_of c = Some proposer)"
  using assms
proof (induction its arbitrary: c seen)
  case (Cons it its)
  obtain proposer planner input where it: "it = (proposer, planner, input)" using prod_cases3 by blast
  obtain c1 seen1 r where p: "plan_and_publish apply_to proposer planner input (\<lambda>s seen. seen @ [s]) c seen = (c1, seen1, r)"
    using prod_cases3 by blast
  obtain new where new: "seen' = seen1 @ new" "snapshot c' = (if new = [] then snapshot c1 else last new)"
    "sorted (map cs_generation (snapshot c1 # new))"
    "\<forall>s\<in>set new. \<exists>(proposer, planner, input)\<in>set its. planner input = Inr \<lparr>pp_snapshot = s\<rparr> \<and> leader_of c1 = Some proposer"
    using Cons.IH [of c1 seen1] Cons.prems p it by auto
  have lead: "leader_of c1 = leader_of c" using publish_keeps [OF p] by simp
  show ?case
  proof (cases r)
    case (Inl e)
    then have "seen1 = seen" "snapshot c1 = snapshot c"
      using publish_cases [where proposer = proposer and planner = planner and input = input
          and publish = "\<lambda>s seen. seen @ [s]" and c = c and observer = seen] p by auto
    then show ?thesis using new lead by (intro exI [of _ new]) auto
  next
    case (Inr s)
    then have s: "planner input = Inr \<lparr>pp_snapshot = s\<rparr>" "snapshot c1 = s" "seen1 = seen @ [s]"
      "leader_of c = Some proposer" "cs_generation (snapshot c) \<le> cs_generation s"
      using publish_cases [where proposer = proposer and planner = planner and input = input
          and publish = "\<lambda>s seen. seen @ [s]" and c = c and observer = seen] p by auto
    then show ?thesis using new lead it by (intro exI [of _ "s # new"]) (auto intro: order_trans)
  qed
qed simp

end

section \<open>The nodes keep it\<close>

lemma apply_snapshot_outcome:
  assumes "apply_snapshot ops proposer s t n = (n', r)"
  shows "leader_id n' = leader_id n \<and> mn_local_node_id n' = mn_local_node_id n
    \<and> (case r of
         Inl _ \<Rightarrow> node_snapshot n' = node_snapshot n
       | Inr _ \<Rightarrow> leader_id n = Some proposer \<and> node_snapshot n' = s \<and> cs_generation (node_snapshot n) \<le> cs_generation s)"
proof (cases "mn_poisoned n")
  case True
  then show ?thesis using assms by (auto simp: apply_snapshot_poisoned)
next
  case False
  obtain store log r' where a: "append_snapshot ops proposer s
      (case t of Some t \<Rightarrow> t | None \<Rightarrow> os_current_term (mn_store n)) (mn_store n) (mn_log n) = (store, log, r')"
    using prod_cases3 by blast
  have n': "n' = n\<lparr>mn_store := store, mn_log := log\<rparr>" "r = (case r' of Inl e \<Rightarrow> Inl e | Inr _ \<Rightarrow> Inr ())"
    using apply_snapshot_unfold [OF False a] assms by simp_all
  have "os_leader store = os_leader (mn_store n) \<and> (case r' of
      Inl _ \<Rightarrow> os_snapshot store = os_snapshot (mn_store n)
    | Inr _ \<Rightarrow> os_leader (mn_store n) = Some proposer \<and> os_snapshot store = s
        \<and> cs_generation (os_snapshot (mn_store n)) \<le> cs_generation s)"
    using a by (auto simp: append_snapshot_def store_commit_def store_is_leader_def Let_def not_less
        split: if_splits prod.splits sum.splits)
  then show ?thesis using False n' by (auto simp: leader_id_def node_snapshot_def split: sum.splits)
qed

interpretation inner: metadata_consensus node_local_id leader_id node_is_leader node_snapshot
    "apply_snapshot ops" for ops
  by unfold_locales (auto simp: node_is_leader_def node_local_id_def dest!: apply_snapshot_outcome)

interpretation memory: metadata_consensus mn_node_id mn_leader_id mn_is_leader mn_snapshot mn_apply_snapshot
  by unfold_locales
    (auto simp: mn_node_id_def mn_leader_id_def mn_is_leader_def mn_snapshot_def mn_apply_snapshot_def
      inner.leads dest: inner.applied inner.refused inner.keeps split: prod.splits)

interpretation persisted: metadata_consensus pn_node_id pn_leader_id pn_is_leader pn_snapshot
    "pn_apply_snapshot ops" for ops
  by unfold_locales
    (auto simp: pn_node_id_def pn_leader_id_def pn_is_leader_def pn_snapshot_def pn_apply_snapshot_def
      inner.leads dest: inner.applied inner.refused inner.keeps split: prod.splits)

section \<open>Properties\<close>

text \<open>
  C22. The control loop publishes exactly what was committed.  For both kinds of node and every log,
  planner and proposer, a run of iterations shows the observer some of the planned snapshots, in order:
  their generations never go down, each was proposed by the leader, and when the run ends the node
  holds the last one published, or what it held before when none was.
\<close>

theorem control_loop_publishes_committed:
  "(case control_loop mn_apply_snapshot its m [] of (m', seen) \<Rightarrow>
      mn_snapshot m' = (if seen = [] then mn_snapshot m else last seen)
      \<and> sorted (map cs_generation (mn_snapshot m # seen))
      \<and> list_all (\<lambda>s. list_ex (\<lambda>(proposer, planner, input).
           planner input = Inr \<lparr>pp_snapshot = s\<rparr> \<and> mn_leader_id m = Some proposer) its) seen)
   \<and> (case control_loop (pn_apply_snapshot ops) its p [] of (p', seen) \<Rightarrow>
      pn_snapshot p' = (if seen = [] then pn_snapshot p else last seen)
      \<and> sorted (map cs_generation (pn_snapshot p # seen))
      \<and> list_all (\<lambda>s. list_ex (\<lambda>(proposer, planner, input).
           planner input = Inr \<lparr>pp_snapshot = s\<rparr> \<and> pn_leader_id p = Some proposer) its) seen)"
  using memory.loop_published [of its m "[]" "fst (control_loop mn_apply_snapshot its m [])"
      "snd (control_loop mn_apply_snapshot its m [])"]
    persisted.loop_published [of ops its p "[]" "fst (control_loop (pn_apply_snapshot ops) its p [])"
      "snd (control_loop (pn_apply_snapshot ops) its p [])"]
  by (auto simp: list_all_iff list_ex_iff split: prod.splits)

end
