(* ===== verification/Keratin_Log.thy ===== *)
theory Keratin_Log
  imports Metadata_Log
begin

text \<open>
  The metadata log over an external record store, \<^verbatim>\<open>KeratinMetadataLog\<close> of
  \<^verbatim>\<open>ganglion-storage/src/lib.rs\<close>: the paged scan, the replay with its tail policy, the reset through
  the follower role, and the operations of the log.

  The record store is not part of the repository.  It is the record \<open>keratin_api\<close> of the calls the
  log makes, over the store's state \<open>'k\<close>; what the theorems rely on is \<open>keratin_ok\<close>.  The scan asks
  for pages until one is empty, which depends on the store, so it is a partial function: not
  returning is the value \<^const>\<open>None\<close>, and that it returns is proved.
\<close>

section \<open>The store\<close>

datatype KeratinRole = RoleOwner | RoleFollower | RoleFrozen

type_synonym owned_record = "u64 \<times> string"

record 'k keratin_api =
  ka_scan_from :: "u64 \<Rightarrow> nat \<Rightarrow> 'k \<Rightarrow> (string, owned_record list) result"
  ka_append :: "string \<Rightarrow> 'k \<Rightarrow> 'k \<times> (string, unit) result"
  ka_destructive_reset :: "u64 \<Rightarrow> 'k \<Rightarrow> 'k \<times> (string, unit) result"
  ka_role :: "'k \<Rightarrow> KeratinRole"
  ka_set_role :: "KeratinRole \<Rightarrow> 'k \<Rightarrow> 'k"

record 'k KeratinMetadataLog =
  km_keratin :: 'k
  km_poisoned :: bool
  km_replay_policy :: FileMetadataReplayPolicy

text \<open>\<open>opened\<close> is the outcome of opening the store at the path.\<close>

definition KeratinMetadataLog_with_replay_policy ::
    "(string, 'k) result \<Rightarrow> FileMetadataReplayPolicy \<Rightarrow> (MetadataLogError, 'k KeratinMetadataLog) result" where
  "KeratinMetadataLog_with_replay_policy opened replay_policy =
     (case opened of
        Inl error \<Rightarrow> Inl (Io error)
      | Inr keratin \<Rightarrow>
          Inr \<lparr>km_keratin = keratin, km_poisoned = False, km_replay_policy = replay_policy\<rparr>)"

definition KeratinMetadataLog_new :: "(string, 'k) result \<Rightarrow> (MetadataLogError, 'k KeratinMetadataLog) result" where
  "KeratinMetadataLog_new opened =
     KeratinMetadataLog_with_replay_policy opened FileMetadataReplayPolicy_default"

section \<open>Reading\<close>

definition scan_page :: nat where
  "scan_page = 256"

partial_function (option) scan_records ::
    "'k keratin_api \<Rightarrow> 'k \<Rightarrow> u64 \<Rightarrow> owned_record list \<Rightarrow> (MetadataLogError, owned_record list) result option" where
  "scan_records api keratin cursor records =
     (case ka_scan_from api cursor scan_page keratin of
        Inl error \<Rightarrow> Some (Inl (Io error))
      | Inr batch \<Rightarrow>
          if batch = [] then Some (Inr records)
          else scan_records api keratin (u64_saturating_add1 (fst (last batch))) (records @ batch))"

definition record_error :: "u64 \<Rightarrow> string \<Rightarrow> MetadataLogError" where
  "record_error record_offset error =
     Parse (''record at offset '' @ show_nat (unat record_offset) @ '': '' @ error)"

definition km_recoverable_tail_error ::
    "FileMetadataReplayPolicy \<Rightarrow> MetadataLogError \<Rightarrow> nat \<Rightarrow> MetadataLogEntry list \<Rightarrow>
     (MetadataLogError, MetadataLogEntry list) result" where
  "km_recoverable_tail_error policy error skipped_tail_records entries =
     (case policy of
        Strict \<Rightarrow> Inl error
      | TruncateTail max_tail_lines \<Rightarrow>
          if skipped_tail_records \<le> max_tail_lines then Inr entries else Inl error)"

fun read_records ::
    "mlog_codec \<Rightarrow> FileMetadataReplayPolicy \<Rightarrow> owned_record list \<Rightarrow> MetadataLogEntry list \<Rightarrow>
     (MetadataLogError, MetadataLogEntry list) result" where
  "read_records codec policy [] entries = Inr entries"
| "read_records codec policy ((record_offset, payload) # rest) entries =
     (let recover = (\<lambda>error. km_recoverable_tail_error policy (record_error record_offset error)
                       (length rest + 1) entries)
      in case dec_line codec payload of
           Inl error \<Rightarrow> recover error
         | Inr persisted \<Rightarrow>
             let expected_index = (if entries = [] then pe_index persisted else ml_index (last entries) + 1)
             in if pe_index persisted = 0 then recover ''metadata log index must be >= 1''
                else if pe_index persisted \<noteq> expected_index then
                  recover (''non-sequential log index; expected '' @ show_nat (unat expected_index)
                    @ '', got '' @ show_nat (unat (pe_index persisted)))
                else case decode_snapshot codec (pe_snapshot persisted) of
                       Inl error \<Rightarrow> Inl error
                     | Inr snapshot \<Rightarrow>
                         read_records codec policy rest
                           (entries @ [\<lparr>ml_term = pe_term persisted, ml_index = pe_index persisted,
                                        ml_snapshot = snapshot\<rparr>]))"

definition km_read_all_entries ::
    "mlog_codec \<Rightarrow> 'k keratin_api \<Rightarrow> 'k KeratinMetadataLog \<Rightarrow>
     (MetadataLogError, MetadataLogEntry list) result option" where
  "km_read_all_entries codec api self =
     map_option
       (\<lambda>scanned. case scanned of
          Inl error \<Rightarrow> Inl error
        | Inr records \<Rightarrow> read_records codec (km_replay_policy self) records [])
       (scan_records api (km_keratin self) 0 [])"

section \<open>Writing\<close>

definition switch_to_follower_and_reset ::
    "'k keratin_api \<Rightarrow> u64 \<Rightarrow> 'k KeratinMetadataLog \<Rightarrow> 'k KeratinMetadataLog \<times> (MetadataLogError, unit) result" where
  "switch_to_follower_and_reset api next_offset self =
     (let previous_role = ka_role api (km_keratin self) in
      case ka_destructive_reset api next_offset (ka_set_role api RoleFollower (km_keratin self)) of
        (keratin, result) \<Rightarrow>
          (self\<lparr>km_keratin := ka_set_role api previous_role keratin\<rparr>,
           case result of Inl error \<Rightarrow> Inl (Io error) | Inr _ \<Rightarrow> Inr ()))"

definition append_raw_entry ::
    "mlog_codec \<Rightarrow> 'k keratin_api \<Rightarrow> MetadataLogEntry \<Rightarrow> 'k KeratinMetadataLog \<Rightarrow>
     'k KeratinMetadataLog \<times> (MetadataLogError, MetadataLogEntry) result" where
  "append_raw_entry codec api entry self =
     (case encode_entry codec entry of
        Inl error \<Rightarrow> (self, Inl error)
      | Inr payload \<Rightarrow>
          (case ka_append api payload (km_keratin self) of
             (keratin, Inl error) \<Rightarrow> (self\<lparr>km_keratin := keratin\<rparr>, Inl (Io error))
           | (keratin, Inr _) \<Rightarrow> (self\<lparr>km_keratin := keratin\<rparr>, Inr entry)))"

definition km_append_entry ::
    "mlog_codec \<Rightarrow> 'k keratin_api \<Rightarrow> u64 \<Rightarrow> CoordinationSnapshot \<Rightarrow> 'k KeratinMetadataLog \<Rightarrow>
     ('k KeratinMetadataLog \<times> (MetadataLogError, MetadataLogEntry) result) option" where
  "km_append_entry codec api term snapshot self =
     (if km_poisoned self then Some (self, Inl lock_poisoned)
      else map_option
        (\<lambda>read. case read of
           Inl error \<Rightarrow> (self, Inl error)
         | Inr entries \<Rightarrow>
             append_raw_entry codec api
               \<lparr>ml_term = term, ml_index = next_log_index entries, ml_snapshot = snapshot\<rparr> self)
        (km_read_all_entries codec api self))"

definition km_latest_entry ::
    "mlog_codec \<Rightarrow> 'k keratin_api \<Rightarrow> 'k KeratinMetadataLog \<Rightarrow>
     (MetadataLogError, MetadataLogEntry option) result option" where
  "km_latest_entry codec api self =
     (if km_poisoned self then Some (Inl lock_poisoned)
      else map_option
        (\<lambda>read. case read of Inl error \<Rightarrow> Inl error | Inr entries \<Rightarrow> Inr (last_entry entries))
        (km_read_all_entries codec api self))"

definition km_read_entries ::
    "mlog_codec \<Rightarrow> 'k keratin_api \<Rightarrow> 'k KeratinMetadataLog \<Rightarrow>
     (MetadataLogError, MetadataLogEntry list) result option" where
  "km_read_entries codec api self =
     (if km_poisoned self then Some (Inl lock_poisoned) else km_read_all_entries codec api self)"

definition km_clear ::
    "'k keratin_api \<Rightarrow> 'k KeratinMetadataLog \<Rightarrow> 'k KeratinMetadataLog \<times> (MetadataLogError, unit) result" where
  "km_clear api self =
     (if km_poisoned self then (self, Inl lock_poisoned) else switch_to_follower_and_reset api 0 self)"

fun append_raw_entries ::
    "mlog_codec \<Rightarrow> 'k keratin_api \<Rightarrow> MetadataLogEntry list \<Rightarrow> 'k KeratinMetadataLog \<Rightarrow>
     'k KeratinMetadataLog \<times> (MetadataLogError, unit) result" where
  "append_raw_entries codec api [] self = (self, Inr ())"
| "append_raw_entries codec api (entry # rest) self =
     (case append_raw_entry codec api entry self of
        (self', Inl error) \<Rightarrow> (self', Inl error)
      | (self', Inr _) \<Rightarrow> append_raw_entries codec api rest self')"

definition km_truncate_from ::
    "mlog_codec \<Rightarrow> 'k keratin_api \<Rightarrow> u64 \<Rightarrow> 'k KeratinMetadataLog \<Rightarrow>
     ('k KeratinMetadataLog \<times> (MetadataLogError, unit) result) option" where
  "km_truncate_from codec api first_index self =
     (if km_poisoned self then Some (self, Inl lock_poisoned)
      else map_option
        (\<lambda>read. case read of
           Inl error \<Rightarrow> (self, Inl error)
         | Inr entries \<Rightarrow>
             (case switch_to_follower_and_reset api 0 self of
                (self', Inl error) \<Rightarrow> (self', Inl error)
              | (self', Inr _) \<Rightarrow>
                  append_raw_entries codec api
                    (filter (\<lambda>entry. first_kept first_index \<le> ml_index entry) entries) self'))
        (km_read_all_entries codec api self))"

section \<open>What the store promises\<close>

text \<open>
  \<open>view\<close> is the stored records in order and \<open>ends\<close> the offset the next one gets.  A scan returns the
  records from an offset on, in order, at least one when there is one.  An owner appends at the
  end; a follower can be reset to an empty store that continues at an offset; changing the role
  changes nothing else.  These are the laws of a store whose calls succeed; a call that fails is a branch
  of the definitions above, which hand its error on, and no theorem here is about such a store.
\<close>

definition keratin_ok :: "'k keratin_api \<Rightarrow> ('k \<Rightarrow> owned_record list) \<Rightarrow> ('k \<Rightarrow> u64) \<Rightarrow> bool" where
  "keratin_ok api view ends \<longleftrightarrow>
     (\<forall>k. sorted_wrt (<) (map fst (view k)) \<and> (\<forall>r \<in> set (view k). fst r < ends k))
     \<and> (\<forall>k c n. 0 < n \<longrightarrow> (\<exists>m. 0 < m \<and> ka_scan_from api c n k = Inr (take m (filter (\<lambda>r. c \<le> fst r) (view k)))))
     \<and> (\<forall>k p. ka_role api k = RoleOwner \<longrightarrow> ends k \<noteq> u64_max \<longrightarrow>
          (\<exists>k'. ka_append api p k = (k', Inr ()) \<and> view k' = view k @ [(ends k, p)]
             \<and> ends k' = ends k + 1 \<and> ka_role api k' = RoleOwner))
     \<and> (\<forall>k c. ka_role api k = RoleFollower \<longrightarrow>
          (\<exists>k'. ka_destructive_reset api c k = (k', Inr ()) \<and> view k' = [] \<and> ends k' = c
             \<and> ka_role api k' = RoleFollower))
     \<and> (\<forall>k role. ka_role api (ka_set_role api role k) = role \<and> view (ka_set_role api role k) = view k
          \<and> ends (ka_set_role api role k) = ends k)"

lemma keratin_okD:
  assumes "keratin_ok api view ends"
  shows "sorted_wrt (<) (map fst (view k))" "r \<in> set (view k) \<Longrightarrow> fst r < ends k"
    and "0 < n \<Longrightarrow> \<exists>m. 0 < m \<and> ka_scan_from api c n k = Inr (take m (filter (\<lambda>r. c \<le> fst r) (view k)))"
    and "ka_role api k = RoleOwner \<Longrightarrow> ends k \<noteq> u64_max \<Longrightarrow>
      \<exists>k'. ka_append api p k = (k', Inr ()) \<and> view k' = view k @ [(ends k, p)]
        \<and> ends k' = ends k + 1 \<and> ka_role api k' = RoleOwner"
    and "ka_role api k = RoleFollower \<Longrightarrow> \<exists>k'. ka_destructive_reset api c k = (k', Inr ())
        \<and> view k' = [] \<and> ends k' = c \<and> ka_role api k' = RoleFollower"
    and "ka_role api (ka_set_role api role k) = role" "view (ka_set_role api role k) = view k"
      "ends (ka_set_role api role k) = ends k"
  using assms unfolding keratin_ok_def by blast+

section \<open>The scan\<close>

text \<open>In increasing records, what lies behind the last of the first \<open>m\<close> is the rest.\<close>

lemma filter_behind:
  assumes "sorted_wrt (<) (map fst rs)" "0 < m" "rs \<noteq> []" "\<forall>r \<in> set rs. fst r \<noteq> u64_max"
  shows "filter (\<lambda>r. u64_saturating_add1 (fst (last (take m rs))) \<le> fst r) rs = drop m rs"
proof -
  let ?l = "last (take m rs)"
  have ne: "take m rs \<noteq> []" using assms(2,3) by auto
  have l: "?l \<in> set rs" using last_in_set [OF ne] by (auto dest: in_set_takeD)
  have c: "u64_saturating_add1 (fst ?l) \<le> x \<longleftrightarrow> fst ?l < x" for x
    using assms(4) l by (simp add: u64_saturating_exact u64_succ_le_iff)
  have split: "sorted_wrt (<) (map fst (take m rs) @ map fst (drop m rs))"
    using assms(1) by (metis append_take_drop_id map_append)
  have low: "fst r \<le> fst ?l" if r: "r \<in> set (take m rs)" for r
  proof -
    obtain xs l where xs: "take m rs = xs @ [l]" using ne by (metis append_butlast_last_id)
    have "sorted_wrt (<) (map fst (xs @ [l]))" using split xs by (metis sorted_wrt_append)
    then show ?thesis using r by (auto simp: xs sorted_wrt_append order.strict_implies_order)
  qed
  have high: "fst ?l < fst r" if "r \<in> set (drop m rs)" for r
    using split that last_in_set [OF ne] by (auto simp: sorted_wrt_append)
  have "filter (\<lambda>r. fst ?l < fst r) (take m rs) = []" using low by (auto simp: filter_empty_conv dest: leD)
  moreover have "filter (\<lambda>r. fst ?l < fst r) (drop m rs) = drop m rs" using high by (simp add: filter_id_conv)
  ultimately have "filter (\<lambda>r. fst ?l < fst r) rs = drop m rs"
    by (metis append_Nil append_take_drop_id filter_append)
  then show ?thesis by (simp add: c)
qed

lemma scan_from_cursor:
  assumes ok: "keratin_ok api view ends"
    and at: "filter (\<lambda>r. cursor \<le> fst r) (view k) = rs"
  shows "scan_records api k cursor acc = Some (Inr (acc @ rs))"
  using at
proof (induction "length rs" arbitrary: cursor acc rs rule: less_induct)
  case less
  obtain m where m: "0 < m" "ka_scan_from api cursor scan_page k = Inr (take m rs)"
    using keratin_okD(3) [OF ok, of scan_page cursor k] less.prems by (auto simp: scan_page_def)
  show ?case
  proof (cases "rs = []")
    case True
    then show ?thesis using m by (subst scan_records.simps) simp
  next
    case False
    have sorted: "sorted_wrt (<) (map fst rs)"
      unfolding less.prems [symmetric] using keratin_okD(1) [OF ok, of k]
      by (auto simp: sorted_wrt_map intro: sorted_wrt_filter)
    have sub: "r \<in> set rs \<Longrightarrow> r \<in> set (view k)" for r using less.prems by auto
    have bounded: "\<forall>r \<in> set rs. fst r \<noteq> u64_max"
      using keratin_okD(2) [OF ok] sub by (metis leD word_order.extremum)
    let ?c = "u64_saturating_add1 (fst (last (take m rs)))"
    have last: "last (take m rs) \<in> set rs" using m(1) False by (metis in_set_takeD last_in_set take_eq_Nil neq0_conv)
    then have "cursor \<le> fst (last (take m rs))" using less.prems by auto
    moreover have "fst (last (take m rs)) \<le> ?c"
      using bounded last by (simp add: u64_saturating_exact u64_less_succ order.strict_implies_order)
    ultimately have "filter (\<lambda>r. ?c \<le> fst r) (view k) = filter (\<lambda>r. ?c \<le> fst r) rs"
      unfolding less.prems [symmetric] by (auto simp: filter_filter intro!: filter_cong)
    then have rest: "filter (\<lambda>r. ?c \<le> fst r) (view k) = drop m rs"
      using filter_behind [OF sorted m(1) False bounded] by simp
    have "length (drop m rs) < length rs" using m(1) False by simp
    from less.hyps [OF this rest, of "acc @ take m rs"] show ?thesis
      using m False by (subst scan_records.simps) simp
  qed
qed

section \<open>The log keeps the contract\<close>

lemma read_records_encoded:
  assumes codec: "mlog_codec_ok codec" and "encode_entries codec es = (map snd rs, None)" "consecutive (pre @ es)"
  shows "read_records codec policy (rs @ rest) pre = read_records codec policy rest (pre @ es)"
  using assms(2,3)
proof (induction es arbitrary: rs pre)
  case (Cons e es)
  then obtain l ls where l: "encode_entry codec e = Inr l" "encode_entries codec es = (ls, None)" "map snd rs = l # ls"
    by (auto split: sum.splits prod.splits)
  then obtain r rs' where r: "rs = r # rs'" "snd r = l" "map snd rs' = ls" by auto
  obtain p where p: "dec_line codec l = Inr p" "pe_term p = ml_term e" "pe_index p = ml_index e"
    "decode_snapshot codec (pe_snapshot p) = Inr (ml_snapshot e)" using encoded_line(4) [OF codec l(1)] by blast
  have "consecutive (pre @ [e])" using Cons.prems(2) consecutive_prefix [of "pre @ [e]" es] by simp
  then have "ml_index e \<noteq> 0" "(if pre = [] then ml_index e else ml_index (last pre) + 1) = ml_index e"
    by (auto simp: consecutive_append1)
  then have "read_records codec policy (rs @ rest) pre = read_records codec policy (rs' @ rest)
      (pre @ [\<lparr>ml_term = ml_term e, ml_index = ml_index e, ml_snapshot = ml_snapshot e\<rparr>])"
    using p r by (cases r; cases "pre = []") (simp_all add: Let_def)
  also have "\<lparr>ml_term = ml_term e, ml_index = ml_index e, ml_snapshot = ml_snapshot e\<rparr> = e" by simp
  also have "read_records codec policy (rs' @ rest) (pre @ [e]) = read_records codec policy rest ((pre @ [e]) @ es)"
    by (rule Cons.IH) (use l(2) r(3) Cons.prems(2) in simp_all)
  finally show ?case by simp
qed simp

definition km_contents ::
    "mlog_codec \<Rightarrow> 'k keratin_api \<Rightarrow> 'k KeratinMetadataLog \<Rightarrow> MetadataLogEntry list" where
  "km_contents codec api self =
     (case km_read_all_entries codec api self of Some (Inr es) \<Rightarrow> es | _ \<Rightarrow> [])"

text \<open>\<open>es\<close> are the stored entries; the next offset is not ahead of the last index.\<close>

definition km_holds ::
    "mlog_codec \<Rightarrow> 'k keratin_api \<Rightarrow> ('k \<Rightarrow> owned_record list) \<Rightarrow> ('k \<Rightarrow> u64) \<Rightarrow>
     MetadataLogEntry list \<Rightarrow> 'k KeratinMetadataLog \<Rightarrow> bool" where
  "km_holds codec api view ends es self \<longleftrightarrow> mlog_codec_ok codec \<and> keratin_ok api view ends
     \<and> \<not> km_poisoned self \<and> ka_role api (km_keratin self) = RoleOwner
     \<and> consecutive es \<and> encode_entries codec es = (map snd (view (km_keratin self)), None)
     \<and> unat (ends (km_keratin self)) \<le> unat (last_index es)"

definition km_inv ::
    "mlog_codec \<Rightarrow> 'k keratin_api \<Rightarrow> ('k \<Rightarrow> owned_record list) \<Rightarrow> ('k \<Rightarrow> u64) \<Rightarrow>
     'k KeratinMetadataLog \<Rightarrow> bool" where
  "km_inv codec api view ends self \<longleftrightarrow> km_holds codec api view ends (km_contents codec api self) self"

lemma km_holds_read:
  assumes "km_holds codec api view ends es self"
  shows "km_read_all_entries codec api self = Some (Inr es)" "km_contents codec api self = es"
proof -
  have ok: "keratin_ok api view ends" using assms by (simp add: km_holds_def)
  have scan: "scan_records api (km_keratin self) 0 [] = Some (Inr (view (km_keratin self)))"
    using scan_from_cursor [OF ok, of 0 "km_keratin self" "view (km_keratin self)" "[]"] by simp
  show r: "km_read_all_entries codec api self = Some (Inr es)"
    using assms read_records_encoded [of codec es "view (km_keratin self)" "[]" "km_replay_policy self" "[]"]
    by (simp add: km_read_all_entries_def scan km_holds_def)
  then show "km_contents codec api self = es" by (simp add: km_contents_def)
qed

lemma km_holds_inv: "km_holds codec api view ends es self \<Longrightarrow> km_inv codec api view ends self"
  by (simp add: km_inv_def km_holds_read(2))

lemma encode_entries_snoc:
  "encode_entries codec es = (ls, None) \<Longrightarrow> encode_entry codec e = Inr l \<Longrightarrow>
     encode_entries codec (es @ [e]) = (ls @ [l], None)"
  by (induction es arbitrary: ls) (auto split: sum.splits prod.splits)

lemma append_raw_holds:
  assumes "km_holds codec api view ends es self" "consecutive (es @ [e])"
    and room: "unat (ends (km_keratin self)) + 1 \<le> unat (ml_index e)"
  shows "\<exists>self'. append_raw_entry codec api e self = (self', Inr e) \<and> km_holds codec api view ends (es @ [e]) self'
    \<and> unat (ends (km_keratin self')) = unat (ends (km_keratin self)) + 1"
proof -
  have h: "mlog_codec_ok codec" "keratin_ok api view ends" "ka_role api (km_keratin self) = RoleOwner"
    "encode_entries codec es = (map snd (view (km_keratin self)), None)" "\<not> km_poisoned self"
    using assms(1) by (auto simp: km_holds_def)
  obtain l where l: "encode_entry codec e = Inr l"
    using encode_entries_total [OF h(1), of "[e]"] by (auto split: sum.splits)
  have "unat (ml_index e) < 2 ^ 64" using unsigned_less [of "ml_index e"] by simp
  then have free: "ends (km_keratin self) \<noteq> u64_max" using room by (simp add: u64_max_unat)
  obtain k where k: "ka_append api l (km_keratin self) = (k, Inr ())"
    "view k = view (km_keratin self) @ [(ends (km_keratin self), l)]"
    "ends k = ends (km_keratin self) + 1" "ka_role api k = RoleOwner"
    using keratin_okD(4) [OF h(2,3) free, of l] by blast
  have "unat (ends k) \<le> unat (last_index (es @ [e]))"
    using room free by (simp add: k(3) u64_unat_succ last_index_def)
  then have "km_holds codec api view ends (es @ [e]) (self\<lparr>km_keratin := k\<rparr>)"
    using h k(2,4) assms(2) encode_entries_snoc [OF h(4) l] by (simp add: km_holds_def)
  then show ?thesis using l k(1,3) free by (simp add: append_raw_entry_def u64_unat_succ)
qed

lemma reset_holds:
  assumes "km_holds codec api view ends es self"
  shows "\<exists>self'. switch_to_follower_and_reset api 0 self = (self', Inr ())
    \<and> km_holds codec api view ends [] self' \<and> ends (km_keratin self') = 0"
proof -
  have h: "mlog_codec_ok codec" "keratin_ok api view ends" "ka_role api (km_keratin self) = RoleOwner"
    "\<not> km_poisoned self" using assms by (auto simp: km_holds_def)
  note D = keratin_okD(6-8) [OF h(2)]
  obtain k where k: "ka_destructive_reset api 0 (ka_set_role api RoleFollower (km_keratin self)) = (k, Inr ())"
    "view k = []" "ends k = 0"
    using keratin_okD(5) [OF h(2), of "ka_set_role api RoleFollower (km_keratin self)" 0] D(1) by blast
  then show ?thesis using h by (simp add: switch_to_follower_and_reset_def km_holds_def D last_index_def)
qed

lemma consecutive_length: "consecutive es \<Longrightarrow> length es \<le> unat (last_index es)"
proof (induction es rule: rev_induct)
  case (snoc e es)
  have c: "consecutive es" "ml_index e \<noteq> 0" "es = [] \<or> ml_index e = ml_index (last es) + 1"
    using snoc.prems by (auto simp: consecutive_append1)
  show ?case
  proof (cases "es = []")
    case True
    have "0 < unat (ml_index e)" using c(2) by (simp add: unat_gt_0)
    then show ?thesis using True by (simp add: last_index_def)
  next
    case False
    then have "unat (ml_index e) = unat (ml_index (last es)) + 1"
      using c(2,3) by (metis add.inverse_inverse eq_neg_iff_add_eq_0 u64_unat_succ)
    then show ?thesis using snoc.IH c(1) False by (simp add: last_index_def)
  qed
qed simp

lemma append_raw_entries_hold:
  assumes "km_holds codec api view ends pre self" "consecutive (pre @ es)"
    and "unat (ends (km_keratin self)) = length pre"
  shows "\<exists>self'. append_raw_entries codec api es self = (self', Inr ()) \<and> km_holds codec api view ends (pre @ es) self'"
  using assms
proof (induction es arbitrary: pre self)
  case (Cons e es)
  have c: "consecutive (pre @ [e])" using Cons.prems(2) consecutive_prefix [of "pre @ [e]" es] by simp
  have "unat (ends (km_keratin self)) + 1 \<le> unat (ml_index e)"
    using consecutive_length [OF c] Cons.prems(3) by (simp add: last_index_def)
  then obtain self' where s: "append_raw_entry codec api e self = (self', Inr e)"
    "km_holds codec api view ends (pre @ [e]) self'" "unat (ends (km_keratin self')) = length (pre @ [e])"
    using append_raw_holds [OF Cons.prems(1) c] Cons.prems(3) by auto
  then show ?case using Cons.IH [OF s(2) _ s(3)] Cons.prems(2) by simp
qed simp

interpretation km: metadata_log "km_inv codec api view ends" "km_contents codec api"
    "\<lambda>t sn s. the (km_append_entry codec api t sn s)" "\<lambda>s. the (km_latest_entry codec api s)"
    "\<lambda>s. the (km_read_entries codec api s)" "km_clear api" "\<lambda>i s. the (km_truncate_from codec api i s)"
  for codec and api :: "'k keratin_api" and view ends
proof unfold_locales
  fix s :: "'k KeratinMetadataLog" assume inv: "km_inv codec api view ends s"
  let ?es = "km_contents codec api s"
  have h: "km_holds codec api view ends ?es s" using inv by (simp add: km_inv_def)
  note r = km_holds_read(1) [OF h]
  have live: "\<not> km_poisoned s" "consecutive ?es" using h by (auto simp: km_holds_def)
  show "consecutive ?es" by (rule live)
  show "the (km_read_entries codec api s) = Inr ?es" using r live by (simp add: km_read_entries_def)
  show "the (km_latest_entry codec api s) = Inr (last_entry ?es)" using r live by (simp add: km_latest_entry_def)
  obtain s0 where s0: "switch_to_follower_and_reset api 0 s = (s0, Inr ())"
    "km_holds codec api view ends [] s0" "ends (km_keratin s0) = 0" using reset_holds [OF h] by blast
  show "\<exists>s'. km_clear api s = (s', Inr ()) \<and> km_inv codec api view ends s' \<and> km_contents codec api s' = []"
    using s0 live km_holds_inv [OF s0(2)] km_holds_read(2) [OF s0(2)] by (simp add: km_clear_def)
  show "\<exists>s'. the (km_truncate_from codec api i s) = (s', Inr ()) \<and> km_inv codec api view ends s'
      \<and> km_contents codec api s' = spec_op (LTruncate i) ?es" for i
  proof -
    obtain s' where "append_raw_entries codec api (spec_op (LTruncate i) ?es) s0 = (s', Inr ())"
      "km_holds codec api view ends (spec_op (LTruncate i) ?es) s'"
      using append_raw_entries_hold [OF s0(2), of "spec_op (LTruncate i) ?es"] s0(3) consecutive_filter [OF live(2)]
      by auto
    then show ?thesis using r live s0(1) km_holds_inv km_holds_read(2) by (fastforce simp: km_truncate_from_def)
  qed
  fix t sn assume room: "room 1 ?es"
  let ?e = "\<lparr>ml_term = t, ml_index = next_log_index ?es, ml_snapshot = sn\<rparr>"
  have "room (Suc 0) ?es" using room by simp
  note idx = next_log_index_room(2) [OF this] consecutive_spec_append [OF live(2) this, of t sn]
  have "unat (ends (km_keratin s)) + 1 \<le> unat (ml_index ?e)" using h idx(1) by (simp add: km_holds_def)
  then obtain s' where s': "append_raw_entry codec api ?e s = (s', Inr ?e)"
    "km_holds codec api view ends (?es @ [?e]) s'" using append_raw_holds [OF h, of ?e] idx(2) by auto
  then show "\<exists>s'. the (km_append_entry codec api t sn s) = (s', Inr ?e) \<and> km_inv codec api view ends s'
      \<and> km_contents codec api s' = spec_op (LAppend t sn) ?es"
    using r live km_holds_inv [OF s'(2)] km_holds_read(2) [OF s'(2)] by (simp add: km_append_entry_def)
qed

section \<open>Properties\<close>

fun km_op :: "mlog_codec \<Rightarrow> 'k keratin_api \<Rightarrow> log_op \<Rightarrow> 'k KeratinMetadataLog \<Rightarrow> 'k KeratinMetadataLog" where
  "km_op codec api (LAppend t sn) s = fst (the (km_append_entry codec api t sn s))"
| "km_op codec api LClear s = fst (km_clear api s)"
| "km_op codec api (LTruncate i) s = fst (the (km_truncate_from codec api i s))"

lemma run_op_km: "km.run_op codec api = km_op codec api"
  by (rule ext, rule ext) (case_tac x; simp)

lemma fold_room:
  "consecutive es \<Longrightarrow> room (length ops + n) es \<Longrightarrow> room n (fold spec_op ops es)"
proof (induction ops arbitrary: es)
  case (Cons p ops)
  have r: "room (Suc (length ops + n)) es" using Cons.prems(2) by simp
  have "consecutive (spec_op p es)"
    using Cons.prems(1) consecutive_spec_append [OF Cons.prems(1) r] by (cases p) (auto simp: consecutive_filter)
  then show ?case using Cons.IH [of "spec_op p es"] room_spec_op [OF Cons.prems(1) r] by simp
qed simp

text \<open>
  C24. Reading the record store always returns, and reads everything once: whatever page size the
  store answers with, the scan from offset 0 ends and hands every stored record to the replay, in
  order.
\<close>

theorem keratin_scan_returns:
  assumes "keratin_ok api view ends"
  shows "km_read_all_entries codec api self
    = Some (read_records codec (km_replay_policy self) (view (km_keratin self)) [])"
  using scan_from_cursor [OF assms, of 0 "km_keratin self" "view (km_keratin self)" "[]"]
  by (simp add: km_read_all_entries_def)

text \<open>
  C23. The log over the record store implements the same abstract log as the other two: on a store
  that starts empty, after any sequence of appends, clears and truncations that fits the 64-bit
  index, every operation returns and the log holds the list the abstract operations build.
\<close>

theorem keratin_log_refines_list:
  fixes policy :: FileMetadataReplayPolicy
  assumes codec: "mlog_codec_ok codec" and store: "keratin_ok api view ends"
    and fits: "length ops + 1 < 2 ^ 64"
    and fresh: "view k = []" "ends k = 0" "ka_role api k = RoleOwner"
  defines "s \<equiv> fold (km_op codec api) ops \<lparr>km_keratin = k, km_poisoned = False, km_replay_policy = policy\<rparr>"
    and "es \<equiv> fold spec_op ops []"
  shows "km_read_entries codec api s = Some (Inr es) \<and> km_latest_entry codec api s = Some (Inr (last_entry es))
    \<and> (\<exists>s'. km_append_entry codec api t sn s =
          Some (s', Inr \<lparr>ml_term = t, ml_index = next_log_index es, ml_snapshot = sn\<rparr>))
    \<and> (\<exists>s'. km_truncate_from codec api i s = Some (s', Inr ()))"
proof -
  let ?s0 = "\<lparr>km_keratin = k, km_poisoned = False, km_replay_policy = policy\<rparr>"
  have h0: "km_holds codec api view ends [] ?s0" using assms by (simp add: km_holds_def last_index_def)
  have "room (length ops) []" using fits by (simp add: room_def last_index_def)
  then have inv: "km_inv codec api view ends s" "km_contents codec api s = es"
    using km.run_ops [OF km_holds_inv [OF h0], of ops] km_holds_read(2) [OF h0]
    by (simp_all add: run_op_km s_def es_def)
  have h: "km_holds codec api view ends es s" using inv by (simp add: km_inv_def)
  note r = km_holds_read(1) [OF h]
  have live: "\<not> km_poisoned s" using h by (simp add: km_holds_def)
  have "room 1 es"
    using fold_room [of "[]" ops 1] fits by (simp add: es_def room_def last_index_def)
  then show ?thesis
    using km.append [OF inv(1), of t sn] km.truncate [OF inv(1), of i] r live inv(2)
    by (auto simp: km_read_entries_def km_latest_entry_def km_append_entry_def km_truncate_from_def)
qed

text \<open>
  An append after a recovered tail is lost.  When the store ends in a record that does not
  decode and the tail policy skips it, an append is acknowledged but its record lies behind the
  skipped one: the next read skips two records, so it returns the old entries, or fails when the
  policy allows only one.
\<close>

theorem keratin_append_after_recovery_lost:
  assumes codec: "mlog_codec_ok codec" and store: "keratin_ok api view ends"
    and entries: "consecutive es" "encode_entries codec es = (map snd rs, None)"
    and tail: "view (km_keratin self) = rs @ [(bad_offset, junk)]" "dec_line codec junk = Inl error"
    and policy: "km_replay_policy self = TruncateTail m" "1 \<le> m"
    and live: "\<not> km_poisoned self" "ka_role api (km_keratin self) = RoleOwner" "ends (km_keratin self) \<noteq> u64_max"
  shows "km_read_entries codec api self = Some (Inr es)
    \<and> (\<exists>self' entry. km_append_entry codec api t sn self = Some (self', Inr entry)
      \<and> km_read_entries codec api self' =
          Some (if 2 \<le> m then Inr es else Inl (record_error bad_offset error)))"
proof -
  have read: "read_records codec policy (rs @ (bad_offset, junk) # rest) [] =
      km_recoverable_tail_error policy (record_error bad_offset error) (length rest + 1) es" for policy rest
    using read_records_encoded [OF codec entries(2), of "[]" policy "(bad_offset, junk) # rest"] entries(1) tail(2)
    by simp
  have all: "km_read_all_entries codec api u =
      Some (read_records codec (km_replay_policy u) (view (km_keratin u)) [])" for u
    using scan_from_cursor [OF store, of 0 "km_keratin u" "view (km_keratin u)" "[]"]
    by (simp add: km_read_all_entries_def)
  let ?e = "\<lparr>ml_term = t, ml_index = next_log_index es, ml_snapshot = sn\<rparr>"
  obtain l where l: "encode_entry codec ?e = Inr l"
    using encode_entries_total [OF codec, of "[?e]"] by (auto split: sum.splits)
  obtain k where k: "ka_append api l (km_keratin self) = (k, Inr ())"
    "view k = view (km_keratin self) @ [(ends (km_keratin self), l)]"
    using keratin_okD(4) [OF store live(2,3)] by blast
  have now: "km_read_all_entries codec api self = Some (Inr es)"
    using read [of "TruncateTail m" "[]"] policy by (simp add: all tail(1) km_recoverable_tail_error_def)
  then have "km_append_entry codec api t sn self = Some (self\<lparr>km_keratin := k\<rparr>, Inr ?e)"
    using l k(1) live(1) by (simp add: km_append_entry_def append_raw_entry_def)
  moreover have "km_read_entries codec api (self\<lparr>km_keratin := k\<rparr>) =
      Some (if 2 \<le> m then Inr es else Inl (record_error bad_offset error))"
    using read [of "TruncateTail m" "[(ends (km_keratin self), l)]"] policy(1) live(1)
    by (simp add: km_read_entries_def all k(2) tail(1) km_recoverable_tail_error_def)
  ultimately show ?thesis using now live(1) by (simp add: km_read_entries_def)
qed

section \<open>Witnesses\<close>

text \<open>A store of payloads at consecutive offsets, full at the last offset.\<close>

record page_store =
  ps_base :: nat
  ps_payloads :: "string list"
  ps_role :: KeratinRole

definition ps_end :: "page_store \<Rightarrow> nat" where
  "ps_end k = ps_base k + length (ps_payloads k)"

definition ps_view :: "page_store \<Rightarrow> owned_record list" where
  "ps_view k = (if ps_end k < 2 ^ 64 then zip (map of_nat [ps_base k..<ps_end k]) (ps_payloads k) else [])"

definition ps_ends :: "page_store \<Rightarrow> u64" where
  "ps_ends k = (if ps_end k < 2 ^ 64 then of_nat (ps_end k) else u64_max)"

definition ps_api :: "page_store keratin_api" where
  "ps_api = \<lparr>
     ka_scan_from = (\<lambda>c n k. Inr (take n (filter (\<lambda>r. c \<le> fst r) (ps_view k)))),
     ka_append = (\<lambda>p k. if ps_role k = RoleOwner then (k\<lparr>ps_payloads := ps_payloads k @ [p]\<rparr>, Inr ())
                       else (k, Inl ''not the owner'')),
     ka_destructive_reset = (\<lambda>c k. (\<lparr>ps_base = unat c, ps_payloads = [], ps_role = ps_role k\<rparr>, Inr ())),
     ka_role = ps_role, ka_set_role = (\<lambda>role k. k\<lparr>ps_role := role\<rparr>)\<rparr>"

lemma ps_offsets:
  assumes "b < 2 ^ 64"
  shows "sorted_wrt (<) (map (of_nat :: nat \<Rightarrow> u64) [a..<b])"
    and "x \<in> set (map (of_nat :: nat \<Rightarrow> u64) [a..<b]) \<Longrightarrow> x < of_nat b"
proof -
  have lt: "(of_nat i :: u64) < of_nat j" if "i < j" "j \<le> b" for i j
    using that assms by (simp add: word_less_nat_alt unsigned_of_nat take_bit_nat_eq_self)
  show "sorted_wrt (<) (map (of_nat :: nat \<Rightarrow> u64) [a..<b])"
    unfolding sorted_wrt_map by (rule sorted_wrt_mono_rel [OF _ sorted_wrt_upt]) (auto intro: lt)
  show "x \<in> set (map (of_nat :: nat \<Rightarrow> u64) [a..<b]) \<Longrightarrow> x < of_nat b" by (auto intro: lt)
qed

lemma ps_ok: "keratin_ok ps_api ps_view ps_ends"
proof -
  have len: "length [ps_base k..<ps_end k] = length (ps_payloads k)" for k by (simp add: ps_end_def)
  have offsets: "map fst (ps_view k) = (if ps_end k < 2 ^ 64 then map of_nat [ps_base k..<ps_end k] else [])" for k
    using len [of k] by (simp add: ps_view_def)
  have sorted: "sorted_wrt (<) (map fst (ps_view k))" for k
    using ps_offsets(1) [of "ps_end k" "ps_base k"] by (simp only: offsets split: if_split) simp
  have below: "fst r < ps_ends k" if "r \<in> set (ps_view k)" for r k
  proof -
    have "fst r \<in> set (map fst (ps_view k))" using that by simp
    then show ?thesis using ps_offsets(2) [of "ps_end k"] by (auto simp: offsets ps_ends_def split: if_splits)
  qed
  have full: "ps_end k + 1 < 2 ^ 64" if "ps_ends k \<noteq> u64_max" for k
  proof (cases "ps_end k < 2 ^ 64")
    case True
    then have "(of_nat (ps_end k) :: u64) \<noteq> u64_max" using that by (simp add: ps_ends_def)
    then show ?thesis using True by (simp add: u64_max_unat unsigned_of_nat take_bit_nat_eq_self)
  qed (use that in \<open>simp add: ps_ends_def\<close>)
  have append: "ps_view (k\<lparr>ps_payloads := ps_payloads k @ [p]\<rparr>) = ps_view k @ [(ps_ends k, p)]
      \<and> ps_ends (k\<lparr>ps_payloads := ps_payloads k @ [p]\<rparr>) = ps_ends k + 1" if "ps_ends k \<noteq> u64_max" for k p
    using full [OF that] by (simp add: ps_view_def ps_ends_def ps_end_def)
  have reset: "ps_view \<lparr>ps_base = unat c, ps_payloads = [], ps_role = role\<rparr> = []
      \<and> ps_ends \<lparr>ps_base = unat c, ps_payloads = [], ps_role = role\<rparr> = c" for c role
  proof -
    have "unat c < 2 ^ 64" using unsigned_less [of c] by simp
    then show ?thesis by (simp add: ps_view_def ps_ends_def ps_end_def)
  qed
  have role: "ps_view (k\<lparr>ps_role := role\<rparr>) = ps_view k \<and> ps_ends (k\<lparr>ps_role := role\<rparr>) = ps_ends k" for k role
    by (simp add: ps_view_def ps_ends_def ps_end_def)
  show ?thesis unfolding keratin_ok_def ps_api_def
    using sorted below append reset role by auto
qed

definition empty_store :: page_store where
  "empty_store = \<lparr>ps_base = 0, ps_payloads = [], ps_role = RoleOwner\<rparr>"

lemma empty_store: "ps_view empty_store = []" "ps_ends empty_store = 0" "ka_role ps_api empty_store = RoleOwner"
  by (simp_all add: empty_store_def ps_view_def ps_ends_def ps_end_def ps_api_def)

theorem keratin_scan_returns_witness:
  "km_read_all_entries unary_mlog ps_api
     \<lparr>km_keratin = empty_store, km_poisoned = False, km_replay_policy = Strict\<rparr> = Some (Inr [])"
  using keratin_scan_returns [OF ps_ok, of unary_mlog
      "\<lparr>km_keratin = empty_store, km_poisoned = False, km_replay_policy = Strict\<rparr>"]
  by (simp add: empty_store)

theorem keratin_log_refines_list_witness:
  "km_read_entries unary_mlog ps_api (fold (km_op unary_mlog ps_api) demo_log_ops
     \<lparr>km_keratin = empty_store, km_poisoned = False, km_replay_policy = Strict\<rparr>) = Some (Inr demo_log_list)"
proof -
  have "length demo_log_ops + 1 < 2 ^ 64" by (simp add: demo_log_ops_def)
  from keratin_log_refines_list [OF unary_mlog_ok ps_ok this empty_store, of Strict] show ?thesis
    by (simp add: demo_log_spec)
qed

theorem keratin_append_after_recovery_lost_witness:
  "\<exists>self' entry. km_append_entry unary_mlog ps_api 1 CoordinationSnapshot_default
       \<lparr>km_keratin = empty_store\<lparr>ps_payloads := [''torn'']\<rparr>, km_poisoned = False,
        km_replay_policy = TruncateTail 1\<rparr> = Some (self', Inr entry)
     \<and> km_read_entries unary_mlog ps_api self' = Some (Inl (record_error 0 ''syntax''))"
proof -
  let ?self = "\<lparr>km_keratin = empty_store\<lparr>ps_payloads := [''torn'']\<rparr>, km_poisoned = False,
        km_replay_policy = TruncateTail 1\<rparr>"
  have v: "ps_view (km_keratin ?self) = [] @ [(0, ''torn'')]" "ps_ends (km_keratin ?self) = 1"
    by (simp_all add: empty_store_def ps_view_def ps_ends_def ps_end_def)
  have d: "dec_line unary_mlog ''torn'' = Inl ''syntax''"
    by (simp add: unary_mlog_def unary_decode_def unary_text_def eval_nat_numeral)
  have one: "(1 :: u64) \<noteq> u64_max" by code_simp
  show ?thesis
    using keratin_append_after_recovery_lost [OF unary_mlog_ok ps_ok, of "[]" "[]" ?self 0 "''torn''" "''syntax''" 1]
      v d one by (simp add: ps_api_def empty_store_def)
qed

end
