(* ===== verification/State_Machine.thy ===== *)
theory State_Machine
  imports Json_Model
begin

text \<open>
  The replicated state machine of \<^verbatim>\<open>openraft_runtime/storage.rs\<close>: applying committed commands,
  publishing to watchers, building, persisting, installing and reloading snapshots.

  The \<^verbatim>\<open>watch\<close> channel is its current value together with a count of the sends, so that a
  wake-up is visible.  The snapshot file and its temporary sibling are two optional contents;
  a file operation may fail, and the argument \<open>fault\<close> says which one does.  The JSON encoder and
  decoder of the serialization library are the fields of a codec argument.
\<close>

section \<open>Commands\<close>

text \<open>The outcome of a command: the rejection, the new state, and whether it set \<^verbatim>\<open>state_changed\<close>.\<close>

type_synonym outcome = "MetadataRejection option \<times> CoordinationSnapshot \<times> bool"

definition bump_generation :: "CoordinationSnapshot \<Rightarrow> CoordinationSnapshot" where
  "bump_generation s = s\<lparr>cs_generation := cs_generation s + 1\<rparr>"

definition replace_snapshot :: "CoordinationSnapshot \<Rightarrow> CoordinationSnapshot \<Rightarrow> outcome" where
  "replace_snapshot state snapshot =
     (if cs_generation snapshot < cs_generation state then (Some StaleGeneration, state, False)
      else (None, snapshot, True))"

definition generation_guard :: "CoordinationSnapshot \<Rightarrow> u64 \<Rightarrow> outcome \<Rightarrow> outcome" where
  "generation_guard state expected_generation body =
     (if cs_generation state \<noteq> expected_generation
      then (Some (GenerationMismatch expected_generation (cs_generation state)), state, False)
      else body)"

definition merge_attributes ::
    "(string, string option) btree \<Rightarrow> (string, string) btree \<Rightarrow> (string, string) btree" where
  "merge_attributes changes attributes =
     fold (\<lambda>e m. case snd e of Some v \<Rightarrow> bt_insert (fst e) v m | None \<Rightarrow> bt_remove (fst e) m)
       (bt_entries changes) attributes"

definition update_partition ::
    "CoordinationSnapshot \<Rightarrow> PartitionAssignment \<Rightarrow> (string, string option) btree \<Rightarrow> outcome" where
  "update_partition state assignment attributes =
     (None,
      bump_generation (state\<lparr>
        cs_assignments := bt_insert (pa_resource assignment) assignment (cs_assignments state),
        cs_attributes := merge_attributes attributes (cs_attributes state)\<rparr>),
      True)"

definition register_node :: "CoordinationSnapshot \<Rightarrow> NodeInfo \<Rightarrow> outcome" where
  "register_node state node =
     (let merged = state\<lparr>cs_nodes := bt_insert (ni_node_id node) node (cs_nodes state)\<rparr> in
      case bt_get (cs_nodes state) (ni_node_id node) of
        Some existing \<Rightarrow>
          if existing = node then (None, state, False)
          else if ni_endpoint existing = ni_endpoint node
               \<and> ni_admin_endpoint existing = ni_admin_endpoint node
            then (None, merged, False)
          else (None, bump_generation merged, True)
      | None \<Rightarrow> (None, bump_generation merged, True))"

definition deregister_node :: "CoordinationSnapshot \<Rightarrow> string \<Rightarrow> outcome" where
  "deregister_node state node_id =
     (if bt_contains_key (cs_nodes state) node_id
      then (None, bump_generation (state\<lparr>cs_nodes := bt_remove node_id (cs_nodes state)\<rparr>), True)
      else (None, state, False))"

definition register_resource :: "CoordinationSnapshot \<Rightarrow> ResourceIdentity \<Rightarrow> outcome" where
  "register_resource state resource =
     (if \<not> bs_contains (cs_resources state) resource
      then (None, bump_generation (state\<lparr>cs_resources := bs_insert resource (cs_resources state)\<rparr>), True)
      else (None, state, False))"

definition register_resource_with_initial_attribute ::
    "CoordinationSnapshot \<Rightarrow> ResourceIdentity \<Rightarrow> string \<Rightarrow> string \<Rightarrow> outcome" where
  "register_resource_with_initial_attribute state resource key val =
     (if \<not> bs_contains (cs_resources state) resource then
        let seeded = (if \<not> bt_contains_key (cs_assignments state) resource
                      then state\<lparr>cs_attributes := bt_insert key val (cs_attributes state)\<rparr>
                      else state)
        in (None, bump_generation (seeded\<lparr>cs_resources := bs_insert resource (cs_resources seeded)\<rparr>), True)
      else (None, state, False))"

definition deregister_resource :: "CoordinationSnapshot \<Rightarrow> ResourceIdentity \<Rightarrow> outcome" where
  "deregister_resource state resource =
     (if bs_contains (cs_resources state) resource
      then (None, bump_generation (state\<lparr>cs_resources := bs_remove resource (cs_resources state)\<rparr>), True)
      else (None, state, False))"

text \<open>
  The shared arm of \<^verbatim>\<open>DeregisterResourceWithAttribute\<close> and
  \<^verbatim>\<open>DeregisterResourceReplacingAttribute\<close>; \<open>retirement_attribute\<close> is the replacement value of the
  latter.
\<close>

definition deregister_resource_with_attribute ::
    "CoordinationSnapshot \<Rightarrow> string option \<Rightarrow> ResourceIdentity \<Rightarrow> string \<Rightarrow> string option \<Rightarrow> outcome" where
  "deregister_resource_with_attribute state retirement_attribute resource key expected =
     (let actual = bt_get (cs_attributes state) key in
      if actual \<noteq> expected then (Some (AttributeMismatch key actual), state, False)
      else
        let removed = bs_contains (cs_resources state) resource;
            (attribute, attributes') =
              (case retirement_attribute of
                 Some val \<Rightarrow> (actual \<noteq> Some val, bt_insert key val (cs_attributes state))
               | None \<Rightarrow> (actual \<noteq> None, bt_remove key (cs_attributes state)));
            state' = state\<lparr>cs_resources := bs_remove resource (cs_resources state),
                           cs_attributes := attributes'\<rparr>
        in if removed \<or> attribute then (None, bump_generation state', True)
           else (None, state', False))"

definition set_attribute :: "CoordinationSnapshot \<Rightarrow> string \<Rightarrow> string \<Rightarrow> outcome" where
  "set_attribute state key val =
     (if bt_get (cs_attributes state) key \<noteq> Some val
      then (None, bump_generation (state\<lparr>cs_attributes := bt_insert key val (cs_attributes state)\<rparr>), True)
      else (None, state, False))"

definition remove_attribute :: "CoordinationSnapshot \<Rightarrow> string \<Rightarrow> outcome" where
  "remove_attribute state key =
     (if bt_contains_key (cs_attributes state) key
      then (None, bump_generation (state\<lparr>cs_attributes := bt_remove key (cs_attributes state)\<rparr>), True)
      else (None, state, False))"

definition compare_and_set_attribute ::
    "CoordinationSnapshot \<Rightarrow> string \<Rightarrow> string option \<Rightarrow> string \<Rightarrow> outcome" where
  "compare_and_set_attribute state key expected val =
     (let actual = bt_get (cs_attributes state) key in
      if actual \<noteq> expected then (Some (AttributeMismatch key actual), state, False)
      else if actual \<noteq> Some val
        then (None, bump_generation (state\<lparr>cs_attributes := bt_insert key val (cs_attributes state)\<rparr>), True)
      else (None, state, False))"

fun apply_command :: "CoordinationSnapshot \<Rightarrow> MetadataRaftCommand \<Rightarrow> outcome" where
  "apply_command state (ApplySnapshot snapshot) = replace_snapshot state snapshot"
| "apply_command state (ApplySnapshotGuarded expected_generation snapshot) =
     generation_guard state expected_generation (replace_snapshot state snapshot)"
| "apply_command state (UpdatePartitionGuarded expected_generation assignment attributes) =
     generation_guard state expected_generation (update_partition state assignment attributes)"
| "apply_command state (RegisterNode node) = register_node state node"
| "apply_command state (DeregisterNode node_id) = deregister_node state node_id"
| "apply_command state (RegisterResource resource) = register_resource state resource"
| "apply_command state (RegisterResourceWithInitialAttribute resource key val) =
     register_resource_with_initial_attribute state resource key val"
| "apply_command state (DeregisterResource resource) = deregister_resource state resource"
| "apply_command state (DeregisterResourceWithAttribute resource key expected) =
     deregister_resource_with_attribute state None resource key expected"
| "apply_command state (DeregisterResourceReplacingAttribute resource key expected val) =
     deregister_resource_with_attribute state (Some val) resource key expected"
| "apply_command state (SetAttribute key val) = set_attribute state key val"
| "apply_command state (RemoveAttribute key) = remove_attribute state key"
| "apply_command state (CompareAndSetAttributeGuarded expected_generation key expected val) =
     generation_guard state expected_generation (compare_and_set_attribute state key expected val)"
| "apply_command state (CompareAndSetAttribute key expected val) =
     compare_and_set_attribute state key expected val"

section \<open>The state machine\<close>

record ('lid, 'm) StoredSnapshot =
  ss_meta :: "('lid, 'm) SnapshotMeta"
  ss_data :: string

instance StoredSnapshot_ext :: (countable, countable, countable) countable
  by (rule countable_classI [of "\<lambda>r. to_nat (ss_meta r, ss_data r, StoredSnapshot.more r)"]) simp

record ('lid, 'm) StateMachineInner =
  in_last_applied :: "'lid LogId option"
  in_last_membership :: "('lid, 'm) StoredMembership"
  in_state :: CoordinationSnapshot
  in_snapshot_idx :: u64
  in_current_snapshot :: "('lid, 'm) StoredSnapshot option"

record ('lid, 'm) GanglionStateMachine =
  gs_inner :: "('lid, 'm) StateMachineInner"
  gs_committed_tx :: CoordinationSnapshot
  gs_published :: nat
  gs_persistent :: bool
  gs_file :: "string option"
  gs_tmp_file :: "string option"
  gs_telemetry :: StorageTelemetry
  gs_fail_snapshot_writes :: bool

text \<open>\<^verbatim>\<open>GanglionStateMachine::default()\<close>; \<open>m0\<close> is the library's default membership.\<close>

definition state_machine_default :: "'m \<Rightarrow> ('lid, 'm) GanglionStateMachine" where
  "state_machine_default m0 =
     \<lparr>gs_inner = \<lparr>in_last_applied = None,
        in_last_membership = \<lparr>sm_log_id = None, sm_membership = m0\<rparr>,
        in_state = CoordinationSnapshot_default, in_snapshot_idx = 0, in_current_snapshot = None\<rparr>,
      gs_committed_tx = CoordinationSnapshot_default, gs_published = 0,
      gs_persistent = False, gs_file = None, gs_tmp_file = None,
      gs_telemetry = StorageTelemetry_default, gs_fail_snapshot_writes = False\<rparr>"

definition send_replace ::
    "CoordinationSnapshot \<Rightarrow> ('lid, 'm) GanglionStateMachine \<Rightarrow> ('lid, 'm) GanglionStateMachine" where
  "send_replace state sm = sm\<lparr>gs_committed_tx := state, gs_published := gs_published sm + 1\<rparr>"

definition apply_entry ::
    "('lid, 'm) StateMachineInner \<Rightarrow> ('lid, 'm) Entry \<Rightarrow>
     ('lid, 'm) StateMachineInner \<times> MetadataRaftResponse \<times> bool" where
  "apply_entry inner entry =
     (let inner = inner\<lparr>in_last_applied := Some (en_log_id entry)\<rparr>;
          (rejection, inner, changed) =
            (case en_payload entry of
               Blank \<Rightarrow> (None, inner, False)
             | Normal command \<Rightarrow>
                 (case apply_command (in_state inner) command of
                    (rejection, state, changed) \<Rightarrow> (rejection, inner\<lparr>in_state := state\<rparr>, changed))
             | Membership membership \<Rightarrow>
                 (None, inner\<lparr>in_last_membership :=
                    \<lparr>sm_log_id = Some (en_log_id entry), sm_membership = membership\<rparr>\<rparr>, False))
      in (inner,
          \<lparr>mr_accepted = (rejection = None), mr_rejection = rejection, mr_snapshot = in_state inner\<rparr>,
          changed))"

fun apply_entries ::
    "('lid, 'm) StateMachineInner \<Rightarrow> ('lid, 'm) Entry list \<Rightarrow>
     ('lid, 'm) StateMachineInner \<times> MetadataRaftResponse list \<times> bool" where
  "apply_entries inner [] = (inner, [], False)"
| "apply_entries inner (entry # entries) =
     (case apply_entry inner entry of
        (inner', reply, changed) \<Rightarrow>
          (case apply_entries inner' entries of
             (inner'', replies, changed') \<Rightarrow> (inner'', reply # replies, changed \<or> changed')))"

definition sm_apply ::
    "('lid, 'm) GanglionStateMachine \<Rightarrow> ('lid, 'm) Entry list \<Rightarrow>
     ('lid, 'm) GanglionStateMachine \<times> (StorageError, MetadataRaftResponse list) result" where
  "sm_apply sm entries =
     (case apply_entries (gs_inner sm) entries of
        (inner, replies, state_changed) \<Rightarrow>
          (let sm' = sm\<lparr>gs_inner := inner\<rparr>
           in (if state_changed then send_replace (in_state inner) sm' else sm', Inr replies)))"

definition sm_read_committed :: "('lid, 'm) GanglionStateMachine \<Rightarrow> (CoordinationSnapshot \<Rightarrow> 'r) \<Rightarrow> 'r" where
  "sm_read_committed sm read = read (in_state (gs_inner sm))"

definition sm_read_committed_at ::
    "('lid, 'm) GanglionStateMachine \<Rightarrow> ('lid LogId option \<Rightarrow> CoordinationSnapshot \<Rightarrow> 'r) \<Rightarrow> 'r" where
  "sm_read_committed_at sm read = read (in_last_applied (gs_inner sm)) (in_state (gs_inner sm))"

definition sm_committed_snapshot :: "('lid, 'm) GanglionStateMachine \<Rightarrow> CoordinationSnapshot" where
  "sm_committed_snapshot sm = in_state (gs_inner sm)"

definition sm_last_applied :: "('lid, 'm) GanglionStateMachine \<Rightarrow> 'lid LogId option" where
  "sm_last_applied sm = in_last_applied (gs_inner sm)"

definition sm_watch_committed :: "('lid, 'm) GanglionStateMachine \<Rightarrow> CoordinationSnapshot" where
  "sm_watch_committed sm = gs_committed_tx sm"

definition sm_applied_state ::
    "('lid, 'm) GanglionStateMachine \<Rightarrow> 'lid LogId option \<times> ('lid, 'm) StoredMembership" where
  "sm_applied_state sm = (in_last_applied (gs_inner sm), in_last_membership (gs_inner sm))"

definition sm_inject_write_failure ::
    "('lid, 'm) GanglionStateMachine \<Rightarrow> bool \<Rightarrow> ('lid, 'm) GanglionStateMachine" where
  "sm_inject_write_failure sm fail = sm\<lparr>gs_fail_snapshot_writes := fail\<rparr>"

section \<open>Snapshot files\<close>

text \<open>
  The encoder and decoder of the serialization library, for the snapshot and for the stored
  snapshot file; \<^const>\<open>Inl\<close> is its error text.
\<close>

record ('lid, 'm) snapshot_codec =
  enc_state :: "CoordinationSnapshot \<Rightarrow> (string, string) result"
  dec_state :: "string \<Rightarrow> (string, CoordinationSnapshot) result"
  enc_stored :: "('lid, 'm) StoredSnapshot \<Rightarrow> (string, string) result"
  dec_stored :: "string \<Rightarrow> (string, ('lid, 'm) StoredSnapshot) result"

text \<open>Which step of the file write fails, and after how many bytes.\<close>

datatype persist_fault =
  CreateFails | WriteFails nat | SyncFails | RenameFails | DirSyncFails

definition persist_snapshot ::
    "('lid, 'm) snapshot_codec \<Rightarrow> persist_fault option \<Rightarrow>
     ('lid, 'm) GanglionStateMachine \<Rightarrow> ('lid, 'm) StoredSnapshot \<Rightarrow>
     ('lid, 'm) GanglionStateMachine \<times> (StorageError, unit) result" where
  "persist_snapshot codec fault sm stored =
     (if \<not> gs_persistent sm then (sm, Inr ())
      else case enc_stored codec stored of
        Inl error \<Rightarrow> (sm, Inl (WriteSnapshot error))
      | Inr bytes \<Rightarrow>
          (case fault of
             Some CreateFails \<Rightarrow> (sm, Inl (WriteSnapshot ''create''))
           | Some (WriteFails n) \<Rightarrow> (sm\<lparr>gs_tmp_file := Some (take n bytes)\<rparr>, Inl (WriteSnapshot ''write''))
           | _ \<Rightarrow>
               if gs_fail_snapshot_writes sm
                 then (sm\<lparr>gs_tmp_file := Some bytes\<rparr>, Inl (WriteSnapshot ''injected write failure''))
               else if fault = Some SyncFails
                 then (sm\<lparr>gs_tmp_file := Some bytes\<rparr>, Inl (WriteSnapshot ''sync''))
               else if fault = Some RenameFails
                 then (sm\<lparr>gs_tmp_file := Some bytes\<rparr>, Inl (WriteSnapshot ''rename''))
               else
                 let renamed = sm\<lparr>gs_file := Some bytes, gs_tmp_file := None\<rparr> in
                 if fault = Some DirSyncFails then (renamed, Inl (WriteSnapshot ''fsync''))
                 else (renamed\<lparr>gs_telemetry := (gs_telemetry renamed)\<lparr>
                         st_snapshot_persists := st_snapshot_persists (gs_telemetry renamed) + 1\<rparr>\<rparr>,
                       Inr ())))"

definition decode_state_or_default ::
    "('lid, 'm) snapshot_codec \<Rightarrow> string \<Rightarrow> (string, CoordinationSnapshot) result" where
  "decode_state_or_default codec data =
     (if data = [] then Inr CoordinationSnapshot_default else dec_state codec data)"

text \<open>
  \<^verbatim>\<open>GanglionStateMachine::persistent\<close> on the file's content at startup (\<^const>\<open>None\<close>: no file);
  \<open>read_error\<close> is the failure of reading an existing file.
\<close>

definition sm_persistent ::
    "('lid, 'm) snapshot_codec \<Rightarrow> 'm \<Rightarrow> string option \<Rightarrow> string option \<Rightarrow> string option \<Rightarrow>
     (StorageError, ('lid, 'm) GanglionStateMachine) result" where
  "sm_persistent codec m0 read_error file tmp_file =
     (let machine = (state_machine_default m0)\<lparr>gs_persistent := True, gs_file := file, gs_tmp_file := tmp_file\<rparr> in
      case file of
        None \<Rightarrow> Inr machine
      | Some bytes \<Rightarrow>
          (case (case read_error of Some error \<Rightarrow> Inl error | None \<Rightarrow> dec_stored codec bytes) of
             Inl error \<Rightarrow> Inl (ReadSnapshot error)
           | Inr stored \<Rightarrow>
               (case decode_state_or_default codec (ss_data stored) of
                  Inl error \<Rightarrow> Inl (ReadSnapshot error)
                | Inr state \<Rightarrow>
                    let inner = (gs_inner machine)\<lparr>
                          in_last_applied := me_last_log_id (ss_meta stored),
                          in_last_membership := me_last_membership (ss_meta stored),
                          in_state := state,
                          in_current_snapshot := Some stored\<rparr>;
                        published = send_replace state (machine\<lparr>gs_inner := inner\<rparr>)
                    in Inr (published\<lparr>gs_telemetry := (gs_telemetry published)\<lparr>
                          st_snapshot_loads := st_snapshot_loads (gs_telemetry published) + 1\<rparr>\<rparr>))))"

definition snapshot_id :: "('lid \<Rightarrow> string) \<Rightarrow> 'lid LogId option \<Rightarrow> u64 \<Rightarrow> string" where
  "snapshot_id show_leader applied idx =
     (case applied of
        Some l \<Rightarrow> show_leader (li_leader_id l) @ ''-'' @ show_nat (unat (li_index l)) @ ''-'' @ show_nat (unat idx)
      | None \<Rightarrow> ''--'' @ show_nat (unat idx))"

definition build_snapshot ::
    "('lid, 'm) snapshot_codec \<Rightarrow> ('lid \<Rightarrow> string) \<Rightarrow> persist_fault option \<Rightarrow>
     ('lid, 'm) GanglionStateMachine \<Rightarrow>
     ('lid, 'm) GanglionStateMachine \<times> (StorageError, ('lid, 'm) SnapshotMeta \<times> string) result" where
  "build_snapshot codec show_leader fault sm =
     (case enc_state codec (in_state (gs_inner sm)) of
        Inl error \<Rightarrow> (sm, Inl (ReadStateMachine error))
      | Inr data \<Rightarrow>
          let idx = in_snapshot_idx (gs_inner sm) + 1;
              sm1 = sm\<lparr>gs_inner := (gs_inner sm)\<lparr>in_snapshot_idx := idx\<rparr>\<rparr>;
              meta = \<lparr>me_last_log_id = in_last_applied (gs_inner sm),
                      me_last_membership = in_last_membership (gs_inner sm),
                      me_snapshot_id = snapshot_id show_leader (in_last_applied (gs_inner sm)) idx\<rparr>;
              stored = \<lparr>ss_meta = meta, ss_data = data\<rparr>
          in (case persist_snapshot codec fault sm1 stored of
                (sm2, Inl error) \<Rightarrow> (sm2, Inl error)
              | (sm2, Inr _) \<Rightarrow>
                  (sm2\<lparr>gs_inner := (gs_inner sm2)\<lparr>in_current_snapshot := Some stored\<rparr>\<rparr>, Inr (meta, data))))"

definition install_snapshot ::
    "('lid, 'm) snapshot_codec \<Rightarrow> persist_fault option \<Rightarrow>
     ('lid, 'm) GanglionStateMachine \<Rightarrow> ('lid, 'm) SnapshotMeta \<Rightarrow> string \<Rightarrow>
     ('lid, 'm) GanglionStateMachine \<times> (StorageError, unit) result" where
  "install_snapshot codec fault sm meta data =
     (case decode_state_or_default codec data of
        Inl error \<Rightarrow> (sm, Inl (ReadSnapshot error))
      | Inr state \<Rightarrow>
          let stored = \<lparr>ss_meta = meta, ss_data = data\<rparr> in
          (case persist_snapshot codec fault sm stored of
             (sm1, Inl error) \<Rightarrow> (sm1, Inl error)
           | (sm1, Inr _) \<Rightarrow>
               (send_replace state (sm1\<lparr>gs_inner := (gs_inner sm1)\<lparr>
                   in_last_applied := me_last_log_id meta,
                   in_last_membership := me_last_membership meta,
                   in_state := state,
                   in_current_snapshot := Some stored\<rparr>\<rparr>), Inr ())))"

definition get_current_snapshot ::
    "('lid, 'm) GanglionStateMachine \<Rightarrow> (('lid, 'm) SnapshotMeta \<times> string) option" where
  "get_current_snapshot sm =
     map_option (\<lambda>stored. (ss_meta stored, ss_data stored)) (in_current_snapshot (gs_inner sm))"

section \<open>Lemmas on single commands\<close>

lemmas command_defs = replace_snapshot_def generation_guard_def update_partition_def
  register_node_def deregister_node_def register_resource_def
  register_resource_with_initial_attribute_def deregister_resource_def
  deregister_resource_with_attribute_def set_attribute_def remove_attribute_def
  compare_and_set_attribute_def bump_generation_def

text \<open>
  A snapshot without the advisory part of its node records: the labels are dropped, and a record
  is identified by the key it is stored under.
\<close>

definition erase_labels :: "CoordinationSnapshot \<Rightarrow> CoordinationSnapshot" where
  "erase_labels s =
     s\<lparr>cs_nodes := bt_map (\<lambda>id n. n\<lparr>ni_node_id := id, ni_labels := bt_empty\<rparr>) (cs_nodes s)\<rparr>"

fun carried_generation :: "MetadataRaftCommand \<Rightarrow> u64 option" where
  "carried_generation (ApplySnapshot s) = Some (cs_generation s)"
| "carried_generation (ApplySnapshotGuarded _ s) = Some (cs_generation s)"
| "carried_generation _ = None"

fun guard_generation :: "MetadataRaftCommand \<Rightarrow> u64 option" where
  "guard_generation (ApplySnapshotGuarded g _) = Some g"
| "guard_generation (UpdatePartitionGuarded g _ _) = Some g"
| "guard_generation (CompareAndSetAttributeGuarded g _ _ _) = Some g"
| "guard_generation _ = None"

fun guard_attribute :: "MetadataRaftCommand \<Rightarrow> (string \<times> string option) option" where
  "guard_attribute (DeregisterResourceWithAttribute _ k e) = Some (k, e)"
| "guard_attribute (DeregisterResourceReplacingAttribute _ k e _) = Some (k, e)"
| "guard_attribute (CompareAndSetAttribute k e _) = Some (k, e)"
| "guard_attribute (CompareAndSetAttributeGuarded _ k e _) = Some (k, e)"
| "guard_attribute _ = None"

lemma bs_remove_absent: "\<not> bs_contains s x \<Longrightarrow> bs_remove x s = s"
  by (rule bs_eqI) auto

lemma generation_step:
  assumes "apply_command s c = (r, s', ch)"
  shows "cs_generation s' = cs_generation s \<or> cs_generation s' = cs_generation s + 1
    \<or> carried_generation c = Some (cs_generation s') \<and> cs_generation s \<le> cs_generation s'"
  using assms by (cases c)
    (auto simp: command_defs Let_def split: if_splits option.splits prod.splits)

lemma rejected_state:
  "apply_command s c = (Some r, s', ch) \<Longrightarrow> s' = s \<and> \<not> ch"
  by (cases c) (auto simp: command_defs Let_def split: if_splits option.splits prod.splits)

lemma retire_unchanged:
  assumes "deregister_resource_with_attribute s ra r k e = (rej, s', False)"
  shows "s' = s"
  using assms
  by (auto simp: deregister_resource_with_attribute_def Let_def bs_remove_absent bt_insert_same
      bt_remove_absent split: if_splits option.splits)

lemma register_node_unchanged_labels:
  assumes "register_node s n = (r, s', False)"
  shows "erase_labels s' = erase_labels s"
proof -
  have "bt_map (\<lambda>id n. n\<lparr>ni_node_id := id, ni_labels := bt_empty\<rparr>)
        (bt_insert (ni_node_id n) n (cs_nodes s))
      = bt_map (\<lambda>id n. n\<lparr>ni_node_id := id, ni_labels := bt_empty\<rparr>) (cs_nodes s)"
    if "bt_get (cs_nodes s) (ni_node_id n) = Some e" "ni_endpoint e = ni_endpoint n"
      "ni_admin_endpoint e = ni_admin_endpoint n" for e
    using that by (intro bt_eqI) (auto simp: bt_get_map bt_get_insert)
  with assms show ?thesis
    by (auto simp: register_node_def erase_labels_def Let_def bump_generation_def
        split: if_splits option.splits)
qed

lemma unchanged_labels:
  assumes "apply_command s c = (r, s', False)"
  shows "erase_labels s' = erase_labels s"
proof (cases "\<exists>n. c = RegisterNode n")
  case True
  then show ?thesis using assms register_node_unchanged_labels by auto
next
  case False
  then show ?thesis using assms
    by (cases c) (auto simp: replace_snapshot_def generation_guard_def update_partition_def
        deregister_node_def register_resource_def register_resource_with_initial_attribute_def
        deregister_resource_def set_attribute_def remove_attribute_def
        compare_and_set_attribute_def Let_def dest: retire_unchanged split: if_splits)
qed

lemma guard_generation_rejects:
  "guard_generation c = Some g \<Longrightarrow> cs_generation s \<noteq> g \<Longrightarrow>
     apply_command s c = (Some (GenerationMismatch g (cs_generation s)), s, False)"
  by (cases c) (simp_all add: generation_guard_def)

definition preserves_nodes :: "MetadataRaftCommand \<Rightarrow> bool" where
  "preserves_nodes c \<longleftrightarrow> (case c of
     ApplySnapshot _ \<Rightarrow> False | ApplySnapshotGuarded _ _ \<Rightarrow> False
   | RegisterNode _ \<Rightarrow> False | DeregisterNode _ \<Rightarrow> False | _ \<Rightarrow> True)"

lemma preserves_nodes_apply:
  assumes "preserves_nodes c" "apply_command s c = (r, s', ch)"
  shows "cs_nodes s' = cs_nodes s \<and> apply_command (s\<lparr>cs_nodes := N\<rparr>) c = (r, s'\<lparr>cs_nodes := N\<rparr>, ch)"
  using assms by (cases c)
    (auto simp: preserves_nodes_def command_defs Let_def split: if_splits option.splits prod.splits)

section \<open>Lemmas on runs\<close>

abbreviation run_inner ::
    "('lid, 'm) StateMachineInner \<Rightarrow> ('lid, 'm) Entry list \<Rightarrow> ('lid, 'm) StateMachineInner" where
  "run_inner inner entries \<equiv> fst (apply_entries inner entries)"

abbreviation run_replies ::
    "('lid, 'm) StateMachineInner \<Rightarrow> ('lid, 'm) Entry list \<Rightarrow> MetadataRaftResponse list" where
  "run_replies inner entries \<equiv> fst (snd (apply_entries inner entries))"

lemma apply_entries_Cons:
  "apply_entries inner (e # es) =
     (run_inner (fst (apply_entry inner e)) es,
      fst (snd (apply_entry inner e)) # run_replies (fst (apply_entry inner e)) es,
      snd (snd (apply_entry inner e)) \<or> snd (snd (apply_entries (fst (apply_entry inner e)) es)))"
  by (simp split: prod.splits)

declare apply_entries.simps(2) [simp del]
declare apply_entries_Cons [simp]

lemma apply_entries_append:
  "apply_entries inner (xs @ ys) =
     (run_inner (run_inner inner xs) ys,
      run_replies inner xs @ run_replies (run_inner inner xs) ys,
      snd (snd (apply_entries inner xs)) \<or> snd (snd (apply_entries (run_inner inner xs) ys)))"
proof (induction xs arbitrary: inner)
  case Nil
  then show ?case by (simp add: prod_eq_iff)
qed simp

lemma length_run_replies [simp]: "length (run_replies inner es) = length es"
  by (induction es arbitrary: inner) simp_all

lemma reply_at:
  "i < length es \<Longrightarrow> run_replies inner es ! i =
     fst (snd (apply_entry (run_inner inner (take i es)) (es ! i)))"
  by (induction es arbitrary: inner i) (auto simp: nth_Cons split: nat.split)

lemma run_inner_take_Suc:
  "i < length es \<Longrightarrow> run_inner inner (take (Suc i) es) =
     fst (apply_entry (run_inner inner (take i es)) (es ! i))"
  by (simp add: take_Suc_conv_app_nth apply_entries_append)

lemma apply_entry_Normal:
  assumes "en_payload e = Normal c"
  shows "in_state (fst (apply_entry inner e)) = fst (snd (apply_command (in_state inner) c))"
    and "mr_rejection (fst (snd (apply_entry inner e))) = fst (apply_command (in_state inner) c)"
    and "snd (snd (apply_entry inner e)) = snd (snd (apply_command (in_state inner) c))"
  using assms by (auto simp: apply_entry_def Let_def split: prod.splits)

lemma apply_entry_other:
  assumes "\<And>c. en_payload e \<noteq> Normal c"
  shows "in_state (fst (apply_entry inner e)) = in_state inner"
    and "mr_rejection (fst (snd (apply_entry inner e))) = None"
    and "\<not> snd (snd (apply_entry inner e))"
  using assms by (cases "en_payload e"; simp add: apply_entry_def Let_def)+

lemma apply_entry_reply [simp]:
  "mr_snapshot (fst (snd (apply_entry inner e))) = in_state (fst (apply_entry inner e))"
  "mr_accepted (fst (snd (apply_entry inner e))) \<longleftrightarrow> mr_rejection (fst (snd (apply_entry inner e))) = None"
  by (auto simp: apply_entry_def Let_def split: prod.splits EntryPayload.splits)

lemma apply_entry_keeps [simp]:
  "in_snapshot_idx (fst (apply_entry inner e)) = in_snapshot_idx inner"
  "in_current_snapshot (fst (apply_entry inner e)) = in_current_snapshot inner"
  "in_last_applied (fst (apply_entry inner e)) = Some (en_log_id e)"
  by (auto simp: apply_entry_def Let_def split: prod.splits EntryPayload.splits)

lemma run_keeps [simp]:
  "in_snapshot_idx (run_inner inner es) = in_snapshot_idx inner"
  "in_current_snapshot (run_inner inner es) = in_current_snapshot inner"
  by (induction es arbitrary: inner) simp_all

text \<open>
  The generations of a run stay exact while the number of entries left fits under the 64-bit
  maximum: \<open>B\<close> bounds the start and every generation a snapshot command carries.
\<close>

definition generations_bounded :: "u64 \<Rightarrow> CoordinationSnapshot \<Rightarrow> ('lid, 'm) Entry list \<Rightarrow> bool" where
  "generations_bounded B s es \<longleftrightarrow> cs_generation s \<le> B \<and> unat B + length es < 2 ^ 64
     \<and> list_all (\<lambda>e. case en_payload e of
          Normal c \<Rightarrow> (case carried_generation c of Some g \<Rightarrow> g \<le> B | None \<Rightarrow> True)
        | _ \<Rightarrow> True) es"

lemma generations_bounded_step:
  assumes "generations_bounded B (in_state inner) (e # es)"
  shows "cs_generation (in_state inner) \<le> cs_generation (in_state (fst (apply_entry inner e)))"
    and "generations_bounded (B + 1) (in_state (fst (apply_entry inner e))) es"
proof -
  let ?s = "in_state inner" and ?s' = "in_state (fst (apply_entry inner e))"
  have B: "B \<noteq> u64_max" and bound: "unat (B + 1) + length es < 2 ^ 64"
    using assms u64_unat_succ [of B] by (auto simp: generations_bounded_def u64_max_unat)
  have s: "cs_generation ?s \<le> B" using assms by (simp add: generations_bounded_def)
  have sm: "cs_generation ?s \<noteq> u64_max"
    using s B by (auto simp: u64_max_unat word_le_nat_alt)
  have up: "x \<le> B + 1" if "x \<le> B" for x
    using that u64_le_succ [OF B] by order
  have succ: "cs_generation ?s + 1 \<le> B + 1"
    using s sm B u64_unat_succ by (metis add_le_mono1 word_le_nat_alt)
  have *: "(cs_generation ?s \<le> cs_generation ?s') \<and> cs_generation ?s' \<le> B + 1"
  proof (cases "en_payload e")
    case (Normal c)
    obtain r s' ch where c: "apply_command ?s c = (r, s', ch)" by (metis prod_cases3)
    then have "?s' = s'" using Normal by (simp add: apply_entry_Normal)
    with generation_step [OF c] Normal assms s succ up u64_le_succ [OF sm] show ?thesis
      by (auto simp: generations_bounded_def)
  qed (use s up in \<open>simp_all add: apply_entry_other\<close>)
  then show "cs_generation ?s \<le> cs_generation ?s'" by simp
  have "list_all (\<lambda>e. case en_payload e of
          Normal c \<Rightarrow> (case carried_generation c of Some g \<Rightarrow> g \<le> B + 1 | None \<Rightarrow> True)
        | _ \<Rightarrow> True) es"
    using assms up by (auto simp: generations_bounded_def list_all_iff split: EntryPayload.splits option.splits)
  with * bound show "generations_bounded (B + 1) ?s' es" by (simp add: generations_bounded_def)
qed

lemma generations_sorted:
  "generations_bounded B (in_state inner) es \<Longrightarrow>
     sorted (cs_generation (in_state inner) # map (cs_generation \<circ> mr_snapshot) (run_replies inner es))"
proof (induction es arbitrary: inner B)
  case (Cons e es)
  let ?inner = "fst (apply_entry inner e)"
  have "sorted (cs_generation (in_state ?inner) # map (cs_generation \<circ> mr_snapshot) (run_replies ?inner es))"
    by (rule Cons.IH) (rule generations_bounded_step [OF Cons.prems])
  moreover have "cs_generation (in_state inner) \<le> cs_generation (in_state ?inner)"
    by (rule generations_bounded_step [OF Cons.prems])
  ultimately show ?case by (auto simp: comp_def intro: order_trans)
qed simp

lemma generations_at:
  assumes "generations_bounded B (in_state inner) es" "i \<le> j" "j \<le> length es"
  shows "cs_generation (in_state (run_inner inner (take i es)))
    \<le> cs_generation (in_state (run_inner inner (take j es)))"
proof -
  let ?gs = "cs_generation (in_state inner) # map (cs_generation \<circ> mr_snapshot) (run_replies inner es)"
  have "?gs ! k = cs_generation (in_state (run_inner inner (take k es)))" if "k \<le> length es" for k
    using that by (cases k) (simp_all add: reply_at run_inner_take_Suc)
  with sorted_nth_mono [OF generations_sorted [OF assms(1)] assms(2)] assms show ?thesis by simp
qed

section \<open>Properties of applied commands\<close>

text \<open>The rejection a command deserves, read off its guards.\<close>

definition attribute_rejection :: "CoordinationSnapshot \<Rightarrow> MetadataRaftCommand \<Rightarrow> MetadataRejection option" where
  "attribute_rejection s c =
     (case guard_attribute c of
        Some (k, e) \<Rightarrow> if bt_get (cs_attributes s) k \<noteq> e
          then Some (AttributeMismatch k (bt_get (cs_attributes s) k)) else None
      | None \<Rightarrow> None)"

definition stale_rejection :: "CoordinationSnapshot \<Rightarrow> MetadataRaftCommand \<Rightarrow> MetadataRejection option" where
  "stale_rejection s c =
     (case carried_generation c of
        Some v \<Rightarrow> if v < cs_generation s then Some StaleGeneration else None
      | None \<Rightarrow> None)"

definition expected_rejection :: "CoordinationSnapshot \<Rightarrow> MetadataRaftCommand \<Rightarrow> MetadataRejection option" where
  "expected_rejection s c =
     (if guard_generation c \<notin> {None, Some (cs_generation s)}
      then Some (GenerationMismatch (the (guard_generation c)) (cs_generation s))
      else case attribute_rejection s c of
        Some r \<Rightarrow> Some r
      | None \<Rightarrow> stale_rejection s c)"

text \<open>
  C12. Rejections are precise and harmless.  A command is rejected only for the reason it
  reports: a stale generation (the carried snapshot is older), a lost generation guard or a lost
  attribute comparison, each with the committed value; and a rejected command changes nothing.
  Conversely a command whose guards hold and whose snapshot is not older is accepted.
\<close>

theorem command_rejection_exact:
  "case apply_command s c of (rejection, s', changed) \<Rightarrow>
     rejection = expected_rejection s c
   \<and> (rejection = None \<or> s' = s \<and> \<not> changed)"
  by (cases c) (auto simp: command_defs Let_def expected_rejection_def attribute_rejection_def
      stale_rejection_def split: if_splits option.splits prod.splits)

text \<open>
  C13. The committed generation never decreases.  Over any run of log entries, the generations the
  replies report form an ascending sequence that starts at the generation before the run,
  provided the starting and carried generations leave room for one increment per entry below
  the 64-bit maximum.
\<close>

theorem generation_monotone:
  assumes "generations_bounded B (in_state inner) entries"
  shows "case apply_entries inner entries of (inner', replies, changed) \<Rightarrow>
      sorted (cs_generation (in_state inner) # map (cs_generation \<circ> mr_snapshot) replies)
    \<and> length replies = length entries
    \<and> cs_generation (in_state inner) \<le> cs_generation (in_state inner')"
proof -
  let ?replies = "run_replies inner entries"
  have "cs_generation (in_state inner) \<le> cs_generation (in_state (run_inner inner entries))"
  proof (cases entries rule: rev_cases)
    case (snoc es e)
    then have "in_state (run_inner inner entries) = mr_snapshot (last ?replies)" "?replies \<noteq> []"
      by (simp_all add: apply_entries_append)
    then show ?thesis using generations_sorted [OF assms] by simp
  qed simp
  then show ?thesis using generations_sorted [OF assms] length_run_replies [of inner entries]
    by (cases "apply_entries inner entries") simp
qed

text \<open>
  C6. Compare-and-set on the generation is exclusive.  If two entries of a run carry commands
  guarded by the same generation and the first was accepted and moved the generation, the second
  is rejected with the mismatch and names a greater generation.  The run has to leave the 64-bit
  counter room: its start and every generation carried by one of its snapshot commands are at most
  \<open>B\<close>, and \<open>B\<close> plus the number of entries stays below 2 to the 64 (\<open>generations_bounded\<close>).  Without that bound
  entries in between can wrap the counter and bring the generation back.
\<close>

theorem guarded_writers_exclusive:
  assumes bounded: "generations_bounded B (in_state inner) entries"
    and order: "i < j" "j < length entries"
    and first: "en_payload (entries ! i) = Normal c" "guard_generation c = Some g"
    and moved: "mr_accepted (run_replies inner entries ! i)"
      "cs_generation (mr_snapshot (run_replies inner entries ! i)) \<noteq> g"
    and second: "en_payload (entries ! j) = Normal d" "guard_generation d = Some g"
  shows "\<exists>actual. g < actual
    \<and> mr_rejection (run_replies inner entries ! j) = Some (GenerationMismatch g actual)
    \<and> \<not> mr_accepted (run_replies inner entries ! j)"
proof -
  let ?at = "\<lambda>k. in_state (run_inner inner (take k entries))"
  have "fst (apply_command (?at i) c) = None"
    using moved(1) order first by (simp add: reply_at apply_entry_Normal)
  then have "cs_generation (?at i) = g"
    using guard_generation_rejects [OF first(2)] by fastforce
  moreover have "cs_generation (?at (Suc i)) \<noteq> g"
    using moved(2) order by (simp add: reply_at run_inner_take_Suc)
  moreover have "cs_generation (?at i) \<le> cs_generation (?at (Suc i))"
    "cs_generation (?at (Suc i)) \<le> cs_generation (?at j)"
    using order by (auto intro: generations_at [OF bounded])
  ultimately have g: "g < cs_generation (?at j)" by auto
  then have "mr_rejection (run_replies inner entries ! j)
      = Some (GenerationMismatch g (cs_generation (?at j)))"
    using guard_generation_rejects [OF second(2)] second order
    by (simp add: reply_at apply_entry_Normal)
  with g show ?thesis using order by (auto simp: reply_at)
qed

definition is_merge_command :: "MetadataRaftCommand \<Rightarrow> bool" where
  "is_merge_command c \<longleftrightarrow> (case c of
     RegisterNode _ \<Rightarrow> True | DeregisterNode _ \<Rightarrow> True | RegisterResource _ \<Rightarrow> True
   | RegisterResourceWithInitialAttribute _ _ _ \<Rightarrow> True | DeregisterResource _ \<Rightarrow> True
   | SetAttribute _ _ \<Rightarrow> True | RemoveAttribute _ \<Rightarrow> True | _ \<Rightarrow> False)"

text \<open>
  Merge commands are idempotent: applying a node or resource registration or removal, or an
  attribute write or removal, a second time is accepted and changes nothing, so a retried
  command is harmless.
\<close>

theorem merge_commands_idempotent:
  assumes "is_merge_command c" "apply_command s c = (rejection, s', changed)"
  shows "rejection = None \<and> apply_command s' c = (None, s', False)"
  using assms by (cases c) (auto simp: is_merge_command_def command_defs Let_def bt_contains_key_def
      bt_get_remove split: if_splits option.splits)

text \<open>
  Heartbeats do not race guarded writers.  A registration that only changes the labels of a
  known node keeps the generation and wakes no watcher, and a partition update or a guarded
  attribute write decided after it has the same outcome as before it: the resulting state is the
  one where the write went first.
\<close>

definition label_only :: "CoordinationSnapshot \<Rightarrow> NodeInfo \<Rightarrow> bool" where
  "label_only s n \<longleftrightarrow> (case bt_get (cs_nodes s) (ni_node_id n) of
     Some e \<Rightarrow> ni_endpoint e = ni_endpoint n \<and> ni_admin_endpoint e = ni_admin_endpoint n
   | None \<Rightarrow> False)"

theorem heartbeat_commutes:
  assumes "label_only s n" "preserves_nodes c"
    and "apply_command s (RegisterNode n) = (hb_rejection, s1, hb_changed)"
    and "apply_command s c = (rejection, s2, changed)"
  shows "hb_rejection = None \<and> \<not> hb_changed \<and> cs_generation s1 = cs_generation s
    \<and> (\<exists>s3. apply_command s1 c = (rejection, s3, changed)
           \<and> apply_command s2 (RegisterNode n) = (None, s3, False))"
proof -
  let ?N = "bt_insert (ni_node_id n) n (cs_nodes s)"
  have hb: "apply_command t (RegisterNode n) = (None, t\<lparr>cs_nodes := ?N\<rparr>, False)"
    if "cs_nodes t = cs_nodes s" for t
    using assms(1) that
    by (auto simp: register_node_def label_only_def Let_def bt_insert_same split: option.splits)
  from preserves_nodes_apply [OF assms(2,4)] hb assms(3) show ?thesis by auto
qed

section \<open>Reachable machines and their watchers\<close>

inductive sm_reach ::
    "('lid, 'm) snapshot_codec \<Rightarrow> ('lid \<Rightarrow> string) \<Rightarrow> ('lid, 'm) GanglionStateMachine \<Rightarrow> bool"
  for codec :: "('lid, 'm) snapshot_codec" and show_leader :: "'lid \<Rightarrow> string" where
  fresh: "sm_reach codec show_leader (state_machine_default m0)"
| opened: "sm_persistent codec m0 read_error file tmp_file = Inr sm \<Longrightarrow> sm_reach codec show_leader sm"
| applied: "sm_reach codec show_leader sm \<Longrightarrow> sm_reach codec show_leader (fst (sm_apply sm entries))"
| built: "sm_reach codec show_leader sm \<Longrightarrow>
    sm_reach codec show_leader (fst (build_snapshot codec show_leader fault sm))"
| installed: "sm_reach codec show_leader sm \<Longrightarrow>
    sm_reach codec show_leader (fst (install_snapshot codec fault sm meta data))"
| injected: "sm_reach codec show_leader sm \<Longrightarrow>
    sm_reach codec show_leader (sm_inject_write_failure sm fail)"

lemma send_replace_simps [simp]:
  "gs_inner (send_replace s sm) = gs_inner sm" "gs_committed_tx (send_replace s sm) = s"
  "gs_file (send_replace s sm) = gs_file sm" "gs_persistent (send_replace s sm) = gs_persistent sm"
  "gs_tmp_file (send_replace s sm) = gs_tmp_file sm"
  by (simp_all add: send_replace_def)

lemma run_unchanged_labels:
  "\<not> snd (snd (apply_entries inner es)) \<Longrightarrow>
     erase_labels (in_state (run_inner inner es)) = erase_labels (in_state inner)"
proof (induction es arbitrary: inner)
  case (Cons e es)
  have "erase_labels (in_state (fst (apply_entry inner e))) = erase_labels (in_state inner)"
  proof (cases "en_payload e")
    case (Normal c)
    obtain r s' ch where c: "apply_command (in_state inner) c = (r, s', ch)" by (metis prod_cases3)
    then have "\<not> ch" using Cons.prems Normal by (simp add: apply_entry_Normal)
    then show ?thesis using unchanged_labels [of "in_state inner" c r s'] c Normal
      by (simp add: apply_entry_Normal)
  qed (simp_all add: apply_entry_other)
  with Cons show ?case by simp
qed simp

lemma sm_apply_simps [simp]:
  "gs_inner (fst (sm_apply sm es)) = run_inner (gs_inner sm) es"
  "snd (sm_apply sm es) = Inr (run_replies (gs_inner sm) es)"
  "gs_file (fst (sm_apply sm es)) = gs_file sm"
  "gs_committed_tx (fst (sm_apply sm es)) =
     (if snd (snd (apply_entries (gs_inner sm) es)) then in_state (run_inner (gs_inner sm) es)
      else gs_committed_tx sm)"
  by (simp_all add: sm_apply_def Let_def split: prod.split)

lemma persist_keeps:
  assumes "persist_snapshot codec fault sm stored = (sm', r)"
  shows "gs_inner sm' = gs_inner sm \<and> gs_committed_tx sm' = gs_committed_tx sm
    \<and> gs_persistent sm' = gs_persistent sm"
  using assms by (auto simp: persist_snapshot_def Let_def
      split: if_splits sum.splits option.splits persist_fault.splits)

lemma persist_file:
  assumes "persist_snapshot codec fault sm stored = (sm', r)"
  shows "gs_file sm' = gs_file sm \<or> (\<exists>b. enc_stored codec stored = Inr b \<and> gs_file sm' = Some b)"
    and "r = Inr () \<Longrightarrow> gs_persistent sm \<Longrightarrow>
      \<exists>b. enc_stored codec stored = Inr b \<and> gs_file sm' = Some b"
    and "fault \<noteq> Some DirSyncFails \<Longrightarrow> r \<noteq> Inr () \<Longrightarrow> gs_file sm' = gs_file sm"
  using assms by (auto simp: persist_snapshot_def Let_def
      split: if_splits sum.splits option.splits persist_fault.splits)

lemma build_keeps:
  assumes "build_snapshot codec show_leader fault sm = (sm', r)"
  shows "in_state (gs_inner sm') = in_state (gs_inner sm)"
    "in_last_applied (gs_inner sm') = in_last_applied (gs_inner sm)"
    "in_last_membership (gs_inner sm') = in_last_membership (gs_inner sm)"
    "gs_committed_tx sm' = gs_committed_tx sm"
  using assms by (auto simp: build_snapshot_def Let_def
      dest!: persist_keeps split: sum.splits prod.splits)

lemma build_fst_keeps [simp]:
  "in_state (gs_inner (fst (build_snapshot codec sl fault sm))) = in_state (gs_inner sm)"
  "gs_committed_tx (fst (build_snapshot codec sl fault sm)) = gs_committed_tx sm"
  using build_keeps [of codec sl fault sm] by (metis prod.collapse)+

lemma install_labels:
  "gs_committed_tx (fst (install_snapshot codec fault sm meta data)) =
     in_state (gs_inner (fst (install_snapshot codec fault sm meta data)))
   \<or> gs_committed_tx (fst (install_snapshot codec fault sm meta data)) = gs_committed_tx sm
     \<and> in_state (gs_inner (fst (install_snapshot codec fault sm meta data))) = in_state (gs_inner sm)"
  by (auto simp: install_snapshot_def Let_def dest!: persist_keeps split: sum.splits prod.splits)

lemma opened_published:
  "sm_persistent codec m0 re file tmp = Inr sm \<Longrightarrow> gs_committed_tx sm = in_state (gs_inner sm)"
  by (auto simp: sm_persistent_def state_machine_default_def Let_def
      split: option.splits sum.splits)

text \<open>
  C34. What watchers hold is the committed state up to advisory labels.  In every reachable
  machine the value on the watch channel and the committed snapshot have the same generation,
  assignments, resources, attributes, and the same node ids with the same endpoints, whatever
  sequence of applied batches, snapshot builds, snapshot installs, file failures and restarts
  led there.
\<close>

theorem watch_tracks_committed:
  assumes "sm_reach codec show_leader sm"
  shows "erase_labels (sm_watch_committed sm) = erase_labels (sm_committed_snapshot sm)"
  using assms
proof (induction rule: sm_reach.induct)
  case (applied sm entries)
  then show ?case
    by (simp add: sm_watch_committed_def sm_committed_snapshot_def run_unchanged_labels)
next
  case (installed sm fault meta data)
  then show ?case using install_labels [of codec fault sm meta data]
    by (auto simp: sm_watch_committed_def sm_committed_snapshot_def)
qed (simp_all add: sm_watch_committed_def sm_committed_snapshot_def state_machine_default_def
    sm_inject_write_failure_def opened_published)

section \<open>Snapshots, crashes and restarts\<close>

definition snapshot_codec_ok :: "('lid, 'm) snapshot_codec \<Rightarrow> bool" where
  "snapshot_codec_ok codec \<longleftrightarrow> codec_roundtrip (enc_state codec) (dec_state codec)
     \<and> codec_roundtrip (enc_stored codec) (dec_stored codec)"

text \<open>What a machine's later behaviour depends on: the applied position, membership and state.\<close>

definition applied_view ::
    "('lid, 'm) GanglionStateMachine \<Rightarrow>
     'lid LogId option \<times> ('lid, 'm) StoredMembership \<times> CoordinationSnapshot" where
  "applied_view sm = (in_last_applied (gs_inner sm), in_last_membership (gs_inner sm), in_state (gs_inner sm))"

lemma apply_entry_view:
  assumes "in_last_membership i = in_last_membership j" "in_state i = in_state j"
  shows "in_last_membership (fst (apply_entry i e)) = in_last_membership (fst (apply_entry j e))"
    "in_state (fst (apply_entry i e)) = in_state (fst (apply_entry j e))"
    "snd (apply_entry i e) = snd (apply_entry j e)"
  using assms by (auto simp: apply_entry_def Let_def split: EntryPayload.splits prod.splits)

lemma run_view:
  assumes "in_last_applied i = in_last_applied j" "in_last_membership i = in_last_membership j"
    "in_state i = in_state j"
  shows "in_last_applied (run_inner i es) = in_last_applied (run_inner j es)
    \<and> in_last_membership (run_inner i es) = in_last_membership (run_inner j es)
    \<and> in_state (run_inner i es) = in_state (run_inner j es)
    \<and> run_replies i es = run_replies j es"
  using assms
proof (induction es arbitrary: i j)
  case (Cons e es)
  have "run_replies (fst (apply_entry i e)) es = run_replies (fst (apply_entry j e)) es"
    using Cons.IH [of "fst (apply_entry i e)" "fst (apply_entry j e)"] Cons.prems
    by (simp add: apply_entry_view [of i j])
  then show ?case
    using Cons.IH [of "fst (apply_entry i e)" "fst (apply_entry j e)"] Cons.prems
    by (simp add: apply_entry_view [of i j])
qed simp

lemma sm_apply_view:
  assumes "applied_view a = applied_view b"
  shows "applied_view (fst (sm_apply a es)) = applied_view (fst (sm_apply b es))
    \<and> snd (sm_apply a es) = snd (sm_apply b es)"
  using assms run_view [of "gs_inner a" "gs_inner b" es] by (simp add: applied_view_def)

lemma decode_built:
  "snapshot_codec_ok codec \<Longrightarrow> enc_state codec s = Inr data \<Longrightarrow> decode_state_or_default codec data = Inr s"
  by (auto simp: snapshot_codec_ok_def decode_state_or_default_def dest: codec_roundtripD)

lemma build_result:
  assumes "build_snapshot codec show_leader fault sm = (sm', Inr (meta, data))"
  shows "enc_state codec (in_state (gs_inner sm)) = Inr data
    \<and> me_last_log_id meta = in_last_applied (gs_inner sm)
    \<and> me_last_membership meta = in_last_membership (gs_inner sm)
    \<and> in_current_snapshot (gs_inner sm') = Some \<lparr>ss_meta = meta, ss_data = data\<rparr>
    \<and> applied_view sm' = applied_view sm
    \<and> (gs_persistent sm \<longrightarrow> (\<exists>b. enc_stored codec \<lparr>ss_meta = meta, ss_data = data\<rparr> = Inr b
         \<and> gs_file sm' = Some b))"
  using assms build_keeps [OF assms]
  by (auto simp: build_snapshot_def Let_def applied_view_def
      dest!: persist_file(2) split: sum.splits prod.splits)

lemma build_new_file:
  assumes build: "build_snapshot codec show_leader fault sm = (sm', r)" and "gs_persistent sm"
    and "\<not> (gs_file sm' = gs_file sm \<and> (\<exists>error. r = Inl error))"
  shows "\<exists>stored b. enc_stored codec stored = Inr b \<and> gs_file sm' = Some b
    \<and> enc_state codec (in_state (gs_inner sm)) = Inr (ss_data stored)
    \<and> me_last_log_id (ss_meta stored) = in_last_applied (gs_inner sm)
    \<and> me_last_membership (ss_meta stored) = in_last_membership (gs_inner sm)"
proof (cases r)
  case (Inr v)
  obtain meta data where "v = (meta, data)" by force
  with build_result [of codec show_leader fault sm sm' meta data] Inr build assms(2) show ?thesis
    by (auto intro!: exI [of _ "\<lparr>ss_meta = meta, ss_data = data\<rparr>"])
next
  case (Inl error)
  with assms show ?thesis
    by (auto simp: build_snapshot_def Let_def dest!: persist_file(1) split: sum.splits prod.splits)
      (metis StoredSnapshot.select_convs SnapshotMeta.select_convs)
qed

lemma open_stored:
  assumes "snapshot_codec_ok codec" "enc_stored codec stored = Inr b"
    "enc_state codec s = Inr (ss_data stored)"
  shows "\<exists>sm. sm_persistent codec m0 None (Some b) tmp = Inr sm
    \<and> applied_view sm = (me_last_log_id (ss_meta stored), me_last_membership (ss_meta stored), s)
    \<and> gs_committed_tx sm = s \<and> in_current_snapshot (gs_inner sm) = Some stored"
proof -
  have "dec_stored codec b = Inr stored" "decode_state_or_default codec (ss_data stored) = Inr s"
    using assms by (auto simp: snapshot_codec_ok_def decode_built dest: codec_roundtripD)
  then show ?thesis
    by (simp add: sm_persistent_def Let_def applied_view_def)
qed

text \<open>
  A follower that receives a snapshot continues exactly where the leader built it: after a
  successful build on one machine and install on another, both give the same replies and reach
  the same applied position, membership and committed state on any further entries, and the
  installing machine's watchers hold the transferred state.
\<close>

theorem snapshot_transfer_resumes:
  assumes ok: "snapshot_codec_ok codec"
    and build: "build_snapshot codec show_leader fault sm = (sm', Inr (meta, data))"
    and install: "install_snapshot codec fault' target meta data = (target', Inr ())"
  shows "snd (sm_apply target' entries) = snd (sm_apply sm' entries)
    \<and> applied_view (fst (sm_apply target' entries)) = applied_view (fst (sm_apply sm' entries))
    \<and> sm_watch_committed target' = sm_committed_snapshot sm"
proof -
  have d: "decode_state_or_default codec data = Inr (in_state (gs_inner sm))"
    using build_result [OF build] decode_built [OF ok] by blast
  have "applied_view target' = applied_view sm \<and> gs_committed_tx target' = in_state (gs_inner sm)"
    using install build_result [OF build]
    by (auto simp: install_snapshot_def d Let_def applied_view_def split: prod.splits sum.splits)
  moreover have "applied_view sm' = applied_view sm" using build_result [OF build] by blast
  ultimately show ?thesis using sm_apply_view [of target' sm' entries]
    by (simp add: sm_watch_committed_def sm_committed_snapshot_def)
qed

lemma reopen_built:
  assumes ok: "snapshot_codec_ok codec" and persistent: "gs_persistent sm"
    and build: "build_snapshot codec show_leader fault sm = (sm', Inr (meta, data))"
  shows "\<exists>reopened.
      sm_persistent codec m0 None (gs_file (fst (sm_apply sm' tail))) tmp = Inr reopened
    \<and> snd (sm_apply reopened tail) = snd (sm_apply sm' tail)
    \<and> applied_view (fst (sm_apply reopened tail)) = applied_view (fst (sm_apply sm' tail))"
proof -
  note b = build_result [OF build]
  then obtain bytes where bytes: "enc_stored codec \<lparr>ss_meta = meta, ss_data = data\<rparr> = Inr bytes"
    "gs_file sm' = Some bytes" using persistent by blast
  have "enc_state codec (in_state (gs_inner sm)) = Inr (ss_data \<lparr>ss_meta = meta, ss_data = data\<rparr>)"
    using b by simp
  from open_stored [OF ok bytes(1) this, of m0 tmp] obtain reopened where
    "sm_persistent codec m0 None (gs_file (fst (sm_apply sm' tail))) tmp = Inr reopened"
    "applied_view reopened = applied_view sm'"
    using b bytes by (auto simp: applied_view_def)
  then show ?thesis using sm_apply_view by blast
qed

text \<open>
  Recovery is the snapshot plus the log tail: when a persistent machine has built a snapshot
  and then applied further entries, reopening it from its file and re-applying those entries
  gives the same replies and the same applied position, membership and committed state.
\<close>

theorem restart_replays_tail:
  assumes ok: "snapshot_codec_ok codec" and persistent: "gs_persistent sm"
    and build: "build_snapshot codec show_leader fault sm = (sm', Inr (meta, data))"
  shows "\<exists>reopened.
      sm_persistent codec m0 None (gs_file (fst (sm_apply sm' tail))) tmp = Inr reopened
    \<and> snd (sm_apply reopened tail) = snd (sm_apply sm' tail)
    \<and> applied_view (fst (sm_apply reopened tail)) = applied_view (fst (sm_apply sm' tail))"
  by (rule reopen_built [OF ok persistent build])

text \<open>
  C14. Building a snapshot is crash-safe: whichever step of the file write fails, the machine's
  applied position, membership, committed state and published value are unchanged, and reopening
  from the file left behind either behaves as before the attempt or restores exactly the state
  the snapshot was built from; a reported success always restores the latter.
\<close>

theorem build_snapshot_atomic:
  assumes ok: "snapshot_codec_ok codec" and persistent: "gs_persistent sm"
    and build: "build_snapshot codec show_leader fault sm = (sm', r)"
  shows "applied_view sm' = applied_view sm \<and> sm_watch_committed sm' = sm_watch_committed sm
    \<and> (gs_file sm' = gs_file sm \<and> (\<exists>error. r = Inl error)
       \<or> (\<exists>reopened. sm_persistent codec m0 None (gs_file sm') tmp = Inr reopened
            \<and> applied_view reopened = applied_view sm))"
proof -
  have view: "applied_view sm' = applied_view sm" "gs_committed_tx sm' = gs_committed_tx sm"
    using build_keeps [OF build] by (simp_all add: applied_view_def)
  show ?thesis
  proof (cases "gs_file sm' = gs_file sm \<and> (\<exists>error. r = Inl error)")
    case False
    then obtain stored b where "enc_stored codec stored = Inr b" "gs_file sm' = Some b"
      "enc_state codec (in_state (gs_inner sm)) = Inr (ss_data stored)"
      "me_last_log_id (ss_meta stored) = in_last_applied (gs_inner sm)"
      "me_last_membership (ss_meta stored) = in_last_membership (gs_inner sm)"
      using build_new_file [OF build persistent] by blast
    with open_stored [OF ok, of stored b _ m0 tmp] view show ?thesis
      by (auto simp: applied_view_def sm_watch_committed_def)
  qed (use view in \<open>simp add: sm_watch_committed_def\<close>)
qed

section \<open>Witnesses\<close>

definition demo_node :: "string \<Rightarrow> (string, string) btree \<Rightarrow> NodeInfo" where
  "demo_node endpoint labels =
     \<lparr>ni_node_id = ''n1'', ni_endpoint = endpoint, ni_admin_endpoint = None, ni_labels = labels\<rparr>"

definition demo_entry :: "u64 \<Rightarrow> MetadataRaftCommand \<Rightarrow> (nat, nat) Entry" where
  "demo_entry index command =
     \<lparr>en_log_id = \<lparr>li_leader_id = 1, li_index = index\<rparr>, en_payload = Normal command\<rparr>"

definition demo_inner :: "(nat, nat) StateMachineInner" where
  "demo_inner = gs_inner (state_machine_default 0)"

definition demo_entries :: "(nat, nat) Entry list" where
  "demo_entries =
     [demo_entry 1 (CompareAndSetAttributeGuarded 0 ''k'' None ''v''),
      demo_entry 2 (RegisterNode (demo_node ''h:1'' bt_empty)),
      demo_entry 3 (ApplySnapshotGuarded 0 (demo_snapshot ''a'' [] 1 5))]"

theorem generation_monotone_witness:
  "case apply_entries demo_inner demo_entries of (inner', replies, changed) \<Rightarrow>
      sorted (cs_generation (in_state demo_inner) # map (cs_generation \<circ> mr_snapshot) replies)
    \<and> length replies = length demo_entries
    \<and> cs_generation (in_state demo_inner) \<le> cs_generation (in_state inner')"
proof (rule generation_monotone)
  show "generations_bounded 5 (in_state demo_inner) demo_entries" by code_simp
qed

theorem guarded_writers_exclusive_witness:
  "\<exists>actual. 0 < actual
    \<and> mr_rejection (run_replies demo_inner demo_entries ! 2) = Some (GenerationMismatch 0 actual)
    \<and> \<not> mr_accepted (run_replies demo_inner demo_entries ! 2)"
proof (rule guarded_writers_exclusive [of 5 demo_inner demo_entries 0 2
      "CompareAndSetAttributeGuarded 0 ''k'' None ''v''" 0
      "ApplySnapshotGuarded 0 (demo_snapshot ''a'' [] 1 5)"])
  show "generations_bounded 5 (in_state demo_inner) demo_entries" by code_simp
  show "(2::nat) < length demo_entries" by (simp add: demo_entries_def)
  show "mr_accepted (run_replies demo_inner demo_entries ! 0)" by code_simp
  show "cs_generation (mr_snapshot (run_replies demo_inner demo_entries ! 0)) \<noteq> 0" by code_simp
qed (simp_all add: demo_entries_def demo_entry_def)

theorem merge_commands_idempotent_witness:
  "case apply_command CoordinationSnapshot_default (SetAttribute ''k'' ''v'') of (rejection, s', changed) \<Rightarrow>
     rejection = None \<and> changed \<and> apply_command s' (SetAttribute ''k'' ''v'') = (None, s', False)"
  using merge_commands_idempotent [of "SetAttribute ''k'' ''v''" CoordinationSnapshot_default]
  by (simp add: is_merge_command_def set_attribute_def CoordinationSnapshot_default_def)

definition demo_registered :: CoordinationSnapshot where
  "demo_registered = fst (snd (apply_command CoordinationSnapshot_default
     (RegisterNode (demo_node ''h:1'' bt_empty))))"

theorem heartbeat_commutes_witness:
  "\<exists>s1 s3. apply_command demo_registered
       (RegisterNode (demo_node ''h:1'' (bt_insert ''beat'' ''2'' bt_empty))) = (None, s1, False)
     \<and> apply_command s1 (CompareAndSetAttributeGuarded 1 ''k'' None ''v'') = (None, s3, True)
     \<and> bt_get (cs_attributes s3) ''k'' = Some ''v''"
proof -
  let ?n = "demo_node ''h:1'' (bt_insert ''beat'' ''2'' bt_empty)"
    and ?c = "CompareAndSetAttributeGuarded 1 ''k'' None ''v''"
  obtain r1 s1 c1 where hb: "apply_command demo_registered (RegisterNode ?n) = (r1, s1, c1)"
    by (metis prod_cases3)
  obtain s2 where w: "apply_command demo_registered ?c = (None, s2, True)"
    "bt_get (cs_attributes s2) ''k'' = Some ''v''"
    by (simp add: demo_registered_def demo_node_def command_defs CoordinationSnapshot_default_def Let_def)
  have l: "label_only demo_registered ?n" by code_simp
  have p: "preserves_nodes ?c" by (simp add: preserves_nodes_def)
  from heartbeat_commutes [OF l p hb w(1)] obtain s3 where
    s3: "r1 = None" "\<not> c1" "apply_command s1 ?c = (None, s3, True)" by blast
  then have "bt_get (cs_attributes s3) ''k'' = Some ''v''"
    by (auto simp: command_defs Let_def split: if_splits)
  with s3 hb show ?thesis by auto
qed

theorem watch_tracks_committed_witness:
  "erase_labels (sm_watch_committed (fst (sm_apply (state_machine_default 0) demo_entries)))
   = erase_labels (sm_committed_snapshot (fst (sm_apply (state_machine_default 0) demo_entries)))
   \<and> sm_watch_committed (fst (sm_apply (state_machine_default 0) demo_entries)) \<noteq> CoordinationSnapshot_default"
proof
  show "erase_labels (sm_watch_committed (fst (sm_apply (state_machine_default 0) demo_entries)))
    = erase_labels (sm_committed_snapshot (fst (sm_apply (state_machine_default 0) demo_entries)))"
    by (rule watch_tracks_committed [where codec = undefined and show_leader = show_nat])
      (intro sm_reach.intros)
qed code_simp

definition unary_codec :: "(nat, nat) snapshot_codec" where
  "unary_codec = \<lparr>enc_state = unary_encode, dec_state = unary_decode,
     enc_stored = unary_encode, dec_stored = unary_decode\<rparr>"

lemma unary_codec_ok: "snapshot_codec_ok unary_codec"
  by (simp add: snapshot_codec_ok_def unary_codec_def unary_roundtrip)

text \<open>
  The watch channel does not carry label-only updates: after a node's heartbeat changes only
  its labels, the committed snapshot has the new labels and the value watchers hold does not.
\<close>

theorem watch_misses_label_updates:
  "\<exists>sm :: (nat, nat) GanglionStateMachine. sm_reach codec show_leader sm
     \<and> sm_watch_committed sm \<noteq> sm_committed_snapshot sm"
proof -
  let ?m = "state_machine_default 0 :: (nat, nat) GanglionStateMachine"
  let ?es = "[demo_entry 1 (RegisterNode (demo_node ''h:1'' bt_empty))]"
    and ?hb = "[demo_entry 2 (RegisterNode (demo_node ''h:1'' (bt_insert ''beat'' ''2'' bt_empty)))]"
  let ?sm = "fst (sm_apply (fst (sm_apply ?m ?es)) ?hb)"
  have "sm_reach codec show_leader ?sm" by (intro sm_reach.intros)
  moreover have "sm_watch_committed ?sm \<noteq> sm_committed_snapshot ?sm" by code_simp
  ultimately show ?thesis by blast
qed

text \<open>
  A guarded snapshot that keeps the generation does not exclude its rivals: two writers that
  inspected the same generation are both accepted, and the second overwrites the first.
\<close>

theorem unbumped_guard_not_exclusive:
  "\<exists>s a b. a \<noteq> b \<and> fst (apply_command s (ApplySnapshotGuarded (cs_generation s) a)) = None
     \<and> apply_command (fst (snd (apply_command s (ApplySnapshotGuarded (cs_generation s) a))))
         (ApplySnapshotGuarded (cs_generation s) b) = (None, b, True)"
proof (intro exI conjI)
  let ?s = "demo_snapshot ''n0'' [] 1 3" and ?a = "demo_snapshot ''a'' [] 2 3"
    and ?b = "demo_snapshot ''b'' [] 2 3"
  show "?a \<noteq> ?b" by code_simp
  show "fst (apply_command ?s (ApplySnapshotGuarded (cs_generation ?s) ?a)) = None" by code_simp
  show "apply_command (fst (snd (apply_command ?s (ApplySnapshotGuarded (cs_generation ?s) ?a))))
         (ApplySnapshotGuarded (cs_generation ?s) ?b) = (None, ?b, True)" by code_simp
qed

section \<open>Witnesses for snapshots\<close>

definition demo_machine :: "(nat, nat) GanglionStateMachine" where
  "demo_machine = (fst (sm_apply (state_machine_default 0) demo_entries))\<lparr>gs_persistent := True\<rparr>"

lemma demo_build:
  "\<exists>sm' meta data. build_snapshot unary_codec show_nat None demo_machine = (sm', Inr (meta, data))"
proof -
  have "gs_persistent demo_machine" "\<not> gs_fail_snapshot_writes demo_machine" by code_simp+
  then show ?thesis
    by (simp add: build_snapshot_def persist_snapshot_def unary_codec_def unary_encode_def Let_def)
qed

lemma demo_install:
  assumes "build_snapshot unary_codec show_nat None demo_machine = (sm', Inr (meta, data))"
  shows "\<exists>t. install_snapshot unary_codec None (state_machine_default 0) meta data = (t, Inr ())"
proof -
  have "decode_state_or_default unary_codec data = Inr (in_state (gs_inner demo_machine))"
    using decode_built [OF unary_codec_ok] build_result [OF assms] by blast
  then show ?thesis
    by (simp add: install_snapshot_def persist_snapshot_def state_machine_default_def Let_def)
qed

theorem snapshot_transfer_resumes_witness:
  "\<exists>sm' meta data t. build_snapshot unary_codec show_nat None demo_machine = (sm', Inr (meta, data))
     \<and> install_snapshot unary_codec None (state_machine_default 0) meta data = (t, Inr ())
     \<and> snd (sm_apply t demo_entries) = snd (sm_apply sm' demo_entries)
     \<and> sm_watch_committed t = sm_committed_snapshot demo_machine"
proof -
  obtain sm' meta data where
    b: "build_snapshot unary_codec show_nat None demo_machine = (sm', Inr (meta, data))"
    using demo_build by blast
  then obtain t where i: "install_snapshot unary_codec None (state_machine_default 0) meta data = (t, Inr ())"
    using demo_install by blast
  from snapshot_transfer_resumes [OF unary_codec_ok b i, of demo_entries] b i show ?thesis by blast
qed

theorem restart_replays_tail_witness:
  "\<exists>sm' meta data reopened.
      build_snapshot unary_codec show_nat None demo_machine = (sm', Inr (meta, data))
    \<and> sm_persistent unary_codec 0 None (gs_file (fst (sm_apply sm' demo_entries))) None = Inr reopened
    \<and> snd (sm_apply reopened demo_entries) = snd (sm_apply sm' demo_entries)"
proof -
  obtain sm' meta data where
    b: "build_snapshot unary_codec show_nat None demo_machine = (sm', Inr (meta, data))"
    using demo_build by blast
  have p: "gs_persistent demo_machine" by code_simp
  from restart_replays_tail [OF unary_codec_ok p b, of 0 demo_entries None] b show ?thesis by blast
qed

theorem build_snapshot_atomic_witness:
  "applied_view (fst (build_snapshot unary_codec show_nat (Some (WriteFails 3)) demo_machine))
   = applied_view demo_machine"
proof -
  have "gs_persistent demo_machine" by code_simp
  from build_snapshot_atomic [OF unary_codec_ok this, of show_nat "Some (WriteFails 3)"
      "fst (build_snapshot unary_codec show_nat (Some (WriteFails 3)) demo_machine)"
      "snd (build_snapshot unary_codec show_nat (Some (WriteFails 3)) demo_machine)"]
  show ?thesis by simp
qed

end
