(* ===== verification/Replicas.thy ===== *)
theory Replicas
  imports State_Machine
begin

text \<open>
  Several copies of the state machine of \<^verbatim>\<open>openraft_runtime/storage.rs\<close> fed from one log.  A copy
  moves by applied batches, snapshot builds with any file failure, snapshots received from another
  copy, crashes and restarts.  The receipt of a snapshot takes two steps, as in the source: the file
  is written before the machine's lock is taken, so a concurrent build can come in between.  Each file
  write is one step here; \<open>Snapshot_File\<close> takes it apart into its system calls and shows that writers
  that take turns behave like such steps, and what two overlapping ones can do.
\<close>

section \<open>Receiving a snapshot in two steps\<close>

definition install_persist ::
    "('lid, 'm) snapshot_codec \<Rightarrow> persist_fault option \<Rightarrow>
     ('lid, 'm) GanglionStateMachine \<Rightarrow> ('lid, 'm) SnapshotMeta \<Rightarrow> string \<Rightarrow>
     ('lid, 'm) GanglionStateMachine \<times> (StorageError, CoordinationSnapshot) result" where
  "install_persist codec fault sm meta data =
     (case decode_state_or_default codec data of
        Inl error \<Rightarrow> (sm, Inl (ReadSnapshot error))
      | Inr state \<Rightarrow>
          (case persist_snapshot codec fault sm \<lparr>ss_meta = meta, ss_data = data\<rparr> of
             (sm1, Inl error) \<Rightarrow> (sm1, Inl error)
           | (sm1, Inr _) \<Rightarrow> (sm1, Inr state)))"

definition install_commit ::
    "('lid, 'm) SnapshotMeta \<Rightarrow> string \<Rightarrow> CoordinationSnapshot \<Rightarrow>
     ('lid, 'm) GanglionStateMachine \<Rightarrow> ('lid, 'm) GanglionStateMachine" where
  "install_commit meta data state sm =
     send_replace state (sm\<lparr>gs_inner := (gs_inner sm)\<lparr>
       in_last_applied := me_last_log_id meta,
       in_last_membership := me_last_membership meta,
       in_state := state,
       in_current_snapshot := Some \<lparr>ss_meta = meta, ss_data = data\<rparr>\<rparr>\<rparr>)"

lemma install_snapshot_steps:
  "install_snapshot codec fault sm meta data =
     (case install_persist codec fault sm meta data of
        (sm1, Inl error) \<Rightarrow> (sm1, Inl error)
      | (sm1, Inr state) \<Rightarrow> (install_commit meta data state sm1, Inr ()))"
  by (simp add: install_snapshot_def install_persist_def install_commit_def Let_def
      split: sum.split prod.split)

section \<open>The copies of one log\<close>

definition last_log_id :: "('lid, 'm) Entry list \<Rightarrow> 'lid LogId option" where
  "last_log_id entries = (if entries = [] then None else Some (en_log_id (last entries)))"

inductive replica ::
    "('lid, 'm) snapshot_codec \<Rightarrow> ('lid \<Rightarrow> string) \<Rightarrow> 'm \<Rightarrow> ('lid, 'm) Entry list \<Rightarrow>
     ('lid, 'm) GanglionStateMachine \<Rightarrow> bool"
  for codec :: "('lid, 'm) snapshot_codec" and show_leader :: "'lid \<Rightarrow> string" and m0 :: 'm
    and log :: "('lid, 'm) Entry list" where
  fresh: "replica codec show_leader m0 log (state_machine_default m0)"
| opened: "sm_persistent codec m0 read_error None tmp = Inr sm \<Longrightarrow> replica codec show_leader m0 log sm"
| reopened: "replica codec show_leader m0 log sm \<Longrightarrow>
    sm_persistent codec m0 read_error (gs_file sm) tmp = Inr sm' \<Longrightarrow> replica codec show_leader m0 log sm'"
| applied: "replica codec show_leader m0 log sm \<Longrightarrow> log = before @ entries @ rest \<Longrightarrow>
    sm_last_applied sm = last_log_id before \<Longrightarrow>
    replica codec show_leader m0 log (fst (sm_apply sm entries))"
| built: "replica codec show_leader m0 log sm \<Longrightarrow>
    replica codec show_leader m0 log (fst (build_snapshot codec show_leader fault sm))"
| received: "replica codec show_leader m0 log sm \<Longrightarrow> replica codec show_leader m0 log sender \<Longrightarrow>
    get_current_snapshot sender = Some (meta, data) \<Longrightarrow>
    replica codec show_leader m0 log (fst (install_persist codec fault sm meta data))"
| installed: "replica codec show_leader m0 log sm \<Longrightarrow> replica codec show_leader m0 log sender \<Longrightarrow>
    get_current_snapshot sender = Some (meta, data) \<Longrightarrow> decode_state_or_default codec data = Inr state \<Longrightarrow>
    replica codec show_leader m0 log (install_commit meta data state sm)"

lemma replica_install:
  assumes "replica codec show_leader m0 log sm" "replica codec show_leader m0 log sender"
    and snap: "get_current_snapshot sender = Some (meta, data)"
  shows "replica codec show_leader m0 log (fst (install_snapshot codec fault sm meta data))"
proof (cases "install_persist codec fault sm meta data")
  case (Pair sm1 r)
  have r: "replica codec show_leader m0 log sm1" using replica.received [OF assms, of fault] Pair by simp
  show ?thesis
  proof (cases r)
    case (Inl e)
    then show ?thesis using r Pair by (simp add: install_snapshot_steps)
  next
    case (Inr state)
    then have "decode_state_or_default codec data = Inr state"
      using Pair by (auto simp: install_persist_def split: sum.splits prod.splits)
    then show ?thesis using replica.installed [OF r assms(2) snap] Pair Inr by (simp add: install_snapshot_steps)
  qed
qed

section \<open>What every copy holds\<close>

text \<open>The view a machine has after the first \<open>n\<close> entries, and the snapshots that record such a view.\<close>

definition log_view where
  "log_view m0 log n = applied_view (fst (sm_apply (state_machine_default m0) (take n log)))"

definition prefix_snapshot where
  "prefix_snapshot codec m0 log stored \<longleftrightarrow> (\<exists>n\<le>length log. \<exists>s.
     log_view m0 log n = (me_last_log_id (ss_meta stored), me_last_membership (ss_meta stored), s)
     \<and> enc_state codec s = Inr (ss_data stored))"

definition replica_ok where
  "replica_ok codec m0 log sm \<longleftrightarrow>
     (\<exists>n\<le>length log. applied_view sm = log_view m0 log n)
     \<and> (\<forall>stored. in_current_snapshot (gs_inner sm) = Some stored \<longrightarrow> prefix_snapshot codec m0 log stored)
     \<and> (\<forall>b. gs_file sm = Some b \<longrightarrow>
          (\<exists>stored. enc_stored codec stored = Inr b \<and> prefix_snapshot codec m0 log stored))"

lemma replica_okI:
  assumes "n \<le> length log" "applied_view sm = log_view m0 log n"
    and "\<And>stored. in_current_snapshot (gs_inner sm) = Some stored \<Longrightarrow> prefix_snapshot codec m0 log stored"
    and "\<And>b. gs_file sm = Some b \<Longrightarrow> \<exists>stored. enc_stored codec stored = Inr b \<and> prefix_snapshot codec m0 log stored"
  shows "replica_ok codec m0 log sm"
  using assms unfolding replica_ok_def by blast

lemma replica_okE:
  assumes "replica_ok codec m0 log sm"
  obtains n where "n \<le> length log" "applied_view sm = log_view m0 log n"
    and "\<forall>stored. in_current_snapshot (gs_inner sm) = Some stored \<longrightarrow> prefix_snapshot codec m0 log stored"
    and "\<forall>b. gs_file sm = Some b \<longrightarrow> (\<exists>stored. enc_stored codec stored = Inr b \<and> prefix_snapshot codec m0 log stored)"
  using assms unfolding replica_ok_def by blast

lemma last_applied_run:
  "in_last_applied (run_inner inner es) = (if es = [] then in_last_applied inner else last_log_id es)"
  by (induction es arbitrary: inner) (auto simp: last_log_id_def)

lemma log_view_position: "fst (log_view m0 log n) = last_log_id (take n log)"
  by (simp add: log_view_def applied_view_def last_applied_run state_machine_default_def last_log_id_def)

lemma log_view_append:
  "applied_view sm = log_view m0 log n \<Longrightarrow>
     applied_view (fst (sm_apply sm (take k (drop n log)))) = log_view m0 log (n + k)"
proof -
  assume "applied_view sm = log_view m0 log n"
  then have "applied_view (fst (sm_apply sm (take k (drop n log)))) =
      applied_view (fst (sm_apply (fst (sm_apply (state_machine_default m0) (take n log))) (take k (drop n log))))"
    using sm_apply_view unfolding log_view_def by blast
  also have "\<dots> = log_view m0 log (n + k)"
    by (simp add: log_view_def applied_view_def take_add apply_entries_append)
  finally show ?thesis .
qed

text \<open>With distinct log ids the last applied id names the position.\<close>

lemma position_unique:
  assumes "distinct (map en_log_id log)" "i \<le> length log" "j \<le> length log"
    and "last_log_id (take i log) = last_log_id (take j log)"
  shows "i = j"
proof (cases "i = 0 \<or> j = 0")
  case True
  then show ?thesis using assms by (auto simp: last_log_id_def split: if_splits)
next
  case False
  have "last (take k log) = log ! (k - 1)" if "0 < k" "k \<le> length log" for k
    using that take_Suc_conv_app_nth [of "k - 1" log] by simp
  then have "last (take i log) = log ! (i - 1)" "last (take j log) = log ! (j - 1)"
    using assms(2,3) False by simp_all
  moreover have less: "i - 1 < length log" "j - 1 < length log" using assms(2,3) False by auto
  moreover have "en_log_id (last (take i log)) = en_log_id (last (take j log))"
    using assms(2-4) False by (auto simp: last_log_id_def split: if_splits)
  ultimately have "map en_log_id log ! (i - 1) = map en_log_id log ! (j - 1)"
    using less by simp
  then show ?thesis
    using nth_eq_iff_index_eq [OF assms(1), of "i - 1" "j - 1"] less False by auto
qed

section \<open>Every step keeps it\<close>

text \<open>What a build stores, in memory or in the file, records the machine's view.\<close>

definition records_view where
  "records_view codec sm stored \<longleftrightarrow> enc_state codec (in_state (gs_inner sm)) = Inr (ss_data stored)
     \<and> me_last_log_id (ss_meta stored) = in_last_applied (gs_inner sm)
     \<and> me_last_membership (ss_meta stored) = in_last_membership (gs_inner sm)"

lemma build_stores:
  assumes "build_snapshot codec show_leader fault sm = (sm', r)"
  shows "in_current_snapshot (gs_inner sm') = in_current_snapshot (gs_inner sm)
      \<or> (\<exists>stored. in_current_snapshot (gs_inner sm') = Some stored \<and> records_view codec sm stored)"
    and "gs_file sm' = gs_file sm
      \<or> (\<exists>stored b. enc_stored codec stored = Inr b \<and> gs_file sm' = Some b \<and> records_view codec sm stored)"
proof -
  show "in_current_snapshot (gs_inner sm') = in_current_snapshot (gs_inner sm)
      \<or> (\<exists>stored. in_current_snapshot (gs_inner sm') = Some stored \<and> records_view codec sm stored)"
    using assms by (auto simp: build_snapshot_def Let_def records_view_def
        dest!: persist_keeps split: sum.splits prod.splits)
  show "gs_file sm' = gs_file sm
      \<or> (\<exists>stored b. enc_stored codec stored = Inr b \<and> gs_file sm' = Some b \<and> records_view codec sm stored)"
  proof (cases "enc_state codec (in_state (gs_inner sm))")
    case (Inl e)
    then show ?thesis using assms by (simp add: build_snapshot_def)
  next
    case (Inr data)
    let ?idx = "in_snapshot_idx (gs_inner sm) + 1"
    let ?stored = "\<lparr>ss_meta = \<lparr>me_last_log_id = in_last_applied (gs_inner sm),
        me_last_membership = in_last_membership (gs_inner sm),
        me_snapshot_id = snapshot_id show_leader (in_last_applied (gs_inner sm)) ?idx\<rparr>, ss_data = data\<rparr>"
    let ?sm = "sm\<lparr>gs_inner := (gs_inner sm)\<lparr>in_snapshot_idx := ?idx\<rparr>\<rparr>"
    obtain sm1 r1 where p: "persist_snapshot codec fault ?sm ?stored = (sm1, r1)" by force
    have "gs_file sm' = gs_file sm1"
      using assms Inr p by (auto simp: build_snapshot_def Let_def split: sum.splits)
    moreover have "records_view codec sm ?stored" using Inr by (simp add: records_view_def)
    ultimately show ?thesis using persist_file(1) [OF p] by auto
  qed
qed

lemma built_ok:
  assumes "replica_ok codec m0 log sm"
  shows "replica_ok codec m0 log (fst (build_snapshot codec show_leader fault sm))"
proof -
  obtain sm' r where b: "build_snapshot codec show_leader fault sm = (sm', r)" by force
  obtain n where n: "n \<le> length log" "applied_view sm = log_view m0 log n"
    using assms by (rule replica_okE)
  have new: "prefix_snapshot codec m0 log stored" if "records_view codec sm stored" for stored
    using n that unfolding prefix_snapshot_def records_view_def applied_view_def by metis
  have "applied_view sm' = log_view m0 log n" using n(2) build_keeps [OF b] by (simp add: applied_view_def)
  moreover have "prefix_snapshot codec m0 log stored" if "in_current_snapshot (gs_inner sm') = Some stored" for stored
    using build_stores(1) [OF b] that assms new unfolding replica_ok_def by auto
  moreover have "\<exists>stored. enc_stored codec stored = Inr c \<and> prefix_snapshot codec m0 log stored"
    if "gs_file sm' = Some c" for c
    using build_stores(2) [OF b] that assms new unfolding replica_ok_def by auto
  ultimately show ?thesis using n(1) b by (intro replica_okI [of n]) simp_all
qed

lemma received_ok:
  assumes "replica_ok codec m0 log sm" "prefix_snapshot codec m0 log \<lparr>ss_meta = meta, ss_data = data\<rparr>"
  shows "replica_ok codec m0 log (fst (install_persist codec fault sm meta data))"
proof -
  let ?stored = "\<lparr>ss_meta = meta, ss_data = data\<rparr>" and ?sm = "fst (install_persist codec fault sm meta data)"
  obtain sm1 r where p: "persist_snapshot codec fault sm ?stored = (sm1, r)" by force
  have "?sm = sm \<or> ?sm = sm1"
    using p by (auto simp: install_persist_def split: sum.splits)
  then have "gs_inner ?sm = gs_inner sm"
    and "gs_file ?sm = gs_file sm \<or> (\<exists>b. enc_stored codec ?stored = Inr b \<and> gs_file ?sm = Some b)"
    using persist_keeps [OF p] persist_file(1) [OF p] by auto
  then show ?thesis using assms by (auto simp: replica_ok_def applied_view_def)
qed

lemma installed_ok:
  assumes "snapshot_codec_ok codec" "replica_ok codec m0 log sm"
    and snap: "prefix_snapshot codec m0 log \<lparr>ss_meta = meta, ss_data = data\<rparr>"
    and dec: "decode_state_or_default codec data = Inr state"
  shows "replica_ok codec m0 log (install_commit meta data state sm)"
proof -
  obtain n s where n: "n \<le> length log" "log_view m0 log n = (me_last_log_id meta, me_last_membership meta, s)"
    "enc_state codec s = Inr data"
    using snap by (auto simp: prefix_snapshot_def)
  then have "state = s" using decode_built [OF assms(1)] dec by force
  then show ?thesis using assms(2) snap n
    by (intro replica_okI [OF n(1)]) (auto simp: install_commit_def applied_view_def elim!: replica_okE)
qed

lemma reopened_ok:
  assumes "snapshot_codec_ok codec"
    and onfile: "\<And>b. content = Some b \<Longrightarrow> \<exists>stored. enc_stored codec stored = Inr b \<and> prefix_snapshot codec m0 log stored"
    and opened: "sm_persistent codec m0 read_error content tmp = Inr sm"
  shows "replica_ok codec m0 log sm"
proof (cases content)
  case None
  then have "applied_view sm = log_view m0 log 0" "in_current_snapshot (gs_inner sm) = None" "gs_file sm = None"
    using opened by (auto simp: sm_persistent_def log_view_def applied_view_def state_machine_default_def)
  then show ?thesis by (intro replica_okI [of 0]) simp_all
next
  case (Some b)
  then obtain stored where stored: "enc_stored codec stored = Inr b" "prefix_snapshot codec m0 log stored"
    using onfile by blast
  then obtain n s where n: "n \<le> length log" "enc_state codec s = Inr (ss_data stored)"
    "log_view m0 log n = (me_last_log_id (ss_meta stored), me_last_membership (ss_meta stored), s)"
    by (auto simp: prefix_snapshot_def)
  have none: "read_error = None" and keep: "gs_file sm = Some b"
    using opened Some by (auto simp: sm_persistent_def Let_def send_replace_def split: option.splits sum.splits)
  obtain sm' where "sm_persistent codec m0 None (Some b) tmp = Inr sm'" "in_current_snapshot (gs_inner sm') = Some stored"
    "applied_view sm' = (me_last_log_id (ss_meta stored), me_last_membership (ss_meta stored), s)"
    using open_stored [OF assms(1) stored(1) n(2), of m0 tmp] by blast
  then show ?thesis using opened Some none n stored keep by (intro replica_okI [OF n(1)]) auto
qed

lemma current_prefix:
  "replica_ok codec m0 log sm \<Longrightarrow> get_current_snapshot sm = Some (meta, data) \<Longrightarrow>
     prefix_snapshot codec m0 log \<lparr>ss_meta = meta, ss_data = data\<rparr>"
  by (auto simp: get_current_snapshot_def replica_ok_def) (metis StoredSnapshot.surjective old.unit.exhaust)

lemma applied_ok:
  assumes "distinct (map en_log_id log)" "replica_ok codec m0 log sm"
    and log: "log = before @ entries @ rest" "sm_last_applied sm = last_log_id before"
  shows "replica_ok codec m0 log (fst (sm_apply sm entries))"
proof -
  obtain n where n: "n \<le> length log" "applied_view sm = log_view m0 log n" using assms(2) by (rule replica_okE)
  have "last_log_id (take n log) = last_log_id (take (length before) log)"
    using arg_cong [OF n(2), of fst] log_view_position [of m0 log n] log
    by (simp add: sm_last_applied_def applied_view_def)
  then have pos: "n = length before" using position_unique [OF assms(1) n(1)] log(1) by simp
  have "entries = take (length entries) (drop n log)" by (simp add: log(1) pos)
  then have "applied_view (fst (sm_apply sm entries)) = log_view m0 log (n + length entries)"
    using log_view_append [OF n(2)] by metis
  moreover have "n + length entries \<le> length log" by (simp add: log(1) pos)
  ultimately show ?thesis using assms(2) by (intro replica_okI) (auto elim!: replica_okE)
qed

lemma replica_invariant:
  assumes "snapshot_codec_ok codec" "distinct (map en_log_id log)" "replica codec show_leader m0 log sm"
  shows "replica_ok codec m0 log sm"
  using assms(3)
proof (induction rule: replica.induct)
  case fresh
  show ?case
    by (intro replica_okI [of 0]) (simp_all add: log_view_def applied_view_def state_machine_default_def)
next
  case (opened read_error tmp sm)
  then show ?case using reopened_ok [OF assms(1), of None] by blast
next
  case (reopened sm read_error tmp sm')
  then show ?case using reopened_ok [OF assms(1), of "gs_file sm"] by (auto elim!: replica_okE)
next
  case (applied sm before entries rest)
  then show ?case using applied_ok [OF assms(2)] by blast
next
  case (built sm fault)
  then show ?case by (simp add: built_ok)
next
  case (received sm sender meta data fault)
  then show ?case using received_ok [OF received.IH(1) current_prefix [OF received.IH(2)]] by simp
next
  case (installed sm sender meta data state)
  then show ?case using installed_ok [OF assms(1) installed.IH(1) current_prefix [OF installed.IH(2)]] by simp
qed

section \<open>Agreement\<close>

text \<open>Whatever a crash interrupted, the file of a copy can be opened.\<close>

lemma replica_file_opens:
  assumes ok: "snapshot_codec_ok codec" and "replica_ok codec m0 log sm"
  shows "\<exists>sm'. sm_persistent codec m0 None (gs_file sm) tmp = Inr sm'"
proof (cases "gs_file sm")
  case None
  then show ?thesis by (simp add: sm_persistent_def)
next
  case (Some b)
  then obtain stored s where "enc_stored codec stored = Inr b" "enc_state codec s = Inr (ss_data stored)"
    using assms(2) by (auto simp: replica_ok_def prefix_snapshot_def)
  then show ?thesis using open_stored [OF ok, of stored b s m0 tmp] Some by auto
qed

text \<open>The files that stop an open: bytes that are not a stored snapshot, or one whose state does not decode.\<close>

definition snapshot_unreadable :: "('lid, 'm) snapshot_codec \<Rightarrow> string option \<Rightarrow> bool" where
  "snapshot_unreadable codec content \<longleftrightarrow>
     (case content of
        None \<Rightarrow> False
      | Some bytes \<Rightarrow>
          (case dec_stored codec bytes of
             Inl _ \<Rightarrow> True
           | Inr stored \<Rightarrow> isl (decode_state_or_default codec (ss_data stored))))"

lemma open_fails_iff: "isl (sm_persistent codec m0 None content tmp) \<longleftrightarrow> snapshot_unreadable codec content"
  by (simp add: sm_persistent_def snapshot_unreadable_def Let_def split: option.split sum.split)

lemma same_position_same_view:
  assumes "distinct (map en_log_id log)" "replica_ok codec m0 log a" "replica_ok codec m0 log b"
    and "sm_last_applied a = sm_last_applied b"
  shows "applied_view a = applied_view b"
proof -
  obtain i where i: "i \<le> length log" "applied_view a = log_view m0 log i" using assms(2) by (rule replica_okE)
  obtain j where j: "j \<le> length log" "applied_view b = log_view m0 log j" using assms(3) by (rule replica_okE)
  have "last_log_id (take i log) = last_log_id (take j log)"
    using assms(4) i(2) j(2) log_view_position [of m0 log] by (metis applied_view_def fst_conv sm_last_applied_def)
  then show ?thesis using position_unique [OF assms(1) i(1) j(1)] i(2) j(2) by simp
qed

text \<open>A copy that agrees with every other copy at its position, and on everything applied from there on.\<close>

definition copy_in_step ::
    "('lid, 'm) snapshot_codec \<Rightarrow> ('lid \<Rightarrow> string) \<Rightarrow> 'm \<Rightarrow> ('lid, 'm) Entry list \<Rightarrow>
     ('lid, 'm) GanglionStateMachine \<Rightarrow> bool" where
  "copy_in_step codec show_leader m0 log sm \<longleftrightarrow> replica codec show_leader m0 log sm
     \<and> (\<forall>other entries. replica codec show_leader m0 log other \<and> sm_last_applied other = sm_last_applied sm \<longrightarrow>
          applied_view other = applied_view sm \<and> snd (sm_apply other entries) = snd (sm_apply sm entries))"

lemma replica_in_step:
  assumes "snapshot_codec_ok codec" "distinct (map en_log_id log)" "replica codec show_leader m0 log sm"
  shows "copy_in_step codec show_leader m0 log sm"
proof -
  have "applied_view other = applied_view sm"
    if "replica codec show_leader m0 log other" "sm_last_applied other = sm_last_applied sm" for other
    using same_position_same_view [OF assms(2) replica_invariant [OF assms(1,2) that(1)]
        replica_invariant [OF assms] that(2)] .
  then show ?thesis using assms(3) sm_apply_view unfolding copy_in_step_def by blast
qed

text \<open>
  C5. Copies of the state machine agree.  Whatever batches, snapshot builds, received snapshots, file
  failures, crashes and restarts led there, a copy holds what a run over some prefix of the log gives,
  and two copies that have applied up to the same log id have the same committed snapshot and
  membership, show the same to every reader of the committed state, and answer every further batch
  alike.  So the last applied id can key values derived from the committed state, on any node.
  The file writes of one copy take turns here (see \<open>Snapshot_File\<close>).
\<close>

theorem replicas_agree:
  assumes "snapshot_codec_ok codec" "distinct (map en_log_id log)"
    and "replica codec show_leader m0 log a" "replica codec show_leader m0 log b"
    and "sm_last_applied a = sm_last_applied b"
  shows "(\<exists>n\<le>length log. applied_view a = applied_view (fst (sm_apply (state_machine_default m0) (take n log))))
    \<and> sm_read_committed_at a read = sm_read_committed_at b read \<and> sm_applied_state a = sm_applied_state b
    \<and> snd (sm_apply a entries) = snd (sm_apply b entries)"
proof -
  note ok = replica_invariant [OF assms(1-3)] replica_invariant [OF assms(1,2,4)]
  obtain i where i: "i \<le> length log" "applied_view a = log_view m0 log i" using ok(1) by (rule replica_okE)
  have same: "applied_view a = applied_view b" by (rule same_position_same_view [OF assms(2) ok assms(5)])
  then have "snd (sm_apply a entries) = snd (sm_apply b entries)" using sm_apply_view by blast
  then show ?thesis using same i
    by (auto simp: applied_view_def log_view_def sm_read_committed_at_def sm_applied_state_def)
qed

text \<open>
  A build that comes between the two steps of a receipt leaves the file behind the machine: the file
  restores the state of the build, while the machine already holds the received one.
\<close>

theorem install_overtaken_by_build:
  assumes ok: "snapshot_codec_ok codec" and "gs_persistent sm"
    and receive: "install_persist codec None sm meta data = (sm1, Inr state)"
    and build: "build_snapshot codec show_leader None sm1 = (sm2, Inr built)"
  shows "applied_view (install_commit meta data state sm2) = (me_last_log_id meta, me_last_membership meta, state)
    \<and> (\<exists>reopened. sm_persistent codec m0 None (gs_file (install_commit meta data state sm2)) tmp = Inr reopened
         \<and> applied_view reopened = applied_view sm)"
proof -
  obtain r where p: "persist_snapshot codec None sm \<lparr>ss_meta = meta, ss_data = data\<rparr> = (sm1, r)"
    using receive by (auto simp: install_persist_def split: sum.splits prod.splits)
  then have "applied_view sm1 = applied_view sm" "gs_persistent sm1"
    using persist_keeps [OF p] assms(2) by (simp_all add: applied_view_def)
  moreover obtain b stored where "gs_file sm2 = Some b" "enc_stored codec stored = Inr b" "records_view codec sm1 stored"
    using build_result [of codec show_leader None sm1 sm2 "fst built" "snd built"] build calculation(2)
    by (auto simp: records_view_def)
  ultimately show ?thesis
    using open_stored [OF ok, of stored b "in_state (gs_inner sm1)" m0 tmp]
    by (auto simp: install_commit_def applied_view_def records_view_def)
qed

section \<open>Witnesses\<close>

text \<open>One copy applies the demonstration entries; another receives the snapshot built from it.\<close>

lemma demo_replica: "replica unary_codec show_nat 0 demo_entries demo_machine"
proof -
  let ?sm = "(state_machine_default 0)\<lparr>gs_persistent := True\<rparr>"
  have "sm_persistent unary_codec 0 None None None = Inr ?sm"
    by (simp add: sm_persistent_def state_machine_default_def)
  then have "replica unary_codec show_nat 0 demo_entries (fst (sm_apply ?sm demo_entries))"
    by (intro replica.applied [OF replica.opened, where before = "[]" and rest = "[]"])
      (simp_all add: sm_last_applied_def last_log_id_def state_machine_default_def)
  moreover have "fst (sm_apply ?sm demo_entries) = demo_machine"
    by (simp add: demo_machine_def sm_apply_def send_replace_def state_machine_default_def Let_def split: prod.split)
  ultimately show ?thesis by simp
qed

theorem replicas_agree_witness:
  "\<exists>sm' meta data b. build_snapshot unary_codec show_nat None demo_machine = (sm', Inr (meta, data))
     \<and> install_snapshot unary_codec None (state_machine_default 0) meta data = (b, Inr ())
     \<and> sm_applied_state b = sm_applied_state demo_machine
     \<and> snd (sm_apply b demo_entries) = snd (sm_apply demo_machine demo_entries)"
proof -
  obtain sm' meta data where b: "build_snapshot unary_codec show_nat None demo_machine = (sm', Inr (meta, data))"
    using demo_build by blast
  then obtain t where t: "install_snapshot unary_codec None (state_machine_default 0) meta data = (t, Inr ())"
    using demo_install by blast
  have sender: "replica unary_codec show_nat 0 demo_entries sm'"
    using replica.built [OF demo_replica, of None] b by simp
  have "get_current_snapshot sm' = Some (meta, data)"
    using build_result [OF b] by (simp add: get_current_snapshot_def)
  then have "replica unary_codec show_nat 0 demo_entries t"
    using replica_install [OF replica.fresh sender, of meta data None] t by simp
  moreover have "distinct (map en_log_id demo_entries)" by code_simp
  moreover have "sm_last_applied t = sm_last_applied demo_machine"
    using t build_result [OF b] by (auto simp: sm_last_applied_def install_snapshot_def Let_def
        split: sum.splits prod.splits)
  ultimately show ?thesis
    using replicas_agree [OF unary_codec_ok, of demo_entries show_nat 0 t demo_machine] demo_replica b t by blast
qed

end
