(* ===== verification/Snapshot_File.thy ===== *)
theory Snapshot_File
  imports Replicas
begin

text \<open>
  The file write of \<^verbatim>\<open>persist_snapshot\<close> (\<^verbatim>\<open>storage.rs\<close>), one system call at a time, on a directory
  whose names refer to files.  \<^verbatim>\<open>build_snapshot\<close> writes under the machine's lock, \<^verbatim>\<open>install_snapshot\<close>
  before it takes the lock, and both use the same temporary name; so two writers can be active at once.
  Writers that take turns never leave a torn file, which is what the one-step file writes of
  \<open>State_Machine\<close> and \<open>Replicas\<close> stand for; two that overlap can.
\<close>

section \<open>The directory\<close>

record snapshot_dir =
  sd_data :: "nat \<Rightarrow> string"
  sd_next :: nat
  sd_path :: "nat option"
  sd_tmp :: "nat option"

definition path_content :: "snapshot_dir \<Rightarrow> string option" where
  "path_content dir = map_option (sd_data dir) (sd_path dir)"

text \<open>\<^verbatim>\<open>File::create\<close> on the temporary name: an existing file is truncated, not replaced.\<close>

definition create_tmp :: "snapshot_dir \<Rightarrow> snapshot_dir \<times> nat" where
  "create_tmp dir =
     (case sd_tmp dir of
        Some ino \<Rightarrow> (dir\<lparr>sd_data := (sd_data dir)(ino := [])\<rparr>, ino)
      | None \<Rightarrow>
          (let ino = sd_next dir in
           (dir\<lparr>sd_data := (sd_data dir)(ino := []), sd_next := Suc ino, sd_tmp := Some ino\<rparr>, ino)))"

text \<open>A write at a handle's own position; a gap in front of it reads as zero bytes.\<close>

definition write_at :: "nat \<Rightarrow> string \<Rightarrow> string \<Rightarrow> string" where
  "write_at pos bytes content =
     take pos (content @ replicate (pos - length content) (CHR 0x00)) @ bytes @ drop (pos + length bytes) content"

text \<open>\<^verbatim>\<open>rename\<close> moves the name, whichever file it refers to by now.\<close>

definition rename_tmp :: "snapshot_dir \<Rightarrow> snapshot_dir option" where
  "rename_tmp dir =
     (case sd_tmp dir of
        None \<Rightarrow> None
      | Some ino \<Rightarrow> Some (dir\<lparr>sd_path := Some ino, sd_tmp := None\<rparr>))"

section \<open>The writers\<close>

text \<open>One call of \<^verbatim>\<open>persist_snapshot\<close> with its encoded bytes: before the create, between two writes, after the sync, at its end.\<close>

datatype snapshot_writer =
    Ready string
  | Writing string nat nat
  | Synced string nat
  | Renamed string
  | Failed string

fun writing :: "snapshot_writer \<Rightarrow> bool" where
  "writing (Writing _ _ _) \<longleftrightarrow> True"
| "writing (Synced _ _) \<longleftrightarrow> True"
| "writing _ \<longleftrightarrow> False"

fun to_write :: "snapshot_writer \<Rightarrow> string" where
  "to_write (Ready bytes) = bytes"
| "to_write (Writing bytes _ _) = bytes"
| "to_write (Synced bytes _) = bytes"
| "to_write (Renamed bytes) = bytes"
| "to_write (Failed bytes) = bytes"

text \<open>The next call: create, write of up to \<open>n + 1\<close> more bytes, sync, rename.\<close>

fun writer_step :: "nat \<Rightarrow> snapshot_dir \<Rightarrow> snapshot_writer \<Rightarrow> snapshot_dir \<times> snapshot_writer" where
  "writer_step n dir (Ready bytes) = (case create_tmp dir of (dir', ino) \<Rightarrow> (dir', Writing bytes ino 0))"
| "writer_step n dir (Writing bytes ino pos) =
     (if pos < length bytes
      then let chunk = take (Suc n) (drop pos bytes) in
        (dir\<lparr>sd_data := (sd_data dir)(ino := write_at pos chunk (sd_data dir ino))\<rparr>,
         Writing bytes ino (pos + length chunk))
      else (dir, Synced bytes ino))"
| "writer_step n dir (Synced bytes ino) =
     (case rename_tmp dir of Some dir' \<Rightarrow> (dir', Renamed bytes) | None \<Rightarrow> (dir, Failed bytes))"
| "writer_step n dir (Renamed bytes) = (dir, Renamed bytes)"
| "writer_step n dir (Failed bytes) = (dir, Failed bytes)"

text \<open>
  Interleavings of several writers, each of which may also fail at any call.  Under \<open>locked\<close> a writer
  starts only while no other one is between its create and its rename.
\<close>

inductive interleaved ::
    "bool \<Rightarrow> snapshot_dir \<times> snapshot_writer list \<Rightarrow> snapshot_dir \<times> snapshot_writer list \<Rightarrow> bool"
  for locked :: bool and start :: "snapshot_dir \<times> snapshot_writer list" where
  begun: "interleaved locked start start"
| step: "interleaved locked start (dir, ws) \<Longrightarrow> k < length ws \<Longrightarrow>
    (locked \<Longrightarrow> \<forall>w\<in>set (ws[k := Failed []]). \<not> writing w) \<Longrightarrow>
    writer_step n dir (ws ! k) = (dir', w') \<Longrightarrow> interleaved locked start (dir', ws[k := w'])"
| fail: "interleaved locked start (dir, ws) \<Longrightarrow> k < length ws \<Longrightarrow> writing (ws ! k) \<Longrightarrow>
    interleaved locked start (dir, ws[k := Failed (to_write (ws ! k))])"

section \<open>Taking turns\<close>

definition dir_ok :: "snapshot_dir \<Rightarrow> bool" where
  "dir_ok dir \<longleftrightarrow> (\<forall>ino. sd_path dir = Some ino \<longrightarrow> ino < sd_next dir \<and> sd_tmp dir \<noteq> Some ino)
     \<and> (\<forall>ino. sd_tmp dir = Some ino \<longrightarrow> ino < sd_next dir)"

fun handle_ok :: "snapshot_dir \<Rightarrow> snapshot_writer \<Rightarrow> bool" where
  "handle_ok dir (Writing bytes ino pos) \<longleftrightarrow>
     sd_tmp dir = Some ino \<and> pos \<le> length bytes \<and> sd_data dir ino = take pos bytes"
| "handle_ok dir (Synced bytes ino) \<longleftrightarrow> sd_tmp dir = Some ino \<and> sd_data dir ino = bytes"
| "handle_ok dir _ \<longleftrightarrow> True"

lemma write_next:
  assumes "pos \<le> length bytes"
  shows "write_at pos (take n (drop pos bytes)) (take pos bytes) = take (pos + n) bytes"
  using assms by (simp add: write_at_def take_add)

lemma create_tmp_ok:
  assumes "dir_ok dir" "create_tmp dir = (dir', ino)"
  shows "dir_ok dir'" "sd_tmp dir' = Some ino" "sd_data dir' ino = []" "path_content dir' = path_content dir"
  using assms by (auto simp: create_tmp_def dir_ok_def path_content_def Let_def
      split: option.splits intro!: map_option_cong)

text \<open>One step of a writer whose handle is its own: the snapshot keeps its content, or gets the writer's bytes.\<close>

lemma writer_step_ok:
  assumes "dir_ok dir" "handle_ok dir w" "writer_step n dir w = (dir', w')"
  shows "dir_ok dir'" "handle_ok dir' w'" "to_write w' = to_write w"
    "path_content dir' = path_content dir \<or> path_content dir' = Some (to_write w)"
proof -
  have "dir_ok dir' \<and> handle_ok dir' w' \<and> to_write w' = to_write w
    \<and> (path_content dir' = path_content dir \<or> path_content dir' = Some (to_write w))"
  proof (cases w)
    case (Ready bytes)
    then show ?thesis using create_tmp_ok [OF assms(1)] assms(3) by (auto split: prod.splits)
  next
    case (Writing bytes ino pos)
    then show ?thesis using assms write_next [of pos bytes "Suc n"]
      by (auto simp: dir_ok_def path_content_def min_def Let_def split: if_splits intro!: map_option_cong)
  next
    case (Synced bytes ino)
    then show ?thesis using assms by (auto simp: rename_tmp_def dir_ok_def path_content_def)
  qed (use assms in auto)
  then show "dir_ok dir'" "handle_ok dir' w'" "to_write w' = to_write w"
    "path_content dir' = path_content dir \<or> path_content dir' = Some (to_write w)" by blast+
qed

lemma handle_ok_idle: "\<not> writing w \<Longrightarrow> handle_ok dir w"
  by (cases w) auto

lemma turns_invariant:
  assumes "interleaved True (dir0, map Ready bs) (dir, ws)" "dir_ok dir0"
  shows "dir_ok dir \<and> map to_write ws = bs \<and> (\<forall>w\<in>set ws. handle_ok dir w)
    \<and> (path_content dir = path_content dir0 \<or> path_content dir \<in> Some ` set bs)"
  using assms
proof (induction "(dir, ws)" arbitrary: dir ws rule: interleaved.induct)
  case begun
  then show ?case by (auto simp: comp_def)
next
  case (step dir ws k n dir' w')
  have IH: "dir_ok dir" "map to_write ws = bs" "\<forall>w\<in>set ws. handle_ok dir w"
    "path_content dir = path_content dir0 \<or> path_content dir \<in> Some ` set bs"
    using step.hyps(2) step.prems by blast+
  have k: "ws ! k \<in> set ws" using step.hyps(3) by simp
  note s = writer_step_ok [OF IH(1) bspec [OF IH(3) k] step.hyps(5)]
  have "\<forall>w\<in>set (ws[k := w']). handle_ok dir' w"
  proof
    fix w assume "w \<in> set (ws[k := w'])"
    then obtain j where j: "j < length ws" "w = ws[k := w'] ! j" by (auto simp: in_set_conv_nth)
    show "handle_ok dir' w"
    proof (cases "j = k")
      case False
      then have "w \<in> set (ws[k := Failed []])" using j by (metis length_list_update nth_list_update_neq nth_mem)
      then show ?thesis using step.hyps(4) handle_ok_idle by blast
    qed (use j s(2) in simp)
  qed
  moreover have same: "map to_write (ws[k := w']) = bs" using IH(2) s(3) step.hyps(3) by (metis list_update_id map_update nth_map)
  moreover have "to_write (ws ! k) \<in> set bs" using IH(2) k by auto
  ultimately show ?case using s(1,4) IH(4) by auto
next
  case (fail dir ws k)
  have IH: "dir_ok dir" "map to_write ws = bs" "\<forall>w\<in>set ws. handle_ok dir w"
    "path_content dir = path_content dir0 \<or> path_content dir \<in> Some ` set bs"
    using fail.hyps(2) fail.prems by blast+
  have "map to_write (ws[k := Failed (to_write (ws ! k))]) = bs"
    using IH(2) fail.hyps(3) by (metis list_update_id map_update nth_map to_write.simps(5))
  moreover have "\<forall>w\<in>set (ws[k := Failed (to_write (ws ! k))]). handle_ok dir w"
    using IH(3) set_update_subset_insert [of ws k] by fastforce
  ultimately show ?case using IH(1,4) by blast
qed

text \<open>
  Writers that take turns, with any failures and a crash at any call, never leave a torn file: the
  snapshot is the one from before or the complete bytes of one of them.
\<close>

theorem turns_never_torn:
  assumes "dir_ok dir0" "interleaved True (dir0, map Ready bs) (dir, ws)"
  shows "path_content dir = path_content dir0 \<or> (\<exists>bytes\<in>set bs. path_content dir = Some bytes)"
  using turns_invariant [OF assms(2,1)] by auto

section \<open>Overlapping\<close>

text \<open>
  A receipt and a build that overlap: the second create truncates the file the first has written and
  synced, the second has written any \<open>n\<close> bytes when the first renames.  The first call succeeds, the
  snapshot holds a torn prefix of the second one's bytes, and from there the second call cannot succeed any more.
\<close>

theorem overlap_tears:
  assumes "n \<le> length second"
  shows "\<exists>dir ino. interleaved False (dir0, [Ready first, Ready second]) (dir, [Renamed first, Writing second ino n])
    \<and> path_content dir = Some (take n second)
    \<and> (\<forall>bytes. writer_step m dir (Synced bytes ino) = (dir, Failed bytes))"
proof -
  note go = interleaved.step [where locked = False, simplified]
  obtain dir1 ino where c: "create_tmp dir0 = (dir1, ino)" by force
  have tmp: "sd_tmp dir1 = Some ino" "sd_data dir1 ino = []"
    using c by (auto simp: create_tmp_def Let_def split: option.splits)
  have one: "interleaved False (dir0, [Ready first, Ready second]) (dir1, [Writing first ino 0, Ready second])"
    using go [where ws = "[Ready first, Ready second]" and dir = dir0 and k = 0 and n = 0, OF interleaved.begun] c by simp
  obtain dir2 where two: "interleaved False (dir0, [Ready first, Ready second])
      (dir2, [Writing first ino (length first), Ready second])" and tmp2: "sd_tmp dir2 = Some ino"
  proof (cases "first = []")
    case True
    then show thesis using that one tmp by simp
  next
    case False
    then show thesis
      using go [OF one, where k = 0 and n = "length first"] that tmp(1) by (auto simp: Let_def)
  qed
  have three: "interleaved False (dir0, [Ready first, Ready second]) (dir2, [Synced first ino, Ready second])"
    using go [OF two, where k = 0 and n = 0] by simp
  let ?dir3 = "dir2\<lparr>sd_data := (sd_data dir2)(ino := [])\<rparr>"
  have four: "interleaved False (dir0, [Ready first, Ready second]) (?dir3, [Synced first ino, Writing second ino 0])"
    using go [OF three, where k = 1 and n = 0] tmp2 by (simp add: create_tmp_def)
  let ?dir4 = "dir2\<lparr>sd_data := (sd_data dir2)(ino := take n second)\<rparr>"
  have five: "interleaved False (dir0, [Ready first, Ready second]) (?dir4, [Synced first ino, Writing second ino n])"
  proof (cases n)
    case 0
    then show ?thesis using four by simp
  next
    case (Suc k)
    then have "second \<noteq> []" "min (length second) (Suc k) = Suc k" using assms by auto
    then have "writer_step k ?dir3 (Writing second ino 0) = (?dir4, Writing second ino n)"
      using Suc by (simp add: write_at_def Let_def)
    then show ?thesis using go [OF four, where k = 1 and n = k] by simp
  qed
  let ?dir5 = "?dir4\<lparr>sd_path := Some ino, sd_tmp := None\<rparr>"
  have "interleaved False (dir0, [Ready first, Ready second]) (?dir5, [Renamed first, Writing second ino n])"
    using go [OF five, where k = 0 and n = 0] tmp2 by (simp add: rename_tmp_def)
  then show ?thesis
    by (intro exI [of _ ?dir5] exI [of _ ino]) (simp add: path_content_def rename_tmp_def)
qed

text \<open>
  So a crash during such an overlap can leave a directory that does not open, although no write has
  failed: it is enough that some prefix of the second snapshot, the empty one included, does not decode.
\<close>

theorem overlap_stops_open:
  assumes "enc_stored codec stored1 = Inr first" "enc_stored codec stored2 = Inr second"
    and "n \<le> length second" "dec_stored codec (take n second) = Inl error"
  shows "\<exists>dir ws. interleaved False (dir0, [Ready first, Ready second]) (dir, ws) \<and> ws ! 0 = Renamed first
    \<and> sm_persistent codec m0 None (path_content dir) tmp = Inl (ReadSnapshot error)"
  using overlap_tears [OF assms(3), of dir0 first] assms(4)
  by (fastforce simp: sm_persistent_def)

end
