(* ===== verification/Read_Race.thy ===== *)
theory Read_Race
  imports Log_Store
begin

text \<open>
  The race of \<^verbatim>\<open>openraft_runtime/step_down_read_race.rs\<close>: a replication task reads the log while the core
  task truncates or purges it.  \<^verbatim>\<open>GatedReads\<close> wraps the in-memory log store; its gate can hold one read
  open, counts truncations and purges, and records the reads that return nothing for a nonempty
  range.

  All handles share one store and one gate, so a clone is the same state.  The tasks interleave at
  their atomic actions: taking the store's lock, one access to an atomic or to a guarded field
  of the gate, waiting for a notification.  A run is a list of such actions.
\<close>

section \<open>The gated store\<close>

record EmptyRead =
  er_start :: u64
  er_end :: u64
  er_truncates_before :: u64
  er_purges_before :: u64

text \<open>
  A \<^verbatim>\<open>tokio::sync::Notify\<close> is its stored permit and the readers waiting for it, first come first served;
  \<open>rg_entered\<close> is the permit the test waits for.
\<close>

record ReadGate =
  rg_armed :: bool
  rg_entered :: bool
  rg_release :: bool
  rg_waiting :: "nat list"
  rg_held_range :: "(u64 \<times> u64) option"
  rg_truncates :: u64
  rg_purges :: u64
  rg_empty_reads :: "EmptyRead list"

definition ReadGate_default :: ReadGate where
  "ReadGate_default = \<lparr>rg_armed = False, rg_entered = False, rg_release = False, rg_waiting = [],
     rg_held_range = None, rg_truncates = 0, rg_purges = 0, rg_empty_reads = []\<rparr>"

record ('lid, 'm, 'vote) GatedReads =
  gr_inner :: "('lid, 'm, 'vote) LogStoreInner"
  gr_gate :: ReadGate

definition GatedReads_default :: "('lid, 'm, 'vote) GatedReads" where
  "GatedReads_default = \<lparr>gr_inner = LogStoreInner_default, gr_gate = ReadGate_default\<rparr>"

definition gated_try_get_log_entries ::
    "('lid, 'm, 'vote) GatedReads \<Rightarrow> bound \<Rightarrow> bound \<Rightarrow> ('lid, 'm) Entry list option" where
  "gated_try_get_log_entries self lo hi = mem_try_get_log_entries (gr_inner self) lo hi"

definition gated_get_log_state :: "('lid, 'm, 'vote) GatedReads \<Rightarrow> 'lid LogState" where
  "gated_get_log_state self = mem_get_log_state (gr_inner self)"

definition gated_get_log_reader :: "('lid, 'm, 'vote) GatedReads \<Rightarrow> ('lid, 'm, 'vote) GatedReads" where
  "gated_get_log_reader self = self"

definition gated_save_vote :: "'vote \<Rightarrow> ('lid, 'm, 'vote) GatedReads \<Rightarrow> ('lid, 'm, 'vote) GatedReads" where
  "gated_save_vote vote self = self\<lparr>gr_inner := mem_save_vote vote (gr_inner self)\<rparr>"

definition gated_read_vote :: "('lid, 'm, 'vote) GatedReads \<Rightarrow> 'vote option" where
  "gated_read_vote self = mem_read_vote (gr_inner self)"

definition gated_append ::
    "('lid, 'm) Entry list \<Rightarrow> ('lid, 'm, 'vote) GatedReads \<Rightarrow> ('lid, 'm, 'vote) GatedReads" where
  "gated_append entries self = self\<lparr>gr_inner := mem_append entries (gr_inner self)\<rparr>"

text \<open>Truncation and purge change the log first and count in a second action.\<close>

definition cut_log ::
    "(('lid, 'm, 'vote) LogStoreInner \<Rightarrow> ('lid, 'm, 'vote) LogStoreInner) \<Rightarrow>
     ('lid, 'm, 'vote) GatedReads \<Rightarrow> ('lid, 'm, 'vote) GatedReads" where
  "cut_log shorten self = self\<lparr>gr_inner := shorten (gr_inner self)\<rparr>"

definition count_truncate :: "('lid, 'm, 'vote) GatedReads \<Rightarrow> ('lid, 'm, 'vote) GatedReads" where
  "count_truncate self = self\<lparr>gr_gate := (gr_gate self)\<lparr>rg_truncates := rg_truncates (gr_gate self) + 1\<rparr>\<rparr>"

definition count_purge :: "('lid, 'm, 'vote) GatedReads \<Rightarrow> ('lid, 'm, 'vote) GatedReads" where
  "count_purge self = self\<lparr>gr_gate := (gr_gate self)\<lparr>rg_purges := rg_purges (gr_gate self) + 1\<rparr>\<rparr>"

definition gated_truncate ::
    "'lid LogId \<Rightarrow> ('lid, 'm, 'vote) GatedReads \<Rightarrow> ('lid, 'm, 'vote) GatedReads" where
  "gated_truncate log_id self = count_truncate (cut_log (mem_truncate log_id) self)"

definition gated_purge ::
    "'lid LogId \<Rightarrow> ('lid, 'm, 'vote) GatedReads \<Rightarrow> ('lid, 'm, 'vote) GatedReads" where
  "gated_purge log_id self = count_purge (cut_log (mem_purge log_id) self)"

section \<open>A replication read, action by action\<close>

text \<open>
  Where a call of \<^verbatim>\<open>limited_get_log_entries\<close> stands: waiting at the gate, about to read the log, about to
  load the two counters for an empty result, or done.  An inverted range panics in the task.
\<close>

datatype ('lid, 'm) read_phase =
    NotReading
  | Waiting u64 u64
  | Ready u64 u64
  | CameEmpty u64 u64
  | LoadedTruncates u64 u64 u64
  | Done u64 u64 "('lid, 'm) Entry list"
  | Panicked

definition limited_enter ::
    "nat \<Rightarrow> u64 \<Rightarrow> u64 \<Rightarrow> ('lid, 'm, 'vote) GatedReads \<Rightarrow> ('lid, 'm, 'vote) GatedReads \<times> ('lid, 'm) read_phase" where
  "limited_enter reader start end self =
     (let gate = gr_gate self in
      if start < end \<and> rg_armed gate then
        let gate = gate\<lparr>rg_armed := False, rg_held_range := Some (start, end), rg_entered := True\<rparr> in
        if rg_release gate then (self\<lparr>gr_gate := gate\<lparr>rg_release := False\<rparr>\<rparr>, Ready start end)
        else (self\<lparr>gr_gate := gate\<lparr>rg_waiting := rg_waiting gate @ [reader]\<rparr>\<rparr>, Waiting start end)
      else (self, Ready start end))"

definition limited_read ::
    "u64 \<Rightarrow> u64 \<Rightarrow> ('lid, 'm, 'vote) GatedReads \<Rightarrow> ('lid, 'm) read_phase" where
  "limited_read start end self =
     (case mem_try_get_log_entries (gr_inner self) (Included start) (Excluded end) of
        None \<Rightarrow> Panicked
      | Some entries \<Rightarrow> if start < end \<and> entries = [] then CameEmpty start end else Done start end entries)"

definition limited_record ::
    "u64 \<Rightarrow> u64 \<Rightarrow> u64 \<Rightarrow> ('lid, 'm, 'vote) GatedReads \<Rightarrow> ('lid, 'm, 'vote) GatedReads" where
  "limited_record start end truncates_before self =
     self\<lparr>gr_gate := (gr_gate self)\<lparr>rg_empty_reads := rg_empty_reads (gr_gate self)
       @ [\<lparr>er_start = start, er_end = end, er_truncates_before = truncates_before,
           er_purges_before = rg_purges (gr_gate self)\<rparr>]\<rparr>\<rparr>"

text \<open>The call with nothing in between, up to its end or to the wait at the gate.\<close>

definition limited_get_log_entries ::
    "nat \<Rightarrow> u64 \<Rightarrow> u64 \<Rightarrow> ('lid, 'm, 'vote) GatedReads \<Rightarrow> ('lid, 'm, 'vote) GatedReads \<times> ('lid, 'm) read_phase" where
  "limited_get_log_entries reader start end self =
     (case limited_enter reader start end self of
        (self, Ready _ _) \<Rightarrow>
          (case limited_read start end self of
             CameEmpty _ _ \<Rightarrow> (limited_record start end (rg_truncates (gr_gate self)) self, Done start end [])
           | phase \<Rightarrow> (self, phase))
      | (self, phase) \<Rightarrow> (self, phase))"

section \<open>Interleavings\<close>

text \<open>What the core task has still to count.\<close>

datatype core_phase = CoreIdle | CountsTruncate | CountsPurge

record ('lid, 'm, 'vote) race =
  ra_store :: "('lid, 'm, 'vote) GatedReads"
  ra_core :: core_phase
  ra_readers :: "nat \<Rightarrow> ('lid, 'm) read_phase"

datatype ('lid, 'm, 'vote) race_action =
    SaveVote 'vote
  | Append "('lid, 'm) Entry list"
  | Truncate "'lid LogId"
  | Purge "'lid LogId"
  | Count
  | Arm
  | Release
  | Start nat u64 u64
  | Resume nat

definition release_one :: "('lid, 'm, 'vote) race \<Rightarrow> ('lid, 'm, 'vote) race" where
  "release_one st =
     (let gate = gr_gate (ra_store st) in
      case rg_waiting gate of
        [] \<Rightarrow> st\<lparr>ra_store := (ra_store st)\<lparr>gr_gate := gate\<lparr>rg_release := True\<rparr>\<rparr>\<rparr>
      | reader # rest \<Rightarrow>
          st\<lparr>ra_store := (ra_store st)\<lparr>gr_gate := gate\<lparr>rg_waiting := rest\<rparr>\<rparr>,
             ra_readers := (case ra_readers st reader of
                Waiting start end \<Rightarrow> (ra_readers st)(reader := Ready start end)
              | _ \<Rightarrow> ra_readers st)\<rparr>)"

fun resume_reader :: "nat \<Rightarrow> ('lid, 'm) read_phase \<Rightarrow> ('lid, 'm, 'vote) race \<Rightarrow> ('lid, 'm, 'vote) race option" where
  "resume_reader reader (Ready start end) st =
     Some (st\<lparr>ra_readers := (ra_readers st)(reader := limited_read start end (ra_store st))\<rparr>)"
| "resume_reader reader (CameEmpty start end) st =
     Some (st\<lparr>ra_readers := (ra_readers st)
        (reader := LoadedTruncates start end (rg_truncates (gr_gate (ra_store st))))\<rparr>)"
| "resume_reader reader (LoadedTruncates start end truncates_before) st =
     Some (st\<lparr>ra_store := limited_record start end truncates_before (ra_store st),
              ra_readers := (ra_readers st)(reader := Done start end [])\<rparr>)"
| "resume_reader reader phase st = None"

fun can_start :: "('lid, 'm) read_phase \<Rightarrow> bool" where
  "can_start NotReading \<longleftrightarrow> True"
| "can_start (Done _ _ _) \<longleftrightarrow> True"
| "can_start _ \<longleftrightarrow> False"

text \<open>One action, \<^const>\<open>None\<close> where the task it belongs to is not there.\<close>

fun race_step :: "('lid, 'm, 'vote) race_action \<Rightarrow> ('lid, 'm, 'vote) race \<Rightarrow> ('lid, 'm, 'vote) race option" where
  "race_step (SaveVote vote) st =
     (if ra_core st = CoreIdle then Some (st\<lparr>ra_store := gated_save_vote vote (ra_store st)\<rparr>) else None)"
| "race_step (Append entries) st =
     (if ra_core st = CoreIdle then Some (st\<lparr>ra_store := gated_append entries (ra_store st)\<rparr>) else None)"
| "race_step (Truncate log_id) st =
     (if ra_core st = CoreIdle
      then Some (st\<lparr>ra_store := cut_log (mem_truncate log_id) (ra_store st), ra_core := CountsTruncate\<rparr>) else None)"
| "race_step (Purge log_id) st =
     (if ra_core st = CoreIdle
      then Some (st\<lparr>ra_store := cut_log (mem_purge log_id) (ra_store st), ra_core := CountsPurge\<rparr>) else None)"
| "race_step Count st =
     (case ra_core st of
        CoreIdle \<Rightarrow> None
      | CountsTruncate \<Rightarrow> Some (st\<lparr>ra_store := count_truncate (ra_store st), ra_core := CoreIdle\<rparr>)
      | CountsPurge \<Rightarrow> Some (st\<lparr>ra_store := count_purge (ra_store st), ra_core := CoreIdle\<rparr>))"
| "race_step Arm st =
     Some (st\<lparr>ra_store := (ra_store st)\<lparr>gr_gate := (gr_gate (ra_store st))\<lparr>rg_armed := True\<rparr>\<rparr>\<rparr>)"
| "race_step Release st = Some (release_one st)"
| "race_step (Start reader start end) st =
     (if can_start (ra_readers st reader) then
        (case limited_enter reader start end (ra_store st) of
           (store, phase) \<Rightarrow> Some (st\<lparr>ra_store := store, ra_readers := (ra_readers st)(reader := phase)\<rparr>))
      else None)"
| "race_step (Resume reader) st = resume_reader reader (ra_readers st reader) st"

fun race_run :: "('lid, 'm, 'vote) race_action list \<Rightarrow> ('lid, 'm, 'vote) race \<Rightarrow> ('lid, 'm, 'vote) race option" where
  "race_run [] st = Some st"
| "race_run (action # actions) st =
     (case race_step action st of None \<Rightarrow> None | Some st' \<Rightarrow> race_run actions st')"

text \<open>Left alone, the actions of a read are the call.\<close>

lemma uninterrupted_read:
  assumes "can_start (ra_readers st r)" "limited_get_log_entries r s e (ra_store st) = (store, Done s' e' es)"
  shows "\<exists>n. race_run (Start r s e # replicate n (Resume r)) st
    = Some (st\<lparr>ra_store := store, ra_readers := (ra_readers st)(r := Done s' e' es)\<rparr>)"
proof -
  obtain self phase where enter: "limited_enter r s e (ra_store st) = (self, phase)" by fastforce
  then have phase: "phase = Ready s e"
    using assms(2) by (auto simp: limited_get_log_entries_def limited_enter_def Let_def split: if_splits)
  show ?thesis
  proof (cases "limited_read s e self")
    case (Done s1 e1 es1)
    then show ?thesis using assms enter phase
      by (intro exI [of _ 1]) (simp add: limited_get_log_entries_def)
  next
    case (CameEmpty s1 e1)
    then have "s1 = s" "e1 = e" by (auto simp: limited_read_def split: option.splits if_splits)
    then show ?thesis using assms enter phase CameEmpty
      by (intro exI [of _ 3]) (auto simp: limited_get_log_entries_def eval_nat_numeral)
  qed (use assms(2) enter phase in \<open>simp_all add: limited_get_log_entries_def\<close>)
qed

section \<open>The log under the gate\<close>

text \<open>What an action does to the log of the plain store.\<close>

fun log_effect ::
    "('lid, 'm, 'vote) race_action \<Rightarrow> ('lid, 'm, 'vote) LogStoreInner \<Rightarrow> ('lid, 'm, 'vote) LogStoreInner" where
  "log_effect (SaveVote vote) = mem_save_vote vote"
| "log_effect (Append entries) = mem_append entries"
| "log_effect (Truncate log_id) = mem_truncate log_id"
| "log_effect (Purge log_id) = mem_purge log_id"
| "log_effect _ = (\<lambda>inner. inner)"

abbreviation log_of :: "('lid, 'm, 'vote) race \<Rightarrow> ('lid, 'm, 'vote) LogStoreInner" where
  "log_of st \<equiv> gr_inner (ra_store st)"

lemmas gated_defs = gated_save_vote_def gated_append_def cut_log_def count_truncate_def count_purge_def
  limited_enter_def limited_record_def release_one_def

lemma resume_log: "resume_reader r phase st = Some st' \<Longrightarrow> log_of st' = log_of st"
  by (cases phase) (auto simp: limited_record_def)

lemma step_log: "race_step a st = Some st' \<Longrightarrow> log_of st' = log_effect a (log_of st)"
  by (cases a) (auto simp: gated_defs Let_def resume_log split: if_splits core_phase.splits list.splits)

text \<open>The wrapper is transparent: whatever the readers and the gate do, the log is that of the plain store.\<close>

lemma run_log: "race_run acts st = Some st' \<Longrightarrow> log_of st' = fold log_effect acts (log_of st)"
  by (induction acts arbitrary: st) (auto simp: step_log split: option.splits)

lemma run_append: "race_run (xs @ ys) st = (case race_run xs st of None \<Rightarrow> None | Some st' \<Rightarrow> race_run ys st')"
  by (induction xs arbitrary: st) (auto split: option.splits)

section \<open>A read is atomic\<close>

fun starts :: "nat \<Rightarrow> ('lid, 'm, 'vote) race_action \<Rightarrow> bool" where
  "starts reader (Start r _ _) \<longleftrightarrow> r = reader"
| "starts reader _ \<longleftrightarrow> False"

fun resumes :: "nat \<Rightarrow> ('lid, 'm, 'vote) race_action \<Rightarrow> bool" where
  "resumes reader (Resume r) \<longleftrightarrow> r = reader"
| "resumes reader _ \<longleftrightarrow> False"

text \<open>What the other tasks can do to a reader: let it through the gate.\<close>

lemma step_other_reader:
  assumes "race_step a st = Some st'" "\<not> starts r a" "\<not> resumes r a"
  shows "ra_readers st' r = ra_readers st r
    \<or> (\<exists>s e. ra_readers st r = Waiting s e \<and> ra_readers st' r = Ready s e)"
proof (cases a)
  case (Resume r')
  then show ?thesis using assms by (cases "ra_readers st r'") auto
qed (use assms in \<open>auto simp: release_one_def Let_def split: if_splits core_phase.splits list.splits prod.splits read_phase.splits\<close>)

definition recorded :: "u64 \<Rightarrow> u64 \<Rightarrow> ('lid, 'm, 'vote) race \<Rightarrow> bool" where
  "recorded start end st \<longleftrightarrow>
     (\<exists>empty \<in> set (rg_empty_reads (gr_gate (ra_store st))). er_start empty = start \<and> er_end empty = end)"

lemma step_recorded: "race_step a st = Some st' \<Longrightarrow> recorded s e st \<Longrightarrow> recorded s e st'"
proof (cases a)
  case (Resume r)
  assume "race_step a st = Some st'" "recorded s e st"
  then show ?thesis using Resume by (cases "ra_readers st r") (auto simp: recorded_def limited_record_def)
qed (auto simp: recorded_def gated_defs Let_def split: if_splits core_phase.splits list.splits)

text \<open>After the log was read, the result is fixed, and an empty one is recorded before the call returns.\<close>

lemma run_after_read:
  assumes "race_run acts st = Some st'" "\<forall>a \<in> set acts. \<not> starts r a" "ra_readers st' r = Done s' e' es"
  shows "(\<forall>s e entries. ra_readers st r = Done s e entries \<longrightarrow> es = entries \<and> (recorded s e st \<longrightarrow> recorded s e st'))
    \<and> (\<forall>s e. (ra_readers st r = CameEmpty s e \<or> (\<exists>t. ra_readers st r = LoadedTruncates s e t))
          \<longrightarrow> es = [] \<and> recorded s e st')"
  using assms
proof (induction acts arbitrary: st)
  case (Cons a acts)
  obtain st1 where step: "race_step a st = Some st1" "race_run acts st1 = Some st'"
    using Cons.prems(1) by (auto split: option.splits)
  note IH = Cons.IH [OF step(2) _ Cons.prems(3)]
  show ?case
  proof (cases "resumes r a")
    case False
    then show ?thesis using step_other_reader [OF step(1)] IH Cons.prems(2) step_recorded [OF step(1)] by fastforce
  next
    case True
    then have a: "a = Resume r" by (cases a) auto
    then have resume: "resume_reader r (ra_readers st r) st = Some st1" using step(1) by simp
    show ?thesis
    proof (cases "ra_readers st r")
      case (CameEmpty s e)
      then show ?thesis using resume IH Cons.prems(2) by auto
    next
      case (LoadedTruncates s e t)
      then have "ra_readers st1 r = Done s e []" "recorded s e st1"
        using resume by (auto simp: recorded_def limited_record_def)
      then show ?thesis using LoadedTruncates IH Cons.prems(2) by auto
    qed (use resume in auto)
  qed
qed simp

lemma run_panicked:
  assumes "race_run acts st = Some st'" "\<forall>a \<in> set acts. \<not> starts r a" "ra_readers st r = Panicked"
  shows "ra_readers st' r = Panicked"
  using assms
proof (induction acts arbitrary: st)
  case (Cons a acts)
  obtain st1 where step: "race_step a st = Some st1" "race_run acts st1 = Some st'"
    using Cons.prems(1) by (auto split: option.splits)
  have "\<not> resumes r a" using step(1) Cons.prems(3) by (cases a) auto
  then have "ra_readers st1 r = Panicked" using step_other_reader [OF step(1), of r] Cons.prems by auto
  then show ?case using Cons.IH [OF step(2)] Cons.prems(2) by simp
qed simp

text \<open>The read itself: what it saw is what the call returns.\<close>

lemma run_from_read:
  assumes run: "race_run acts st = Some st'" "\<forall>a \<in> set acts. \<not> starts r a" "ra_readers st' r = Done s' e' es"
    and read: "ra_readers st r = limited_read s e store"
  shows "mem_try_get_log_entries (gr_inner store) (Included s) (Excluded e) = Some es
    \<and> (s < e \<and> es = [] \<longrightarrow> recorded s e st')"
proof (cases "mem_try_get_log_entries (gr_inner store) (Included s) (Excluded e)")
  case None
  then have "ra_readers st r = Panicked" using read by (simp add: limited_read_def)
  then have "ra_readers st' r = Panicked" by (rule run_panicked [OF run(1,2)])
  then show ?thesis using run(3) by simp
next
  case (Some entries)
  note after = run_after_read [OF run]
  show ?thesis
  proof (cases "s < e \<and> entries = []")
    case True
    then have "ra_readers st r = CameEmpty s e" using read Some by (simp add: limited_read_def)
    then show ?thesis using after True Some by simp
  next
    case False
    then have "ra_readers st r = Done s e entries" using read Some by (auto simp: limited_read_def)
    then show ?thesis using after False Some by auto
  qed
qed

text \<open>The moment of the read.\<close>

lemma run_to_read:
  assumes "race_run acts st = Some st'" "\<forall>a \<in> set acts. \<not> starts r a" "ra_readers st' r = Done s' e' es"
    and "ra_readers st r = Waiting s e \<or> ra_readers st r = Ready s e"
  shows "\<exists>pre post. acts = pre @ post
      \<and> mem_try_get_log_entries (fold log_effect pre (log_of st)) (Included s) (Excluded e) = Some es
      \<and> (s < e \<and> es = [] \<longrightarrow> recorded s e st')"
  using assms
proof (induction acts arbitrary: st)
  case (Cons a acts)
  obtain st1 where step: "race_step a st = Some st1" "race_run acts st1 = Some st'"
    using Cons.prems(1) by (auto split: option.splits)
  have once: "\<forall>a \<in> set acts. \<not> starts r a" using Cons.prems(2) by simp
  show ?case
  proof (cases "resumes r a")
    case False
    then have "ra_readers st1 r = Waiting s e \<or> ra_readers st1 r = Ready s e"
      using step_other_reader [OF step(1), of r] Cons.prems(2,4) by auto
    then obtain pre post where "acts = pre @ post"
      "mem_try_get_log_entries (fold log_effect pre (log_of st1)) (Included s) (Excluded e) = Some es"
      "s < e \<and> es = [] \<longrightarrow> recorded s e st'"
      using Cons.IH [OF step(2) once Cons.prems(3)] by auto
    then show ?thesis using step_log [OF step(1)]
      by (intro exI [of _ "a # pre"] exI [of _ post]) simp
  next
    case True
    then have "a = Resume r" by (cases a) auto
    then have "ra_readers st1 r = limited_read s e (ra_store st)" using step(1) Cons.prems(4) by auto
    from run_from_read [OF step(2) once Cons.prems(3) this] show ?thesis
      by (intro exI [of _ "[]"] exI [of _ "a # acts"]) simp
  qed
qed simp

section \<open>Properties\<close>

text \<open>The actions that remove an index: a truncation at or below it, a purge at or above it.\<close>

fun cuts :: "u64 \<Rightarrow> ('lid, 'm, 'vote) race_action \<Rightarrow> bool" where
  "cuts i (Truncate log_id) \<longleftrightarrow> li_index log_id \<le> i"
| "cuts i (Purge log_id) \<longleftrightarrow> i < li_index log_id + 1"
| "cuts i _ \<longleftrightarrow> False"

lemma append_keeps: "bt_get log i \<noteq> None \<Longrightarrow> bt_get (fold insert_entry es log) i \<noteq> None"
  by (induction es arbitrary: log) (auto simp: insert_entry_def bt_get_insert)

lemma uncut_stays:
  "bt_get (lo_log inner) i \<noteq> None \<Longrightarrow> \<forall>a \<in> set acts. \<not> cuts i a \<Longrightarrow>
     bt_get (lo_log (fold log_effect acts inner)) i \<noteq> None"
proof (induction acts arbitrary: inner)
  case (Cons a acts)
  have "bt_get (lo_log (log_effect a inner)) i \<noteq> None"
    using Cons.prems append_keeps [of "lo_log inner" i]
    by (cases a) (auto simp: mem_save_vote_def mem_append_def mem_truncate_def mem_purge_def bt_get_below bt_get_from)
  then show ?case using Cons by simp
qed simp

lemma range_empty:
  assumes "mem_try_get_log_entries inner (Included s) (Excluded e) = Some []" "s \<le> i" "i < e"
  shows "bt_get (lo_log inner) i = None"
proof (rule ccontr)
  assume "bt_get (lo_log inner) i \<noteq> None"
  then obtain entry where "(i, entry) \<in> set (bt_entries (lo_log inner))" by (auto simp: bt_get_iff)
  then show False using assms by (force simp: mem_try_get_log_entries_def log_range_def filter_empty_conv split: if_splits)
qed

text \<open>
  C36. A replication read is atomic, and an empty one has a cause.  However the core's writes, truncations
  and purges, the gate and other readers interleave with a read, the entries it returns are what
  the log held in its range at one moment between the call and the return.  If it returns nothing for a
  nonempty range it has been recorded, and for every index of the range that was in the log at the
  call a truncation at or below it or a purge reaching it took place while the read was under way.
\<close>

theorem replication_read_atomic:
  assumes run: "race_run (Start r s e # acts) st = Some st'"
    and once: "\<forall>a \<in> set acts. \<not> starts r a"
    and returned: "ra_readers st' r = Done s' e' es"
  shows "(\<exists>pre post. acts = pre @ post
        \<and> mem_try_get_log_entries (fold log_effect pre (log_of st)) (Included s) (Excluded e) = Some es)
    \<and> (s < e \<and> es = [] \<longrightarrow> recorded s e st'
        \<and> (\<forall>i. s \<le> i \<and> i < e \<and> bt_get (lo_log (log_of st)) i \<noteq> None \<longrightarrow> (\<exists>a \<in> set acts. cuts i a)))"
proof -
  obtain st1 where start: "race_step (Start r s e) st = Some st1" "race_run acts st1 = Some st'"
    using run by (auto split: option.splits)
  then have "ra_readers st1 r = Waiting s e \<or> ra_readers st1 r = Ready s e" "log_of st1 = log_of st"
    using step_log [OF start(1)] by (auto simp: limited_enter_def Let_def split: if_splits)
  then obtain pre post where read: "acts = pre @ post"
    "mem_try_get_log_entries (fold log_effect pre (log_of st)) (Included s) (Excluded e) = Some es"
    "s < e \<and> es = [] \<longrightarrow> recorded s e st'"
    using run_to_read [OF start(2) once returned] by metis
  have "\<exists>a \<in> set acts. cuts i a" if "es = []" "s \<le> i" "i < e" "bt_get (lo_log (log_of st)) i \<noteq> None" for i
    using range_empty [of "fold log_effect pre (log_of st)" s e i] uncut_stays [OF that(4), of pre] read(1,2) that by auto
  then show ?thesis using read by blast
qed

text \<open>
  The interleaving the gate makes deterministic: a leader appends an entry and an old replication stream
  is held at its read; a newer leader makes the node step down and truncate its tail; the gate
  opens.  The read returns nothing, and is recorded with the truncation counted.  That the
  engine answers the newer leader by this truncation is taken from the test.
\<close>

definition step_down ::
    "('lid, 'm) Entry list \<Rightarrow> nat \<Rightarrow> u64 \<Rightarrow> u64 \<Rightarrow> 'lid LogId \<Rightarrow> ('lid, 'm, 'vote) race_action list" where
  "step_down entries reader start end log_id =
     [Arm, Append entries, Start reader start end, Truncate log_id, Count, Release,
      Resume reader, Resume reader, Resume reader]"

lemma truncated_range_empty:
  assumes "li_index l \<le> s" "s < e"
  shows "mem_try_get_log_entries (mem_truncate l inner) (Included s) (Excluded e) = Some []"
proof -
  have "\<not> s \<le> i" if "(i, entry) \<in> set (bt_entries (bt_below (li_index l) (lo_log inner)))" for i entry
    using that assms(1) by (auto simp: bt_get_below simp flip: bt_get_iff split: if_splits)
  then show ?thesis using assms(2)
    by (force simp: mem_try_get_log_entries_def log_range_def mem_truncate_def filter_empty_conv)
qed

theorem step_down_empties_read:
  assumes "ra_core st = CoreIdle" "ra_readers st r = NotReading" "s < e" "li_index l \<le> s"
    and gate: "rg_release (gr_gate (ra_store st)) = False" "rg_waiting (gr_gate (ra_store st)) = []"
  shows "\<exists>st'. race_run (step_down es r s e l) st = Some st'
    \<and> ra_readers st' r = Done s e [] \<and> log_of st' = mem_truncate l (mem_append es (log_of st))
    \<and> rg_held_range (gr_gate (ra_store st')) = Some (s, e)
    \<and> rg_empty_reads (gr_gate (ra_store st')) = rg_empty_reads (gr_gate (ra_store st))
        @ [\<lparr>er_start = s, er_end = e, er_truncates_before = rg_truncates (gr_gate (ra_store st)) + 1,
            er_purges_before = rg_purges (gr_gate (ra_store st))\<rparr>]"
  using assms
  by (simp add: step_down_def gated_append_def limited_enter_def Let_def release_one_def cut_log_def count_truncate_def
      limited_read_def truncated_range_empty limited_record_def)

text \<open>
  The counters lag behind the log: when the read comes between the truncation and its count, the same
  empty read is recorded with no truncation before it.
\<close>

theorem empty_read_before_count:
  assumes "ra_core st = CoreIdle" "ra_readers st r = NotReading" "s < e" "li_index l \<le> s"
    and gate: "rg_armed (gr_gate (ra_store st)) = False"
  shows "\<exists>st'. race_run [Start r s e, Truncate l, Resume r, Resume r, Resume r, Count] st = Some st'
    \<and> ra_readers st' r = Done s e []
    \<and> er_truncates_before (last (rg_empty_reads (gr_gate (ra_store st')))) = rg_truncates (gr_gate (ra_store st))"
  using assms
  by (simp add: limited_enter_def Let_def cut_log_def count_truncate_def limited_read_def truncated_range_empty
      limited_record_def)

section \<open>Witnesses\<close>

text \<open>A log of three entries with the gate armed.\<close>

definition demo_race :: "(nat, nat, nat) race" where
  "demo_race = \<lparr>ra_store = \<lparr>gr_inner = mem_append [demo_log_entry 1 1, demo_log_entry 1 2, demo_log_entry 1 3]
       LogStoreInner_default, gr_gate = ReadGate_default\<lparr>rg_armed := True\<rparr>\<rparr>,
     ra_core = CoreIdle, ra_readers = (\<lambda>r. NotReading)\<rparr>"

definition demo_cut :: "(nat, nat, nat) race_action list" where
  "demo_cut = [Truncate \<lparr>li_leader_id = 2, li_index = 2\<rparr>, Count, Release, Resume 0, Resume 0, Resume 0]"

theorem replication_read_atomic_witness:
  "\<exists>st'. race_run (Start 0 2 4 # demo_cut) demo_race = Some st' \<and> ra_readers st' 0 = Done 2 4 []
     \<and> recorded 2 4 st' \<and> (\<exists>a \<in> set demo_cut. cuts 3 a)"
proof -
  have cut: "mem_try_get_log_entries (mem_truncate \<lparr>li_leader_id = 2, li_index = 2\<rparr> (log_of demo_race)) (Included 2) (Excluded 4)
      = Some []" by (rule truncated_range_empty) simp_all
  obtain st' where run: "race_run (Start 0 2 4 # demo_cut) demo_race = Some st'" "ra_readers st' 0 = Done 2 4 []"
    using cut by (simp add: demo_race_def demo_cut_def ReadGate_default_def limited_enter_def Let_def release_one_def
        cut_log_def count_truncate_def limited_read_def)
  have once: "\<forall>a \<in> set demo_cut. \<not> starts 0 a" by (simp add: demo_cut_def)
  have "bt_get (lo_log (log_of demo_race)) 3 \<noteq> None"
    by (simp add: demo_race_def mem_append_def insert_entry_def demo_log_entry_def bt_get_insert)
  then show ?thesis using replication_read_atomic [OF run(1) once run(2)] run by auto
qed

end
