(* ===== verification/Peer_Health.thy ===== *)
theory Peer_Health
  imports Ordered_Map
begin

text \<open>
  The transport observations of \<^verbatim>\<open>openraft_runtime/peer_health.rs\<close>: which I/O errors count as an
  explicit loss of the peer, the bounded table of failing peers, and the flag that asks idle
  connections to be watched.

  \<^verbatim>\<open>std::time::Instant\<close> is a natural number.  The table lives in a \<^verbatim>\<open>tokio::sync::watch\<close> channel
  that is only written through \<^verbatim>\<open>send_if_modified\<close>: the stored value changes in place and the
  version receivers wait for moves exactly when the closure returns true.
\<close>

section \<open>I/O errors\<close>

text \<open>The kinds the sources name; every other kind is \<open>OtherKind\<close> with its name.\<close>

datatype ErrorKind =
    ConnectionRefused | ConnectionReset | ConnectionAborted | BrokenPipe | UnexpectedEof
  | TimedOut | InvalidData | AddrInUse | OtherKind string

record io_error =
  ie_kind :: ErrorKind
  ie_message :: string

definition io_error_new :: "ErrorKind \<Rightarrow> string \<Rightarrow> io_error" where
  "io_error_new kind message = \<lparr>ie_kind = kind, ie_message = message\<rparr>"

section \<open>The table of failing peers\<close>

record PeerTransportFailure =
  pf_since :: nat
  pf_latest :: nat
  pf_attempts :: u64
  pf_kind :: ErrorKind

record PeerHealth =
  ph_failures :: "(u64, PeerTransportFailure) btree"
  ph_version :: nat
  ph_monitor_idle :: bool

definition PeerHealth_default :: PeerHealth where
  "PeerHealth_default = \<lparr>ph_failures = bt_empty, ph_version = 0, ph_monitor_idle = False\<rparr>"

definition set_monitor_idle :: "bool \<Rightarrow> PeerHealth \<Rightarrow> PeerHealth" where
  "set_monitor_idle enabled self = self\<lparr>ph_monitor_idle := enabled\<rparr>"

definition monitor_idle :: "PeerHealth \<Rightarrow> bool" where
  "monitor_idle self = ph_monitor_idle self"

definition explicit_failure :: "ErrorKind \<Rightarrow> bool" where
  "explicit_failure kind \<longleftrightarrow>
     (case kind of
        ConnectionRefused \<Rightarrow> True
      | ConnectionReset \<Rightarrow> True
      | ConnectionAborted \<Rightarrow> True
      | BrokenPipe \<Rightarrow> True
      | UnexpectedEof \<Rightarrow> True
      | _ \<Rightarrow> False)"

definition health_subscribe :: "PeerHealth \<Rightarrow> (u64, PeerTransportFailure) btree" where
  "health_subscribe self = ph_failures self"

definition max_observed_peers :: nat where
  "max_observed_peers = 256"

text \<open>The closure given to \<^verbatim>\<open>send_if_modified\<close>: the new table and whether it changed.\<close>

definition record_failures ::
    "u64 \<Rightarrow> ErrorKind option \<Rightarrow> nat \<Rightarrow> (u64, PeerTransportFailure) btree \<Rightarrow>
     (u64, PeerTransportFailure) btree \<times> bool" where
  "record_failures peer kind now failures =
     (case kind of
        None \<Rightarrow> (bt_remove peer failures, bt_get failures peer \<noteq> None)
      | Some kind \<Rightarrow>
          if \<not> bt_contains_key failures peer \<and> max_observed_peers \<le> bt_len failures
          then (failures, False)
          else
            let failure =
              (case bt_get failures peer of
                 Some failure \<Rightarrow> failure
               | None \<Rightarrow> \<lparr>pf_since = now, pf_latest = now, pf_attempts = 0, pf_kind = kind\<rparr>)
            in (bt_insert peer
                  (failure\<lparr>pf_latest := now, pf_attempts := u64_saturating_add1 (pf_attempts failure),
                           pf_kind := kind\<rparr>) failures,
                True))"

definition health_record :: "u64 \<Rightarrow> ErrorKind option \<Rightarrow> nat \<Rightarrow> PeerHealth \<Rightarrow> PeerHealth" where
  "health_record peer kind now self =
     (case record_failures peer kind now (ph_failures self) of
        (failures, modified) \<Rightarrow>
          self\<lparr>ph_failures := failures,
               ph_version := (if modified then ph_version self + 1 else ph_version self)\<rparr>)"

definition observe :: "u64 \<Rightarrow> (io_error, 'a) result \<Rightarrow> nat \<Rightarrow> PeerHealth \<Rightarrow> PeerHealth" where
  "observe peer outcome now self =
     (case outcome of
        Inr _ \<Rightarrow> health_record peer None now self
      | Inl error \<Rightarrow>
          if explicit_failure (ie_kind error)
          then health_record peer (Some (ie_kind error)) now self
          else self)"

section \<open>Histories of observations\<close>

type_synonym observation = "u64 \<times> (io_error, unit) result \<times> nat"

definition observe_all :: "observation list \<Rightarrow> PeerHealth" where
  "observe_all obs = fold (\<lambda>(peer, outcome, now). observe peer outcome now) obs PeerHealth_default"

text \<open>The kinds that count: the connection was refused, reset, aborted, broken or closed.\<close>

definition loss_kinds :: "ErrorKind set" where
  "loss_kinds = {ConnectionRefused, ConnectionReset, ConnectionAborted, BrokenPipe, UnexpectedEof}"

lemma explicit_failure_kinds: "explicit_failure kind \<longleftrightarrow> kind \<in> loss_kinds"
  by (cases kind) (simp_all add: explicit_failure_def loss_kinds_def)

text \<open>The explicit failures of a peer since its last success, oldest first.\<close>

fun streak_step :: "u64 \<Rightarrow> observation \<Rightarrow> (nat \<times> ErrorKind) list \<Rightarrow> (nat \<times> ErrorKind) list" where
  "streak_step peer (p, outcome, now) fs =
     (if p \<noteq> peer then fs
      else case outcome of
        Inr _ \<Rightarrow> []
      | Inl error \<Rightarrow> if ie_kind error \<in> loss_kinds then fs @ [(now, ie_kind error)] else fs)"

definition streak :: "u64 \<Rightarrow> observation list \<Rightarrow> (nat \<times> ErrorKind) list" where
  "streak peer obs = fold (streak_step peer) obs []"

definition u64_of_nat_saturating :: "nat \<Rightarrow> u64" where
  "u64_of_nat_saturating n = (if 2 ^ 64 \<le> n then u64_max else of_nat n)"

definition streak_summary :: "(nat \<times> ErrorKind) list \<Rightarrow> PeerTransportFailure option" where
  "streak_summary fs =
     (if fs = [] then None
      else Some \<lparr>pf_since = fst (hd fs), pf_latest = fst (last fs),
                 pf_attempts = u64_of_nat_saturating (length fs), pf_kind = snd (last fs)\<rparr>)"

lemma saturating_Suc:
  "u64_saturating_add1 (u64_of_nat_saturating n) = u64_of_nat_saturating (Suc n)"
proof (cases "2 ^ 64 \<le> n")
  case False
  then have n: "unat (of_nat n :: u64) = n" by (simp add: unsigned_of_nat take_bit_nat_eq_self)
  have max: "(of_nat n :: u64) = u64_max \<longleftrightarrow> Suc n = 2 ^ 64"
  proof -
    have "(of_nat n :: u64) \<noteq> u64_max \<longleftrightarrow> n + 1 < 2 ^ 64" unfolding u64_max_unat n ..
    then show ?thesis using False by auto
  qed
  show ?thesis using False max by (auto simp: u64_of_nat_saturating_def u64_saturating_add1_def)
qed (simp add: u64_of_nat_saturating_def u64_saturating_add1_def)

lemma observe_other: "p \<noteq> peer \<Longrightarrow> bt_get (ph_failures (observe p out now h)) peer = bt_get (ph_failures h) peer"
  by (simp add: observe_def health_record_def record_failures_def bt_get_remove Let_def split: sum.split)

lemma streak_summary_snoc:
  "streak_summary (fs @ [(now, kind)]) =
     (let failure = (case streak_summary fs of
          Some failure \<Rightarrow> failure
        | None \<Rightarrow> \<lparr>pf_since = now, pf_latest = now, pf_attempts = 0, pf_kind = kind\<rparr>)
      in Some (failure\<lparr>pf_latest := now, pf_attempts := u64_saturating_add1 (pf_attempts failure),
                       pf_kind := kind\<rparr>))"
proof (cases "fs = []")
  case True
  have "u64_saturating_add1 0 = u64_of_nat_saturating 1"
    using saturating_Suc [of 0] by (simp add: u64_of_nat_saturating_def)
  then show ?thesis using True by (simp add: streak_summary_def)
next
  case False
  then show ?thesis by (simp add: streak_summary_def saturating_Suc)
qed

lemma observe_same:
  assumes "bt_get (ph_failures h) peer = streak_summary fs"
    and "bt_contains_key (ph_failures h) peer \<or> bt_len (ph_failures h) < max_observed_peers"
  shows "bt_get (ph_failures (observe peer out now h)) peer = streak_summary (streak_step peer (peer, out, now) fs)"
proof (cases out)
  case (Inl error)
  then show ?thesis using assms
    by (cases "explicit_failure (ie_kind error)")
      (auto simp: explicit_failure_kinds observe_def health_record_def record_failures_def Let_def streak_summary_snoc)
next
  case (Inr x)
  then show ?thesis
    by (simp add: observe_def health_record_def record_failures_def bt_get_remove streak_summary_def)
qed

lemma observe_keys: "set (bt_keys (ph_failures (observe p out now h))) \<subseteq> insert p (set (bt_keys (ph_failures h)))"
  using observe_other [of p _ out now h] by (force simp: set_bt_keys)

lemma observe_len:
  "bt_len (ph_failures h) \<le> max_observed_peers \<Longrightarrow> bt_len (ph_failures (observe p out now h)) \<le> max_observed_peers"
proof -
  assume len: "bt_len (ph_failures h) \<le> max_observed_peers"
  have "bt_len (bt_remove p m) \<le> bt_len m" for m :: "(u64, PeerTransportFailure) btree"
  proof -
    have "set (bt_keys (bt_remove p m)) \<subseteq> set (bt_keys m)" by (auto simp: set_bt_keys bt_get_remove)
    then have "card (set (bt_keys (bt_remove p m))) \<le> card (set (bt_keys m))" by (intro card_mono) auto
    then show ?thesis by (simp add: distinct_card)
  qed
  then have "bt_len (bt_remove p (ph_failures h)) \<le> max_observed_peers" using len order_trans by blast
  then show ?thesis using len
    by (auto simp: observe_def health_record_def record_failures_def Let_def bt_len_insert
        bt_contains_key_def split: sum.split option.splits)
qed

lemma observe_all_snoc: "observe_all (obs @ [(p, out, now)]) = observe p out now (observe_all obs)"
  by (simp add: observe_all_def)

lemma streak_snoc: "streak peer (obs @ [ob]) = streak_step peer ob (streak peer obs)"
  by (simp add: streak_def)

lemma observe_all_keys: "set (bt_keys (ph_failures (observe_all obs))) \<subseteq> fst ` set obs"
proof (induction obs rule: rev_induct)
  case Nil
  then show ?case by (simp add: observe_all_def PeerHealth_default_def)
next
  case (snoc ob obs)
  obtain p out now where ob: "ob = (p, out, now)" by (cases ob)
  show ?case using snoc observe_keys [of p out now "observe_all obs"] by (auto simp: ob observe_all_snoc)
qed

lemma observe_all_bounded: "bt_len (ph_failures (observe_all obs)) \<le> max_observed_peers"
proof (induction obs rule: rev_induct)
  case Nil
  then show ?case by (simp add: observe_all_def PeerHealth_default_def bt_len_def)
next
  case (snoc ob obs)
  then show ?case by (cases ob) (simp add: observe_all_snoc observe_len)
qed

section \<open>Properties\<close>

text \<open>
  C38. The table is an exact summary of the recent failures while few enough peers are observed:
  over any history that names at most 256 peers, a peer is listed exactly when it had an
  explicit failure (refused, reset, aborted, broken pipe or unexpected end) since its last successful call, with the time of the first and of the last of
  those failures, their number (saturating at the 64-bit maximum) and the last one's kind.
  Timeouts and protocol errors leave no trace.
\<close>

theorem health_summarises_streaks:
  assumes "card (fst ` set obs) \<le> max_observed_peers"
  shows "bt_get (ph_failures (observe_all obs)) peer = streak_summary (streak peer obs)"
  using assms
proof (induction obs rule: rev_induct)
  case Nil
  then show ?case by (simp add: observe_all_def PeerHealth_default_def streak_def streak_summary_def)
next
  case (snoc ob obs)
  obtain p out now where ob: "ob = (p, out, now)" by (cases ob)
  let ?h = "observe_all obs"
  have "card (fst ` set obs) \<le> card (insert p (fst ` set obs))" by (simp add: card_insert_le)
  then have IH: "bt_get (ph_failures ?h) peer = streak_summary (streak peer obs)"
    using snoc ob by simp
  show ?case
  proof (cases "p = peer")
    case True
    have "bt_contains_key (ph_failures ?h) peer \<or> bt_len (ph_failures ?h) < max_observed_peers"
    proof (cases "peer \<in> set (bt_keys (ph_failures ?h))")
      case False
      have "insert peer (set (bt_keys (ph_failures ?h))) \<subseteq> insert peer (fst ` set obs)"
        using observe_all_keys [of obs] by blast
      then have "card (insert peer (set (bt_keys (ph_failures ?h)))) \<le> card (insert peer (fst ` set obs))"
        by (intro card_mono) auto
      also have "\<dots> \<le> max_observed_peers" using snoc.prems ob True by simp
      finally show ?thesis using False by (simp add: distinct_card)
    qed (simp add: bt_contains_key_iff)
    from observe_same [OF IH this, of out now] show ?thesis
      using True by (simp only: ob observe_all_snoc streak_snoc)
  next
    case False
    then show ?thesis using IH by (simp add: ob observe_all_snoc streak_snoc observe_other)
  qed
qed

text \<open>
  The table stays bounded whatever is observed: never more than 256 peers are listed, and a
  peer that is already listed is still updated when the table is full.
\<close>

theorem health_bounded:
  "bt_len (ph_failures (observe_all obs)) \<le> 256
   \<and> (case bt_get (ph_failures (observe_all obs)) peer of
        None \<Rightarrow> True
      | Some f \<Rightarrow>
          map_option pf_kind (bt_get (ph_failures (observe peer
            (Inl (io_error_new kind message) :: (io_error, unit) result) now (observe_all obs))) peer)
          = Some (if explicit_failure kind then kind else pf_kind f))"
  using observe_all_bounded [of obs]
  by (auto simp: max_observed_peers_def observe_def health_record_def record_failures_def io_error_new_def
      bt_contains_key_def Let_def split: option.split)

definition demo_observations :: "observation list" where
  "demo_observations = [(7, Inl (io_error_new ConnectionReset ''reset''), 3), (7, Inr (), 4),
     (7, Inl (io_error_new ConnectionRefused ''refused''), 5), (7, Inl (io_error_new TimedOut ''slow''), 6),
     (7, Inl (io_error_new BrokenPipe ''pipe''), 9)]"

theorem health_summarises_streaks_witness:
  "bt_get (ph_failures (observe_all demo_observations)) 7 =
     Some \<lparr>pf_since = 5, pf_latest = 9, pf_attempts = 2, pf_kind = BrokenPipe\<rparr>"
proof -
  have "card (fst ` set demo_observations) \<le> max_observed_peers"
    by (simp add: demo_observations_def max_observed_peers_def)
  moreover have "streak_summary (streak 7 demo_observations) =
      Some \<lparr>pf_since = 5, pf_latest = 9, pf_attempts = 2, pf_kind = BrokenPipe\<rparr>"
    by code_simp
  ultimately show ?thesis by (simp only: health_summarises_streaks)
qed

end
