(* ===== verification/Wire_Frames.thy ===== *)
theory Wire_Frames
  imports Peer_Health
begin

text \<open>
  The framing of \<^verbatim>\<open>openraft_runtime/tcp.rs\<close>: the two body encodings and their tags, and the
  writer and reader of a frame (one tag byte, the body's length as four big-endian bytes, the
  body).

  A stream is what the peer will still send, how the stream ends after that (closed, or an
  error), what has been written to it, and the point where writing starts to fail.  The two
  serialization libraries are the fields of the codec argument.
\<close>

section \<open>Streams\<close>

record duplex =
  du_input :: string
  du_end :: "io_error option"
  du_output :: string
  du_write_fault :: "(nat \<times> io_error) option"
  du_flush_fault :: "io_error option"

definition read_exact :: "nat \<Rightarrow> duplex \<Rightarrow> duplex \<times> (io_error, string) result" where
  "read_exact n s =
     (if n \<le> length (du_input s) then (s\<lparr>du_input := drop n (du_input s)\<rparr>, Inr (take n (du_input s)))
      else (s\<lparr>du_input := []\<rparr>,
            Inl (case du_end s of Some e \<Rightarrow> e | None \<Rightarrow> io_error_new UnexpectedEof ''early eof'')))"

definition write_all :: "string \<Rightarrow> duplex \<Rightarrow> duplex \<times> (io_error, unit) result" where
  "write_all bs s =
     (case du_write_fault s of
        None \<Rightarrow> (s\<lparr>du_output := du_output s @ bs\<rparr>, Inr ())
      | Some (n, e) \<Rightarrow>
          if length bs \<le> n
          then (s\<lparr>du_output := du_output s @ bs, du_write_fault := Some (n - length bs, e)\<rparr>, Inr ())
          else (s\<lparr>du_output := du_output s @ take n bs, du_write_fault := Some (0, e)\<rparr>, Inl e))"

definition flush :: "duplex \<Rightarrow> duplex \<times> (io_error, unit) result" where
  "flush s = (s, case du_flush_fault s of None \<Rightarrow> Inr () | Some e \<Rightarrow> Inl e)"

text \<open>Two steps in sequence, the second only after the first succeeded.\<close>

definition then_io ::
    "duplex \<times> (io_error, 'a) result \<Rightarrow> ('a \<Rightarrow> duplex \<Rightarrow> duplex \<times> (io_error, 'b) result) \<Rightarrow>
     duplex \<times> (io_error, 'b) result" where
  "then_io r f = (case r of (s, Inl e) \<Rightarrow> (s, Inl e) | (s, Inr x) \<Rightarrow> f x s)"

lemma then_io_simps [simp]:
  "then_io (s, Inl e) f = (s, Inl e)" "then_io (s, Inr x) f = f x s"
  by (simp_all add: then_io_def)

section \<open>Body encodings\<close>

datatype WireFormat = MessagePack | Json

definition WireFormat_default :: WireFormat where
  "WireFormat_default = MessagePack"

datatype WireFormatParseError = UnknownFormat string

definition display_WireFormatParseError :: "WireFormatParseError \<Rightarrow> string" where
  "display_WireFormatParseError self =
     (case self of UnknownFormat raw \<Rightarrow> ''unknown wire format `'' @ raw @ ''` (expected msgpack or json)'')"

definition wire_from_str :: "string \<Rightarrow> (WireFormatParseError, WireFormat) result" where
  "wire_from_str raw =
     (if raw = ''msgpack'' \<or> raw = ''messagepack'' then Inr MessagePack
      else if raw = ''json'' then Inr Json
      else Inl (UnknownFormat raw))"

definition TAG_MSGPACK :: char where
  "TAG_MSGPACK = CHR 0x01"

definition TAG_JSON :: char where
  "TAG_JSON = CHR 0x02"

definition wire_tag :: "WireFormat \<Rightarrow> char" where
  "wire_tag self = (case self of MessagePack \<Rightarrow> TAG_MSGPACK | Json \<Rightarrow> TAG_JSON)"

text \<open>The format \<^verbatim>\<open>{:#04x}\<close> of a byte.\<close>

definition hex_digit :: "nat \<Rightarrow> char" where
  "hex_digit d = (if d < 10 then char_of (48 + d) else char_of (87 + d))"

definition show_hex_byte :: "char \<Rightarrow> string" where
  "show_hex_byte c = ''0x'' @ [hex_digit (of_char c div 16), hex_digit (of_char c mod 16)]"

definition from_tag :: "char \<Rightarrow> (io_error, WireFormat) result" where
  "from_tag tag =
     (if tag = TAG_MSGPACK then Inr MessagePack
      else if tag = TAG_JSON then Inr Json
      else Inl (io_error_new InvalidData (''unknown wire format tag '' @ show_hex_byte tag)))"

record 'a wire_codec =
  wf_msgpack_encode :: "'a \<Rightarrow> (string, string) result"
  wf_msgpack_decode :: "string \<Rightarrow> (string, 'a) result"
  wf_json_encode :: "'a \<Rightarrow> (string, string) result"
  wf_json_decode :: "string \<Rightarrow> (string, 'a) result"

definition wire_encode :: "'a wire_codec \<Rightarrow> WireFormat \<Rightarrow> 'a \<Rightarrow> (io_error, string) result" where
  "wire_encode codec self x =
     (case (case self of MessagePack \<Rightarrow> wf_msgpack_encode codec x | Json \<Rightarrow> wf_json_encode codec x) of
        Inl error \<Rightarrow> Inl (io_error_new InvalidData error)
      | Inr bytes \<Rightarrow> Inr bytes)"

definition wire_decode :: "'a wire_codec \<Rightarrow> WireFormat \<Rightarrow> string \<Rightarrow> (io_error, 'a) result" where
  "wire_decode codec self bytes =
     (case (case self of MessagePack \<Rightarrow> wf_msgpack_decode codec bytes | Json \<Rightarrow> wf_json_decode codec bytes) of
        Inl error \<Rightarrow> Inl (io_error_new InvalidData error)
      | Inr x \<Rightarrow> Inr x)"

section \<open>Frames\<close>

definition MAX_FRAME_BYTES :: u32 where
  "MAX_FRAME_BYTES = 64 * 1024 * 1024"

definition to_be_bytes :: "u32 \<Rightarrow> string" where
  "to_be_bytes w = map (\<lambda>k. char_of (unat w div 256 ^ k)) [3, 2, 1, 0]"

definition from_be_bytes :: "string \<Rightarrow> u32" where
  "from_be_bytes bs = of_nat (foldl (\<lambda>acc b. acc * 256 + of_char b) 0 bs)"

definition frame_too_large :: io_error where
  "frame_too_large = io_error_new InvalidData ''frame too large''"

definition write_frame ::
    "'a wire_codec \<Rightarrow> WireFormat \<Rightarrow> 'a \<Rightarrow> duplex \<Rightarrow> duplex \<times> (io_error, unit) result" where
  "write_frame codec format x s =
     (case wire_encode codec format x of
        Inl e \<Rightarrow> (s, Inl e)
      | Inr body \<Rightarrow>
          if 2 ^ 32 \<le> length body then (s, Inl frame_too_large)
          else
            let len = of_nat (length body) :: u32 in
            if MAX_FRAME_BYTES < len then (s, Inl frame_too_large)
            else then_io (write_all [wire_tag format] s)
                   (\<lambda>_ s. then_io (write_all (to_be_bytes len) s)
                     (\<lambda>_ s. then_io (write_all body s) (\<lambda>_ s. flush s))))"

definition read_frame :: "'a wire_codec \<Rightarrow> duplex \<Rightarrow> duplex \<times> (io_error, 'a) result" where
  "read_frame codec s =
     then_io (read_exact 1 s)
       (\<lambda>tag s. case from_tag (hd tag) of
          Inl e \<Rightarrow> (s, Inl e)
        | Inr format \<Rightarrow>
            then_io (read_exact 4 s)
              (\<lambda>bytes s. let len = from_be_bytes bytes in
                 if MAX_FRAME_BYTES < len then (s, Inl frame_too_large)
                 else then_io (read_exact (unat len) s) (\<lambda>body s. (s, wire_decode codec format body))))"

section \<open>Laws\<close>

definition wire_codec_ok :: "'a wire_codec \<Rightarrow> bool" where
  "wire_codec_ok codec \<longleftrightarrow>
     (\<forall>x b. wf_msgpack_encode codec x = Inr b \<longrightarrow> wf_msgpack_decode codec b = Inr x)
     \<and> (\<forall>x b. wf_json_encode codec x = Inr b \<longrightarrow> wf_json_decode codec b = Inr x)"

lemma wire_decode_encode:
  "wire_codec_ok codec \<Longrightarrow> wire_encode codec format x = Inr b \<Longrightarrow> wire_decode codec format b = Inr x"
  by (auto simp: wire_codec_ok_def wire_encode_def wire_decode_def split: WireFormat.splits sum.splits)

lemma from_tag_tag [simp]: "from_tag (wire_tag format) = Inr format"
  by (cases format) (simp_all add: from_tag_def wire_tag_def TAG_MSGPACK_def TAG_JSON_def)

lemma length_be [simp]: "length (to_be_bytes w) = 4"
  by (simp add: to_be_bytes_def)

lemma from_to_be [simp]: "from_be_bytes (to_be_bytes w) = w"
proof -
  define n where "n = unat w"
  have "unat w < 2 ^ 32" using unsigned_less [of w] by simp
  then have top: "n div 256 div 256 div 256 < 256" by (simp add: n_def)
  have pow: "n div 256 ^ 3 = n div 256 div 256 div 256" "n div 256 ^ 2 = n div 256 div 256"
    by (simp_all add: div_mult2_eq [symmetric])
  have "foldl (\<lambda>acc b. acc * 256 + of_char b) 0 (to_be_bytes w)
      = ((n div 256 div 256 div 256 mod 256 * 256 + n div 256 div 256 mod 256) * 256 + n div 256 mod 256) * 256
        + n mod 256"
    by (simp only: to_be_bytes_def n_def [symmetric] list.map foldl.simps pow) simp
  also have "\<dots> = n"
    using top by (simp add: div_mult_mod_eq mult.commute)
  finally show ?thesis by (simp add: from_be_bytes_def n_def)
qed

lemma max_frame_unat: "unat MAX_FRAME_BYTES = 67108864"
  by (simp add: MAX_FRAME_BYTES_def)

lemma len_unat: "n < 2 ^ 32 \<Longrightarrow> unat (of_nat n :: u32) = n"
  by (simp add: unsigned_of_nat take_bit_nat_eq_self)

text \<open>The bytes of a frame.\<close>

definition frame_bytes :: "WireFormat \<Rightarrow> string \<Rightarrow> string" where
  "frame_bytes format body = wire_tag format # to_be_bytes (of_nat (length body)) @ body"

definition fits_frame :: "string \<Rightarrow> bool" where
  "fits_frame body \<longleftrightarrow> length body \<le> 67108864"

lemma fits_frame_iff: "fits_frame body \<longleftrightarrow> length body < 2 ^ 32 \<and> \<not> MAX_FRAME_BYTES < (of_nat (length body) :: u32)"
proof (cases "length body < 2 ^ 32")
  case True
  then show ?thesis by (simp add: fits_frame_def word_less_nat_alt len_unat [OF True] max_frame_unat not_less)
qed (simp add: fits_frame_def)

lemma write_frame_healthy:
  assumes "wire_encode codec format x = Inr body" "du_write_fault s = None" "du_flush_fault s = None"
  shows "write_frame codec format x s =
    (if fits_frame body then (s\<lparr>du_output := du_output s @ frame_bytes format body\<rparr>, Inr ())
     else (s, Inl frame_too_large))"
  using assms fits_frame_iff [of body]
  by (auto simp: write_frame_def write_all_def flush_def frame_bytes_def Let_def)

lemma read_exact_append:
  "du_input s = xs @ ys \<Longrightarrow> length xs = n \<Longrightarrow> read_exact n s = (s\<lparr>du_input := ys\<rparr>, Inr xs)"
  by (auto simp: read_exact_def)

lemma read_frame_bytes:
  assumes "fits_frame body" "du_input s = frame_bytes format body @ rest"
  shows "read_frame codec s = (s\<lparr>du_input := rest\<rparr>, wire_decode codec format body)"
proof -
  let ?l = "of_nat (length body) :: u32"
  have l: "length body < 2 ^ 32" "\<not> MAX_FRAME_BYTES < ?l" using assms(1) fits_frame_iff by auto
  have 1: "read_exact 1 s = (s\<lparr>du_input := to_be_bytes ?l @ body @ rest\<rparr>, Inr [wire_tag format])"
    by (rule read_exact_append) (simp_all add: assms(2) frame_bytes_def)
  have 2: "read_exact 4 (s\<lparr>du_input := to_be_bytes ?l @ body @ rest\<rparr>)
      = (s\<lparr>du_input := body @ rest\<rparr>, Inr (to_be_bytes ?l))"
    using read_exact_append [of "s\<lparr>du_input := to_be_bytes ?l @ body @ rest\<rparr>" "to_be_bytes ?l"] by simp
  have 3: "read_exact (unat ?l) (s\<lparr>du_input := body @ rest\<rparr>) = (s\<lparr>du_input := rest\<rparr>, Inr body)"
    using read_exact_append [of "s\<lparr>du_input := body @ rest\<rparr>" body] by (simp add: len_unat [OF l(1)])
  show ?thesis using l(2) by (simp add: read_frame_def 1 [unfolded One_nat_def] 2 3 Let_def)
qed

lemma read_exact_length:
  "read_exact n s = (s', Inr bs) \<Longrightarrow> length (du_input s) = n + length (du_input s') \<and> length bs = n"
  by (auto simp: read_exact_def split: if_splits)

text \<open>A frame that was read took at least its header off the input.\<close>

lemma read_frame_consumes:
  "read_frame codec s = (s', Inr x) \<Longrightarrow> length (du_input s') + 5 \<le> length (du_input s)"
  by (auto simp: read_frame_def then_io_def Let_def split: prod.splits sum.splits if_splits
      dest!: read_exact_length)

lemma read_exact_keeps:
  assumes "read_exact n s = (s', r)"
  shows "du_end s' = du_end s \<and> du_output s' = du_output s \<and> du_write_fault s' = du_write_fault s
    \<and> du_flush_fault s' = du_flush_fault s"
  using assms by (auto simp: read_exact_def split: if_splits)

lemma read_frame_keeps:
  assumes "read_frame codec s = (s', r)"
  shows "du_end s' = du_end s \<and> du_output s' = du_output s \<and> du_write_fault s' = du_write_fault s
    \<and> du_flush_fault s' = du_flush_fault s"
  using assms by (auto simp: read_frame_def then_io_def Let_def split: prod.splits sum.splits if_splits
      dest!: read_exact_keeps)

section \<open>Properties\<close>

text \<open>
  C32. Frames survive the wire in either encoding: what a writer with one format appends to a healthy
  stream is read back by any receiver as exactly the value sent, with the bytes after the frame
  left for the next read; the tag alone tells the receiver which encoding was used.
\<close>

theorem frame_roundtrip:
  assumes codec: "wire_codec_ok codec" and body: "wire_encode codec format x = Inr body"
    and small: "fits_frame body"
    and healthy: "du_write_fault s = None" "du_flush_fault s = None"
    and input: "du_input r = drop (length (du_output s)) (du_output (fst (write_frame codec format x s))) @ rest"
  shows "snd (write_frame codec format x s) = Inr ()
    \<and> read_frame codec r = (r\<lparr>du_input := rest\<rparr>, Inr x)"
proof -
  note w = write_frame_healthy [OF body healthy]
  have "du_input r = frame_bytes format body @ rest" using input small by (simp add: w)
  then show ?thesis
    using read_frame_bytes [OF small, of r format rest codec] wire_decode_encode [OF codec body] small
    by (simp add: w)
qed

text \<open>What a read takes off the front of the input, whether it succeeds or not.\<close>

definition takes_at_most :: "nat \<Rightarrow> duplex \<Rightarrow> duplex \<Rightarrow> bool" where
  "takes_at_most n s s' \<longleftrightarrow> (\<exists>taken. du_input s = taken @ du_input s' \<and> length taken \<le> n)"

lemma read_exact_takes: "read_exact n s = (s', r) \<Longrightarrow> takes_at_most n s s'"
proof -
  assume "read_exact n s = (s', r)"
  then show ?thesis
    by (auto simp: read_exact_def takes_at_most_def split: if_splits intro: exI [of _ "take n (du_input s)"])
qed

lemma takes_trans: "takes_at_most m s t \<Longrightarrow> takes_at_most n t u \<Longrightarrow> takes_at_most (m + n) s u"
  unfolding takes_at_most_def by (metis add_mono append.assoc length_append)

lemma takes_mono: "takes_at_most m s t \<Longrightarrow> m \<le> n \<Longrightarrow> takes_at_most n s t"
  unfolding takes_at_most_def by (meson le_trans)

lemma read_frame_takes:
  assumes "read_frame codec s = (s', r)"
  shows "takes_at_most (5 + 67108864) s s'"
proof -
  obtain s1 tag where 1: "read_exact 1 s = (s1, tag)" by force
  obtain s2 bytes where 2: "read_exact 4 s1 = (s2, bytes)" by force
  obtain s3 body where 3: "read_exact (unat (from_be_bytes (projr bytes))) s2 = (s3, body)" by force
  note take = read_exact_takes [OF 1] takes_trans [OF read_exact_takes [OF 1] read_exact_takes [OF 2]]
  note all = takes_trans [OF take(2) read_exact_takes [OF 3]]
  have "s' = s1 \<or> s' = s2 \<or> s' = s3 \<and> \<not> MAX_FRAME_BYTES < from_be_bytes (projr bytes)"
    using assms 1 2 3 by (auto simp: read_frame_def then_io_def Let_def split: sum.splits if_splits prod.splits)
  moreover have "unat len \<le> 67108864" if "\<not> MAX_FRAME_BYTES < len" for len
    using that by (simp add: word_less_nat_alt max_frame_unat not_less)
  ultimately show ?thesis using takes_mono [OF take(1)] takes_mono [OF take(2)] takes_mono [OF all] by auto
qed

text \<open>
  C33. A frame's size is bounded on both sides.  A body above 64 MiB is refused before a byte is
  written; a header that declares more is refused before any of the body is read; and every read,
  whatever the peer sends and whether it succeeds or fails, takes a front part of the input of at
  most the header's five bytes and 64 MiB, and leaves the rest as it was.
\<close>

theorem frame_size_bounded:
  "(case wire_encode codec format x of
      Inl e \<Rightarrow> write_frame codec format x s = (s, Inl e)
    | Inr body \<Rightarrow> if length body \<le> 64 * 1024 * 1024 then True
                    else write_frame codec format x s = (s, Inl frame_too_large))
   \<and> (\<exists>taken. du_input s = taken @ du_input (fst (read_frame codec s)) \<and> length taken \<le> 5 + 64 * 1024 * 1024)
   \<and> (if MAX_FRAME_BYTES < len
      then read_frame codec (s\<lparr>du_input := wire_tag format # to_be_bytes len @ junk\<rparr>)
         = (s\<lparr>du_input := junk\<rparr>, Inl frame_too_large)
      else True)"
proof (intro conjI)
  show "case wire_encode codec format x of
      Inl e \<Rightarrow> write_frame codec format x s = (s, Inl e)
    | Inr body \<Rightarrow> if length body \<le> 64 * 1024 * 1024 then True
                    else write_frame codec format x s = (s, Inl frame_too_large)"
    using fits_frame_iff by (auto simp: write_frame_def fits_frame_def Let_def split: sum.split)
  have "takes_at_most (5 + 67108864) s (fst (read_frame codec s))" by (rule read_frame_takes [OF prod.collapse [symmetric]])
  then show "\<exists>taken. du_input s = taken @ du_input (fst (read_frame codec s)) \<and> length taken \<le> 5 + 64 * 1024 * 1024"
    by (simp add: takes_at_most_def)
  show "if MAX_FRAME_BYTES < len
      then read_frame codec (s\<lparr>du_input := wire_tag format # to_be_bytes len @ junk\<rparr>)
         = (s\<lparr>du_input := junk\<rparr>, Inl frame_too_large) else True"
    by (simp add: read_frame_def read_exact_def Let_def)
qed

text \<open>A codec of truth values, to run frames on.\<close>

definition demo_wire :: "bool wire_codec" where
  "demo_wire = \<lparr>wf_msgpack_encode = (\<lambda>b. Inr [if b then CHR 0xC3 else CHR 0xC2]),
     wf_msgpack_decode = (\<lambda>s. if s = [CHR 0xC3] then Inr True else if s = [CHR 0xC2] then Inr False else Inl ''type''),
     wf_json_encode = (\<lambda>b. Inr (if b then ''true'' else ''false'')),
     wf_json_decode = (\<lambda>s. if s = ''true'' then Inr True else if s = ''false'' then Inr False else Inl ''syntax'')\<rparr>"

definition quiet :: "string \<Rightarrow> duplex" where
  "quiet input = \<lparr>du_input = input, du_end = None, du_output = [], du_write_fault = None, du_flush_fault = None\<rparr>"

theorem frame_roundtrip_witness:
  "read_frame demo_wire (quiet [CHR 0x02, CHR 0x00, CHR 0x00, CHR 0x00, CHR 0x04, CHR ''t'', CHR ''r'', CHR ''u'',
       CHR ''e'', CHR ''!'']) = (quiet ''!'', Inr True)"
proof -
  have ok: "wire_codec_ok demo_wire" by (simp add: wire_codec_ok_def demo_wire_def)
  have body: "wire_encode demo_wire Json True = Inr ''true''" by (simp add: wire_encode_def demo_wire_def)
  have fits: "fits_frame ''true''" by (simp add: fits_frame_def)
  have out: "drop (length (du_output (quiet []))) (du_output (fst (write_frame demo_wire Json True (quiet []))))
      = [CHR 0x02, CHR 0x00, CHR 0x00, CHR 0x00, CHR 0x04, CHR ''t'', CHR ''r'', CHR ''u'', CHR ''e'']"
    by code_simp
  from frame_roundtrip [OF ok body fits, of "quiet []" "quiet (_ @ ''!'')" "''!''"] out
  show ?thesis by (simp add: quiet_def)
qed

end
