(* ===== verification/Raft_Transport.thy ===== *)
theory Raft_Transport
  imports Wire_Frames Replay_Profile
begin

text \<open>
  The transports of \<^verbatim>\<open>openraft_runtime\<close>: the in-process router of \<^verbatim>\<open>network.rs\<close>, and of \<^verbatim>\<open>tcp.rs\<close>
  the server side of a connection, the accept loop and the forwarding of client writes.  The
  connection a node keeps to a peer is in theory \<open>Peer_Connection\<close>.

  The consensus library's requests, responses and errors are type variables; of its errors only
  what the sources match on is modelled.  A raft handle is the record \<open>raft_handle\<close> of the calls the
  sources make on it, over the state \<open>'r\<close>.
\<close>

section \<open>Errors of the consensus library\<close>

datatype 'e RaftError = APIError 'e | Fatal string

datatype 'e RPCError = Unreachable string | RemoteError u64 'e

record ForwardToLeader =
  fl_leader_addr :: "string option"

record ClientWriteError =
  cw_forward_to_leader :: "ForwardToLeader option"
  cw_message :: string

record ('ae, 'v, 'is, 'ar, 'vr, 'ir, 'e, 'ie, 'r) raft_handle =
  rh_append_entries :: "'ae \<Rightarrow> 'r \<Rightarrow> 'r \<times> ('e RaftError, 'ar) result"
  rh_vote :: "'v \<Rightarrow> 'r \<Rightarrow> 'r \<times> ('e RaftError, 'vr) result"
  rh_install_snapshot :: "'is \<Rightarrow> 'r \<Rightarrow> 'r \<times> ('ie RaftError, 'ir) result"
  rh_client_write :: "MetadataRaftCommand \<Rightarrow> 'r \<Rightarrow> 'r \<times> (ClientWriteError, MetadataRaftResponse) result"

section \<open>The in-process router\<close>

record 'h InProcessRouter =
  ro_targets :: "(u64, 'h) btree"

definition InProcessRouter_new :: "'h InProcessRouter" where
  "InProcessRouter_new = \<lparr>ro_targets = bt_empty\<rparr>"

definition router_register :: "u64 \<Rightarrow> 'h \<Rightarrow> 'h InProcessRouter \<Rightarrow> 'h InProcessRouter" where
  "router_register node_id raft self = self\<lparr>ro_targets := bt_insert node_id raft (ro_targets self)\<rparr>"

definition router_deregister :: "u64 \<Rightarrow> 'h InProcessRouter \<Rightarrow> 'h InProcessRouter" where
  "router_deregister node_id self = self\<lparr>ro_targets := bt_remove node_id (ro_targets self)\<rparr>"

definition router_lookup :: "u64 \<Rightarrow> 'h InProcessRouter \<Rightarrow> 'h option" where
  "router_lookup node_id self = bt_get (ro_targets self) node_id"

definition display_UnknownTarget :: "u64 \<Rightarrow> string" where
  "display_UnknownTarget node_id = ''node '' @ show_nat (unat node_id) @ '' is not registered in the in-process router''"

text \<open>A connection is its target; the router it resolves through is shared, so it is an argument.\<close>

record InProcessConnection =
  ic_target :: u64

definition router_new_client :: "u64 \<Rightarrow> InProcessConnection" where
  "router_new_client target = \<lparr>ic_target = target\<rparr>"

definition target_raft :: "'h InProcessRouter \<Rightarrow> InProcessConnection \<Rightarrow> (string, 'h) result" where
  "target_raft router self =
     (case router_lookup (ic_target self) router of
        None \<Rightarrow> Inl (display_UnknownTarget (ic_target self))
      | Some raft \<Rightarrow> Inr raft)"

text \<open>The three calls of \<^verbatim>\<open>RaftNetwork\<close>; \<open>rpc_call\<close> is the handle's call with its request.\<close>

definition in_process_call ::
    "('h \<Rightarrow> 'r \<Rightarrow> 'r \<times> ('e, 'a) result) \<Rightarrow> 'h InProcessRouter \<Rightarrow> InProcessConnection \<Rightarrow> 'r \<Rightarrow>
     'r \<times> ('e RPCError, 'a) result" where
  "in_process_call rpc_call router self r =
     (case target_raft router self of
        Inl error \<Rightarrow> (r, Inl (Unreachable error))
      | Inr raft \<Rightarrow>
          (case rpc_call raft r of
             (r', Inl error) \<Rightarrow> (r', Inl (RemoteError (ic_target self) error))
           | (r', Inr response) \<Rightarrow> (r', Inr response)))"

definition in_process_append_entries where
  "in_process_append_entries rpc = in_process_call (\<lambda>raft. rh_append_entries raft rpc)"

definition in_process_install_snapshot where
  "in_process_install_snapshot rpc = in_process_call (\<lambda>raft. rh_install_snapshot raft rpc)"

definition in_process_vote where
  "in_process_vote rpc = in_process_call (\<lambda>raft. rh_vote raft rpc)"

section \<open>Requests and responses on the wire\<close>

datatype ('ae, 'v, 'is) WireRequest =
    ReqAppendEntries 'ae
  | ReqVote 'v
  | ReqInstallSnapshot 'is
  | ReqClientWrite MetadataRaftCommand

datatype RemoteWriteError =
    RemoteNotLeader "string option"
  | RemoteOther string

definition display_RemoteWriteError :: "(string \<Rightarrow> string) \<Rightarrow> RemoteWriteError \<Rightarrow> string" where
  "display_RemoteWriteError debug_str self =
     (case self of
        RemoteNotLeader leader_addr \<Rightarrow>
          ''peer is not the leader (hint: '' @ debug_option debug_str leader_addr @ '')''
      | RemoteOther message \<Rightarrow> message)"

datatype ('ar, 'vr, 'ir, 'e, 'ie) WireResponse =
    RespAppendEntries "('e RaftError, 'ar) result"
  | RespVote "('e RaftError, 'vr) result"
  | RespInstallSnapshot "('ie RaftError, 'ir) result"
  | RespClientWrite "(RemoteWriteError, MetadataRaftResponse) result"

section \<open>The serving side\<close>

definition flatten_client_write ::
    "(ClientWriteError, MetadataRaftResponse) result \<Rightarrow> (RemoteWriteError, MetadataRaftResponse) result" where
  "flatten_client_write result =
     (case result of
        Inr response \<Rightarrow> Inr response
      | Inl error \<Rightarrow>
          (case cw_forward_to_leader error of
             Some forward \<Rightarrow> Inl (RemoteNotLeader (fl_leader_addr forward))
           | None \<Rightarrow> Inl (RemoteOther (cw_message error))))"

definition handle_request ::
    "('ae, 'v, 'is, 'ar, 'vr, 'ir, 'e, 'ie, 'r) raft_handle \<Rightarrow> ('ae, 'v, 'is) WireRequest \<Rightarrow> 'r \<Rightarrow>
     'r \<times> ('ar, 'vr, 'ir, 'e, 'ie) WireResponse" where
  "handle_request raft request r =
     (case request of
        ReqAppendEntries rpc \<Rightarrow> apsnd RespAppendEntries (rh_append_entries raft rpc r)
      | ReqVote rpc \<Rightarrow> apsnd RespVote (rh_vote raft rpc r)
      | ReqInstallSnapshot rpc \<Rightarrow> apsnd RespInstallSnapshot (rh_install_snapshot raft rpc r)
      | ReqClientWrite command \<Rightarrow>
          apsnd (RespClientWrite \<circ> flatten_client_write) (rh_client_write raft command r))"

lemma write_all_input: "du_input (fst (write_all bs s)) = du_input s"
  by (simp add: write_all_def split: option.split)

lemma then_io_input:
  "(\<And>x u. du_input (fst (f x u)) = du_input u) \<Longrightarrow> du_input (fst (then_io (write_all bs t) f)) = du_input t"
  using write_all_input [of bs t] by (cases "write_all bs t") (auto simp: then_io_def split: sum.split)

lemma write_frame_input: "du_input (fst (write_frame codec format x s)) = du_input s"
proof -
  have "du_input (fst (flush u)) = du_input u" for u by (simp add: flush_def)
  then show ?thesis
    by (cases "wire_encode codec format x") (simp_all add: write_frame_def Let_def then_io_input)
qed

lemma serve_turn_shrinks:
  assumes "(s1, Inr request) = read_frame rq s" "(s2, u) = write_frame rs format response s1"
  shows "length (du_input s2) < length (du_input s)"
  using read_frame_consumes [OF assms(1) [symmetric]] write_frame_input [of rs format response s1] assms(2)
  by (metis add_lessD1 fst_conv le_less_trans less_add_same_cancel1 not_le order.strict_trans2 zero_less_numeral)

text \<open>
  The loop of \<^verbatim>\<open>serve_connection\<close>.  Every turn takes at least a frame header off the input, which
  is finite, so the loop ends.
\<close>

function serve_connection ::
    "('ae, 'v, 'is) WireRequest wire_codec \<Rightarrow> ('ar, 'vr, 'ir, 'e, 'ie) WireResponse wire_codec \<Rightarrow>
     ('ae, 'v, 'is, 'ar, 'vr, 'ir, 'e, 'ie, 'r) raft_handle \<Rightarrow> WireFormat \<Rightarrow> duplex \<Rightarrow> 'r \<Rightarrow>
     duplex \<times> 'r \<times> (io_error, unit) result" where
  "serve_connection rq rs raft format s r =
     (case read_frame rq s of
        (s1, Inl error) \<Rightarrow>
          if ie_kind error = UnexpectedEof then (s1, r, Inr ()) else (s1, r, Inl error)
      | (s1, Inr request) \<Rightarrow>
          (case handle_request raft request r of
             (r1, response) \<Rightarrow>
               (case write_frame rs format response s1 of
                  (s2, Inl error) \<Rightarrow> (s2, r1, Inl error)
                | (s2, Inr _) \<Rightarrow> serve_connection rq rs raft format s2 r1)))"
  by pat_completeness auto
termination
  by (relation "measure (\<lambda>(rq, rs, raft, format, s, r). length (du_input s))")
    (auto intro: serve_turn_shrinks)

declare serve_connection.simps [simp del]

text \<open>
  The accept loop of \<^verbatim>\<open>TcpRaftServer\<close>: the streams it hands to \<open>serve_connection\<close>, and whether it still
  runs.  An accept error ends the loop; a connection whose option cannot be set or that the acceptor
  refuses is dropped.
\<close>

datatype 't accept_event =
    AcceptFails
  | Accepted 't "(io_error, unit) result"

fun accept_loop ::
    "('t \<Rightarrow> (io_error, 's) result) \<Rightarrow> 't accept_event list \<Rightarrow> 's list \<times> bool" where
  "accept_loop acceptor [] = ([], True)"
| "accept_loop acceptor (AcceptFails # _) = ([], False)"
| "accept_loop acceptor (Accepted stream nodelay # events) =
     (case accept_loop acceptor events of
        (served, serving) \<Rightarrow>
          (case nodelay of
             Inl _ \<Rightarrow> (served, serving)
           | Inr _ \<Rightarrow>
               (case acceptor stream of
                  Inl _ \<Rightarrow> (served, serving)
                | Inr wrapped \<Rightarrow> (wrapped # served, serving))))"

text \<open>
  The server handle: its address, and whether its task was aborted (by \<^verbatim>\<open>shutdown\<close> or on drop).  Binding
  takes the outcomes of opening the listener and of asking for its address; it returns the handle and
  the loop it spawns, a function of what the listener then returns.
\<close>

record TcpRaftServer =
  ts_local_addr :: string
  ts_aborted :: bool

definition plain_accept :: "'t \<Rightarrow> (io_error, 't) result" where
  "plain_accept stream = Inr stream"

definition bind_with_acceptor ::
    "(io_error, unit) result \<Rightarrow> (io_error, string) result \<Rightarrow> ('t \<Rightarrow> (io_error, 's) result) \<Rightarrow>
     (io_error, TcpRaftServer \<times> ('t accept_event list \<Rightarrow> 's list \<times> bool)) result" where
  "bind_with_acceptor listener local_addr acceptor =
     (case listener of
        Inl error \<Rightarrow> Inl error
      | Inr _ \<Rightarrow>
          (case local_addr of
             Inl error \<Rightarrow> Inl error
           | Inr addr \<Rightarrow> Inr (\<lparr>ts_local_addr = addr, ts_aborted = False\<rparr>, accept_loop acceptor)))"

definition tcp_bind ::
    "(io_error, unit) result \<Rightarrow> (io_error, string) result \<Rightarrow>
     (io_error, TcpRaftServer \<times> ('t accept_event list \<Rightarrow> 't list \<times> bool)) result" where
  "tcp_bind listener local_addr = bind_with_acceptor listener local_addr plain_accept"

definition server_local_addr :: "TcpRaftServer \<Rightarrow> string" where
  "server_local_addr self = ts_local_addr self"

definition server_shutdown :: "TcpRaftServer \<Rightarrow> TcpRaftServer" where
  "server_shutdown self = self\<lparr>ts_aborted := True\<rparr>"

definition server_drop :: "TcpRaftServer \<Rightarrow> TcpRaftServer" where
  "server_drop self = self\<lparr>ts_aborted := True\<rparr>"

definition is_serving ::
    "('t \<Rightarrow> (io_error, 's) result) \<Rightarrow> 't accept_event list \<Rightarrow> TcpRaftServer \<Rightarrow> bool" where
  "is_serving acceptor events self \<longleftrightarrow> \<not> ts_aborted self \<and> snd (accept_loop acceptor events)"

text \<open>
  A refused or misconfigured connection never stops the server: the loop ends only on an accept error,
  and until then every connection that can be configured and that the acceptor takes is served,
  in the order it arrived.
\<close>

lemma accept_loop_exact:
  "accept_loop acceptor events =
     (let seen = takeWhile (\<lambda>event. event \<noteq> AcceptFails) events in
      (List.map_filter (\<lambda>event. case event of
           Accepted stream (Inr _) \<Rightarrow> (case acceptor stream of Inr wrapped \<Rightarrow> Some wrapped | Inl _ \<Rightarrow> None)
         | _ \<Rightarrow> None) seen,
       AcceptFails \<notin> set events))"
  by (induction acceptor events rule: accept_loop.induct)
    (auto simp: Let_def List.map_filter_simps split: sum.splits)

section \<open>Forwarded client writes\<close>

text \<open>
  The production dialer, over the outcomes of connecting and of setting the socket option.  The clients
  of a dialer take it as an argument.
\<close>

definition tokio_dial ::
    "(string \<Rightarrow> (io_error, 's) result) \<Rightarrow> ('s \<Rightarrow> (io_error, unit) result) \<Rightarrow> string \<Rightarrow> (io_error, 's) result" where
  "tokio_dial connect set_nodelay addr =
     (case connect addr of
        Inl error \<Rightarrow> Inl error
      | Inr stream \<Rightarrow> (case set_nodelay stream of Inl error \<Rightarrow> Inl error | Inr _ \<Rightarrow> Inr stream))"

text \<open>The exchange proper, on a stream the call owns.\<close>

definition exchange ::
    "('ae, 'v, 'is) WireRequest wire_codec \<Rightarrow> ('ar, 'vr, 'ir, 'e, 'ie) WireResponse wire_codec \<Rightarrow> WireFormat \<Rightarrow>
     ('ae, 'v, 'is) WireRequest \<Rightarrow> duplex \<Rightarrow> duplex \<times> (io_error, ('ar, 'vr, 'ir, 'e, 'ie) WireResponse) result" where
  "exchange rq rs format request stream =
     then_io (write_frame rq format request stream) (\<lambda>_ stream. read_frame rs stream)"

definition client_write_remote_with_hint ::
    "(string \<Rightarrow> (io_error, duplex) result) \<Rightarrow> ('ae, 'v, 'is) WireRequest wire_codec \<Rightarrow>
     ('ar, 'vr, 'ir, 'e, 'ie) WireResponse wire_codec \<Rightarrow> string \<Rightarrow> MetadataRaftCommand \<Rightarrow> WireFormat \<Rightarrow>
     (RemoteWriteError, MetadataRaftResponse) result" where
  "client_write_remote_with_hint dial rq rs addr command format =
     (case (case dial addr of
              Inl error \<Rightarrow> Inl error
            | Inr stream \<Rightarrow> snd (exchange rq rs format (ReqClientWrite command) stream)) of
        Inr (RespClientWrite (Inr response)) \<Rightarrow> Inr response
      | Inr (RespClientWrite (Inl error)) \<Rightarrow> Inl error
      | Inr _ \<Rightarrow> Inl (RemoteOther ''peer answered with a mismatched response variant'')
      | Inl error \<Rightarrow>
          Inl (RemoteOther (''forwarded write to '' @ addr @ '' failed: '' @ ie_message error)))"

definition client_write_remote ::
    "(string \<Rightarrow> (io_error, duplex) result) \<Rightarrow> ('ae, 'v, 'is) WireRequest wire_codec \<Rightarrow>
     ('ar, 'vr, 'ir, 'e, 'ie) WireResponse wire_codec \<Rightarrow> string \<Rightarrow> MetadataRaftCommand \<Rightarrow> WireFormat \<Rightarrow>
     (OpenraftAdapterError, MetadataRaftResponse) result" where
  "client_write_remote dial rq rs addr command format =
     (case client_write_remote_with_hint dial rq rs addr command format of
        Inr response \<Rightarrow> Inr response
      | Inl (RemoteNotLeader _) \<Rightarrow> Inl NotLeader
      | Inl (RemoteOther message) \<Rightarrow> Inl (Storage message))"

section \<open>What a connection serves\<close>

fun answer_all ::
    "('ae, 'v, 'is, 'ar, 'vr, 'ir, 'e, 'ie, 'r) raft_handle \<Rightarrow> ('ae, 'v, 'is) WireRequest list \<Rightarrow> 'r \<Rightarrow>
     'r \<times> ('ar, 'vr, 'ir, 'e, 'ie) WireResponse list" where
  "answer_all raft [] r = (r, [])"
| "answer_all raft (q # qs) r =
     (case handle_request raft q r of
        (r1, response) \<Rightarrow> (case answer_all raft qs r1 of (r2, responses) \<Rightarrow> (r2, response # responses)))"

text \<open>\<open>bs\<close> are the frames of \<open>xs\<close>, each in the format given with it.\<close>

inductive framed :: "'a wire_codec \<Rightarrow> (WireFormat \<times> 'a) list \<Rightarrow> string \<Rightarrow> bool" for codec where
  framed_Nil: "framed codec [] []"
| framed_Cons: "wire_encode codec format x = Inr body \<Longrightarrow> fits_frame body \<Longrightarrow> framed codec xs bs \<Longrightarrow>
    framed codec ((format, x) # xs) (frame_bytes format body @ bs)"

inductive_cases framed_NilE: "framed codec [] bs"
inductive_cases framed_ConsE: "framed codec (fx # xs) bs"

text \<open>The beginning of a frame that was cut off, possibly before its first byte.\<close>

definition torn_frame :: "string \<Rightarrow> bool" where
  "torn_frame bs \<longleftrightarrow> (\<exists>format body k. fits_frame body \<and> k < length (frame_bytes format body)
     \<and> bs = take k (frame_bytes format body))"

lemma read_torn:
  assumes "torn_frame (du_input s)" "du_end s = None"
  shows "\<exists>s'. read_frame codec s = (s', Inl (io_error_new UnexpectedEof ''early eof'')) \<and> du_output s' = du_output s"
proof -
  obtain format body k where k: "fits_frame body" "k < length (frame_bytes format body)"
    "du_input s = take k (frame_bytes format body)" using assms(1) by (auto simp: torn_frame_def)
  let ?l = "of_nat (length body) :: u32"
  have l: "\<not> MAX_FRAME_BYTES < ?l" "unat ?l = length body" using k(1) fits_frame_iff len_unat by auto
  consider "k = 0" | "0 < k" "k < 5" | "5 \<le> k" by linarith
  then show ?thesis
  proof cases
    case 1
    then show ?thesis using k(3) assms(2) by (simp add: read_frame_def read_exact_def)
  next
    case 2
    then have "du_input s = wire_tag format # take (k - 1) (to_be_bytes ?l)"
      using k(3) by (cases k) (simp_all add: frame_bytes_def)
    moreover have "\<not> 4 \<le> k - Suc 0" using 2 by linarith
    ultimately show ?thesis using assms(2) by (simp add: read_frame_def read_exact_def)
  next
    case 3
    then have "du_input s = wire_tag format # to_be_bytes ?l @ take (k - 5) body"
      using k(3) by (cases k) (simp_all add: frame_bytes_def)
    moreover have "\<not> length body \<le> k - 5"
      using 3 k(2) by (simp add: frame_bytes_def)
    ultimately show ?thesis using l assms(2) by (simp add: read_frame_def read_exact_def Let_def)
  qed
qed

lemma serve_torn:
  assumes "torn_frame (du_input s)" "du_end s = None"
  shows "\<exists>s'. serve_connection rq rs raft format s r = (s', r, Inr ()) \<and> du_output s' = du_output s"
  using read_torn [OF assms, of rq] by (auto simp: serve_connection.simps [of rq rs raft format s r] io_error_new_def)

lemma serve_framed:
  assumes codec: "wire_codec_ok rq"
    and input: "framed rq fqs bs" "du_input s = bs @ torn" "torn_frame torn" "du_end s = None"
    and healthy: "du_write_fault s = None" "du_flush_fault s = None"
    and answers: "answer_all raft (map snd fqs) r = (r', responses)"
      "framed rs (map (Pair format) responses) out"
  shows "\<exists>s'. serve_connection rq rs raft format s r = (s', r', Inr ()) \<and> du_output s' = du_output s @ out"
  using input healthy answers
proof (induction arbitrary: s r responses out rule: framed.induct)
  case framed_Nil
  then show ?case using serve_torn [of s rq rs raft format r] by (auto elim: framed_NilE)
next
  case (framed_Cons f x body xs bs)
  obtain r1 response where h: "handle_request raft x r = (r1, response)" by (cases "handle_request raft x r")
  then obtain responses' where a: "answer_all raft (map snd xs) r1 = (r', responses')" "responses = response # responses'"
    using framed_Cons.prems by (auto split: prod.splits)
  obtain rbody out' where o: "wire_encode rs format response = Inr rbody" "fits_frame rbody"
    "framed rs (map (Pair format) responses') out'" "out = frame_bytes format rbody @ out'"
    using framed_Cons.prems a(2) by (auto elim: framed_ConsE)
  let ?s1 = "s\<lparr>du_input := bs @ torn\<rparr>"
  let ?s2 = "?s1\<lparr>du_output := du_output s @ frame_bytes format rbody\<rparr>"
  have r1: "read_frame rq s = (?s1, Inr x)"
    using read_frame_bytes [OF framed_Cons.hyps(2), of s f "bs @ torn" rq] framed_Cons.prems
      wire_decode_encode [OF codec framed_Cons.hyps(1)] by simp
  have w: "write_frame rs format response ?s1 = (?s2, Inr ())"
    using write_frame_healthy [OF o(1), of ?s1] framed_Cons.prems o(2) by simp
  have "\<exists>s'. serve_connection rq rs raft format ?s2 r1 = (s', r', Inr ()) \<and> du_output s' = du_output ?s2 @ out'"
    by (rule framed_Cons.IH [OF _ _ _ _ _ a(1) o(3)]) (use framed_Cons.prems in simp_all)
  then show ?case by (simp add: serve_connection.simps [of rq rs raft format s r] r1 h w o(4))
qed

section \<open>Properties\<close>

text \<open>Registrations and removals on the router, and the handle a node has after them.\<close>

datatype 'h router_op = Register u64 'h | Deregister u64

fun router_step :: "'h router_op \<Rightarrow> 'h InProcessRouter \<Rightarrow> 'h InProcessRouter" where
  "router_step (Register node_id raft) router = router_register node_id raft router"
| "router_step (Deregister node_id) router = router_deregister node_id router"

fun latest_handle :: "u64 \<Rightarrow> 'h router_op list \<Rightarrow> 'h option" where
  "latest_handle target [] = None"
| "latest_handle target (Register node_id raft # earlier) =
     (if node_id = target then Some raft else latest_handle target earlier)"
| "latest_handle target (Deregister node_id # earlier) =
     (if node_id = target then None else latest_handle target earlier)"

lemma router_lookup_latest:
  "router_lookup target (fold router_step ops InProcessRouter_new) = latest_handle target (rev ops)"
proof (induction ops rule: rev_induct)
  case Nil
  then show ?case by (simp add: router_lookup_def InProcessRouter_new_def)
next
  case (snoc p ops)
  then show ?case
    by (cases p) (auto simp: router_lookup_def router_register_def router_deregister_def bt_get_insert bt_get_remove)
qed

text \<open>
  An in-process connection follows restarts: made once, it reaches at every call the handle
  registered last for its target, reports the target as unreachable while it is deregistered or was
  never registered, and passes the target's own error on under the target's id.
\<close>

theorem router_reaches_latest:
  "in_process_call rpc_call (fold router_step ops InProcessRouter_new) (router_new_client target) r =
     (case latest_handle target (rev ops) of
        None \<Rightarrow> (r, Inl (Unreachable (display_UnknownTarget target)))
      | Some raft \<Rightarrow> apsnd (map_sum (RemoteError target) (\<lambda>x. x)) (rpc_call raft r))"
  by (simp add: in_process_call_def target_raft_def router_new_client_def router_lookup_latest apsnd_def
      map_prod_def split: option.split prod.split sum.split)

text \<open>
  C29. A connection answers in order and executes only complete requests.  On an input of request
  frames, each in either encoding, that is then cut off at a frame boundary or anywhere inside a
  frame, the server applies exactly the complete requests, one after the other, writes exactly
  their responses in its own format, and ends without an error.
\<close>

theorem serve_answers_in_order:
  assumes "wire_codec_ok rq" "framed rq fqs bs" "du_input s = bs @ torn" "torn_frame torn" "du_end s = None"
    and "du_write_fault s = None" "du_flush_fault s = None"
    and "answer_all raft (map snd fqs) r = (r', responses)" "framed rs (map (Pair format) responses) out"
  shows "\<exists>s'. serve_connection rq rs raft format s r = (s', r', Inr ()) \<and> du_output s' = du_output s @ out"
  by (rule serve_framed [OF assms])

text \<open>
  C30. A forwarded write reaches the remote state machine and brings its answer back: when the bytes the
  client reads are what the peer's server writes on reading the client's bytes, the client gets
  the peer's own answer: the response, the hint where the leader is, or the flattened error.
\<close>

theorem forwarded_write_end_to_end:
  assumes codecs: "wire_codec_ok rq" "wire_codec_ok rs"
    and request: "wire_encode rq format (ReqClientWrite command) = Inr body" "fits_frame body"
    and peer: "rh_client_write raft command r = (r', result)"
    and response: "wire_encode rs sformat (RespClientWrite (flatten_client_write result)) = Inr rbody" "fits_frame rbody"
    and dial: "dial addr = Inr stream" "du_write_fault stream = None" "du_flush_fault stream = None"
    and server: "du_input server = frame_bytes format body" "du_output server = []" "du_end server = None"
      "du_write_fault server = None" "du_flush_fault server = None"
    and reply: "du_input stream = du_output (fst (serve_connection rq rs raft sformat server r))"
  shows "client_write_remote_with_hint dial rq rs addr command format = flatten_client_write result
    \<and> fst (snd (serve_connection rq rs raft sformat server r)) = r'
    \<and> client_write_remote dial rq rs addr command format =
        (case result of
           Inr answer \<Rightarrow> Inr answer
         | Inl error \<Rightarrow> if cw_forward_to_leader error = None then Inl (Storage (cw_message error)) else Inl NotLeader)"
proof -
  have framed_q: "framed rq [(format, ReqClientWrite command)] (frame_bytes format body)"
    using framed_Cons [OF request framed_Nil] by simp
  have framed_r: "framed rs (map (Pair sformat) [RespClientWrite (flatten_client_write result)]) (frame_bytes sformat rbody)"
    using framed_Cons [OF response framed_Nil] by simp
  have torn: "torn_frame []"
    unfolding torn_frame_def
    by (intro exI [of _ Json] exI [of _ "[]"] exI [of _ 0]) (simp add: frame_bytes_def fits_frame_def)
  have ans: "answer_all raft (map snd [(format, ReqClientWrite command)]) r
      = (r', [RespClientWrite (flatten_client_write result)])"
    using peer by (simp add: handle_request_def)
  obtain s' where s': "serve_connection rq rs raft sformat server r = (s', r', Inr ())"
    "du_output s' = frame_bytes sformat rbody"
    using serve_framed [OF codecs(1) framed_q _ torn server(3-5) ans framed_r] server(1,2) by auto
  have w: "write_frame rq format (ReqClientWrite command) stream
      = (stream\<lparr>du_output := du_output stream @ frame_bytes format body\<rparr>, Inr ())"
    using write_frame_healthy [OF request(1) dial(2,3)] request(2) by simp
  have "snd (exchange rq rs format (ReqClientWrite command) stream)
      = Inr (RespClientWrite (flatten_client_write result))"
    using read_frame_bytes [OF response(2), of _ sformat "[]" rs] reply s'
      wire_decode_encode [OF codecs(2) response(1)]
    by (simp add: exchange_def w)
  then have "client_write_remote_with_hint dial rq rs addr command format = flatten_client_write result"
    using dial(1) by (simp add: client_write_remote_with_hint_def split: sum.split)
  then show ?thesis
    using s' by (auto simp: client_write_remote_def flatten_client_write_def split: sum.split option.split)
qed

section \<open>Witnesses\<close>

text \<open>A codec of two requests, one of two responses, and a handle that counts its calls.\<close>

type_synonym demo_request = "(nat, nat, nat) WireRequest"
type_synonym demo_response = "(nat, nat, nat, nat, nat) WireResponse"

definition two_point :: "'a \<Rightarrow> 'a \<Rightarrow> 'a wire_codec" where
  "two_point x y = (let enc = (\<lambda>v. if v = x then Inr ''x'' else if v = y then Inr ''y'' else Inl ''unsupported'');
     dec = (\<lambda>b. if b = ''x'' then Inr x else if b = ''y'' then Inr y else Inl ''unsupported'')
     in \<lparr>wf_msgpack_encode = enc, wf_msgpack_decode = dec, wf_json_encode = enc, wf_json_decode = dec\<rparr>)"

lemma two_point_ok: "wire_codec_ok (two_point x y)"
  by (simp add: wire_codec_ok_def two_point_def Let_def)

lemma two_point_encode [simp]:
  "wire_encode (two_point x y) format x = Inr ''x''"
  "x \<noteq> y \<Longrightarrow> wire_encode (two_point x y) format y = Inr ''y''"
  by (cases format; simp add: wire_encode_def two_point_def Let_def)+

definition moved_leader :: ClientWriteError where
  "moved_leader = \<lparr>cw_forward_to_leader = Some \<lparr>fl_leader_addr = Some ''b:1''\<rparr>, cw_message = ''forward''\<rparr>"

definition demo_requests :: "demo_request wire_codec" where
  "demo_requests = two_point (ReqVote 4) (ReqClientWrite (DeregisterNode ''a''))"

definition demo_responses :: "demo_response wire_codec" where
  "demo_responses = two_point (RespVote (Inr 4)) (RespClientWrite (flatten_client_write (Inl moved_leader)))"

definition demo_handle :: "(nat, nat, nat, nat, nat, nat, nat, nat, nat) raft_handle" where
  "demo_handle = \<lparr>rh_append_entries = (\<lambda>q r. (r, Inl (Fatal ''stopped''))), rh_vote = (\<lambda>q r. (r + 1, Inr q)),
     rh_install_snapshot = (\<lambda>q r. (r, Inl (APIError 0))), rh_client_write = (\<lambda>c r. (r + 10, Inl moved_leader))\<rparr>"

lemma short_fits: "fits_frame ''x''" "fits_frame ''y''"
  by (simp_all add: fits_frame_def)

theorem serve_answers_in_order_witness:
  "\<exists>s'. serve_connection demo_requests demo_responses demo_handle Json
       (quiet (frame_bytes MessagePack ''x'' @ frame_bytes Json ''y'' @ take 3 (frame_bytes Json ''x''))) 0
     = (s', 11, Inr ()) \<and> du_output s' = frame_bytes Json ''x'' @ frame_bytes Json ''y''"
proof -
  let ?qs = "[(MessagePack, ReqVote 4), (Json, ReqClientWrite (DeregisterNode ''a''))]"
  let ?rs = "[RespVote (Inr 4), RespClientWrite (flatten_client_write (Inl moved_leader))] :: demo_response list"
  have q: "framed demo_requests ?qs (frame_bytes MessagePack ''x'' @ frame_bytes Json ''y'' @ [])"
    by (intro framed_Cons framed_Nil) (simp_all add: demo_requests_def short_fits)
  have r: "framed demo_responses (map (Pair Json) ?rs) (frame_bytes Json ''x'' @ frame_bytes Json ''y'' @ [])"
    unfolding list.map by (intro framed_Cons framed_Nil) (simp_all add: demo_responses_def short_fits)
  have t: "torn_frame (take 3 (frame_bytes Json ''x''))"
    unfolding torn_frame_def
    by (intro exI [of _ Json] exI [of _ "''x''"] exI [of _ 3]) (simp add: frame_bytes_def short_fits)
  have a: "answer_all demo_handle (map snd ?qs) 0 = (11, ?rs)"
    by (simp add: handle_request_def demo_handle_def)
  show ?thesis
    using serve_answers_in_order [OF _ q _ t _ _ _ a r,
        of "quiet (frame_bytes MessagePack ''x'' @ frame_bytes Json ''y'' @ take 3 (frame_bytes Json ''x''))"]
    by (simp add: demo_requests_def two_point_ok quiet_def)
qed

theorem forwarded_write_end_to_end_witness:
  "\<exists>reply. client_write_remote_with_hint (\<lambda>addr. Inr (quiet reply)) demo_requests demo_responses ''a:1''
       (DeregisterNode ''a'') MessagePack = Inl (RemoteNotLeader (Some ''b:1''))
     \<and> client_write_remote (\<lambda>addr. Inr (quiet reply)) demo_requests demo_responses ''a:1''
       (DeregisterNode ''a'') MessagePack = Inl NotLeader"
proof -
  let ?server = "quiet (frame_bytes MessagePack ''y'')"
  let ?reply = "du_output (fst (serve_connection demo_requests demo_responses demo_handle Json ?server 0))"
  have q: "wire_encode demo_requests MessagePack (ReqClientWrite (DeregisterNode ''a'')) = Inr ''y''"
    by (simp add: demo_requests_def)
  have r: "wire_encode demo_responses Json (RespClientWrite (flatten_client_write (Inl moved_leader))) = Inr ''y''"
    by (simp add: demo_responses_def)
  have p: "rh_client_write demo_handle (DeregisterNode ''a'') 0 = (10, Inl moved_leader)"
    by (simp add: demo_handle_def)
  have c: "wire_codec_ok demo_requests" "wire_codec_ok demo_responses"
    by (simp_all add: demo_requests_def demo_responses_def two_point_ok)
  show ?thesis
    using forwarded_write_end_to_end [OF c q short_fits(2) p r short_fits(2),
        of "\<lambda>addr. Inr (quiet ?reply)" "''a:1''" "quiet ?reply" ?server]
    by (intro exI [of _ ?reply]) (simp add: quiet_def flatten_client_write_def moved_leader_def)
qed

end
