(* ===== verification/Peer_Connection.thy ===== *)
theory Peer_Connection
  imports Raft_Transport
begin

text \<open>
  The connection a node keeps to a raft peer, \<^verbatim>\<open>DialerRaftConnection\<close> of \<^verbatim>\<open>openraft_runtime/tcp.rs\<close>: dialing
  on demand, the verification of an explicit disconnect, and the monitor that watches a stream
  while no call uses it.

  Dialing, the clock and the timeout of the verification are the fields of \<open>transport_ops\<close>, over the
  state \<open>'w\<close> of the outside world.  The monitor is a task of its own: what its reads and its probe
  return are events, taken between the calls in any order, and a call stops the task where it
  is.  The failure table is shared by all connections of a factory, so it is threaded beside the
  connection.
\<close>

section \<open>The factory\<close>

record DialerNetworkFactory =
  nf_format :: WireFormat

definition with_dialer_format :: "WireFormat \<Rightarrow> DialerNetworkFactory" where
  "with_dialer_format format = \<lparr>nf_format = format\<rparr>"

definition DialerNetworkFactory_default :: DialerNetworkFactory where
  "DialerNetworkFactory_default = \<lparr>nf_format = WireFormat_default\<rparr>"

definition TcpNetworkFactory_new :: DialerNetworkFactory where
  "TcpNetworkFactory_new = DialerNetworkFactory_default"

definition TcpNetworkFactory_with_format :: "WireFormat \<Rightarrow> DialerNetworkFactory" where
  "TcpNetworkFactory_with_format format = with_dialer_format format"

definition with_dialer :: DialerNetworkFactory where
  "with_dialer = with_dialer_format WireFormat_default"

section \<open>The idle monitor\<close>

text \<open>
  The task \<^verbatim>\<open>park_idle_stream\<close> spawns: it waits on a read with the stream in hand, then on a probe
  without one, and ends with the stream it hands back.  The join handle and the sender of the stop
  signal, \<^verbatim>\<open>IdleStream\<close>, are the state of this task.
\<close>

datatype idle_task =
    IdleReading duplex
  | IdleProbing
  | IdleFinished "duplex option"

datatype idle_event =
    ReadReturned "(io_error, nat) result"
  | ProbeTimedOut
  | ProbeDialed "(io_error, duplex) result"

definition idle_read_returned ::
    "u64 \<Rightarrow> nat \<Rightarrow> (io_error, nat) result \<Rightarrow> PeerHealth \<Rightarrow> idle_task \<times> PeerHealth" where
  "idle_read_returned target now result health =
     (case (case result of
              Inr n \<Rightarrow> if n = 0 then Some (io_error_new UnexpectedEof ''idle peer closed'') else None
            | Inl error \<Rightarrow> Some error) of
        None \<Rightarrow> (IdleFinished None, health)
      | Some error \<Rightarrow>
          if \<not> explicit_failure (ie_kind error) then (IdleFinished None, health)
          else (IdleProbing, observe target (Inl error :: (io_error, unit) result) now health))"

definition idle_probe_dialed ::
    "u64 \<Rightarrow> nat \<Rightarrow> (io_error, duplex) result \<Rightarrow> PeerHealth \<Rightarrow> idle_task \<times> PeerHealth" where
  "idle_probe_dialed target now probe health =
     (case probe of
        Inr stream \<Rightarrow> (IdleFinished (Some stream), health)
      | Inl error \<Rightarrow>
          (IdleFinished None, observe target (Inl error :: (io_error, unit) result) now health))"

text \<open>One event of the task; \<^const>\<open>None\<close> where the task does not wait for it.\<close>

fun idle_step ::
    "u64 \<Rightarrow> nat \<Rightarrow> idle_event \<Rightarrow> idle_task \<Rightarrow> PeerHealth \<Rightarrow> (idle_task \<times> PeerHealth) option" where
  "idle_step target now (ReadReturned result) (IdleReading stream) health =
     Some (idle_read_returned target now result health)"
| "idle_step target now ProbeTimedOut IdleProbing health = Some (IdleFinished None, health)"
| "idle_step target now (ProbeDialed probe) IdleProbing health =
     Some (idle_probe_dialed target now probe health)"
| "idle_step target now event task health = None"

text \<open>
  \<^verbatim>\<open>IdleStream::acquire\<close>: the stop signal, which both selections of the task look at first, and what
  the task then ends with.
\<close>

fun idle_acquire :: "idle_task \<Rightarrow> duplex option" where
  "idle_acquire (IdleReading stream) = Some stream"
| "idle_acquire IdleProbing = None"
| "idle_acquire (IdleFinished result) = result"

section \<open>The connection\<close>

record DialerRaftConnection =
  dc_target :: u64
  dc_addr :: string
  dc_format :: WireFormat
  dc_stream :: "duplex option"
  dc_idle :: "idle_task option"

definition factory_new_client :: "u64 \<Rightarrow> string \<Rightarrow> DialerNetworkFactory \<Rightarrow> DialerRaftConnection" where
  "factory_new_client target addr self =
     \<lparr>dc_target = target, dc_addr = addr, dc_format = nf_format self, dc_stream = None, dc_idle = None\<rparr>"

record 'w transport_ops =
  to_dial :: "string \<Rightarrow> 'w \<Rightarrow> 'w \<times> (io_error, duplex) result"
  to_now :: "'w \<Rightarrow> nat"
  to_verify_times_out :: "'w \<Rightarrow> 'w option"

definition park_idle_stream :: "PeerHealth \<Rightarrow> DialerRaftConnection \<Rightarrow> DialerRaftConnection" where
  "park_idle_stream health self =
     (if \<not> monitor_idle health then self
      else case dc_stream self of
        None \<Rightarrow> self
      | Some stream \<Rightarrow> self\<lparr>dc_stream := None, dc_idle := Some (IdleReading stream)\<rparr>)"

definition connection_idle ::
    "nat \<Rightarrow> idle_event \<Rightarrow> DialerRaftConnection \<Rightarrow> PeerHealth \<Rightarrow> (DialerRaftConnection \<times> PeerHealth) option" where
  "connection_idle now event self health =
     (case dc_idle self of
        None \<Rightarrow> None
      | Some task \<Rightarrow>
          map_option (\<lambda>(task', health'). (self\<lparr>dc_idle := Some task'\<rparr>, health'))
            (idle_step (dc_target self) now event task health))"

definition fatal_response :: "('ar, 'vr, 'ir, 'e, 'ie) WireResponse \<Rightarrow> bool" where
  "fatal_response response \<longleftrightarrow>
     (case response of
        RespAppendEntries (Inl (Fatal _)) \<Rightarrow> True
      | RespVote (Inl (Fatal _)) \<Rightarrow> True
      | RespInstallSnapshot (Inl (Fatal _)) \<Rightarrow> True
      | _ \<Rightarrow> False)"

definition matching_response :: "('ae, 'v, 'is) WireRequest \<Rightarrow> ('ar, 'vr, 'ir, 'e, 'ie) WireResponse \<Rightarrow> bool" where
  "matching_response request response \<longleftrightarrow>
     (case (request, response) of
        (ReqAppendEntries _, RespAppendEntries _) \<Rightarrow> True
      | (ReqVote _, RespVote _) \<Rightarrow> True
      | (ReqInstallSnapshot _, RespInstallSnapshot _) \<Rightarrow> True
      | _ \<Rightarrow> False)"

text \<open>The stream a call starts with: taken back from the monitor when there is one.\<close>

definition held_stream :: "DialerRaftConnection \<Rightarrow> duplex option" where
  "held_stream self = (case dc_idle self of None \<Rightarrow> dc_stream self | Some task \<Rightarrow> idle_acquire task)"

definition try_call ::
    "'w transport_ops \<Rightarrow> ('ae, 'v, 'is) WireRequest wire_codec \<Rightarrow> ('ar, 'vr, 'ir, 'e, 'ie) WireResponse wire_codec \<Rightarrow>
     ('ae, 'v, 'is) WireRequest \<Rightarrow> DialerRaftConnection \<Rightarrow> 'w \<Rightarrow>
     DialerRaftConnection \<times> 'w \<times> (io_error, ('ar, 'vr, 'ir, 'e, 'ie) WireResponse) result" where
  "try_call ops rq rs request self w =
     (let self1 = self\<lparr>dc_idle := None, dc_stream := None\<rparr> in
      case (case held_stream self of
              Some stream \<Rightarrow> (w, Inr stream)
            | None \<Rightarrow> to_dial ops (dc_addr self) w) of
        (w1, Inl error) \<Rightarrow> (self1, w1, Inl error)
      | (w1, Inr stream) \<Rightarrow>
          (case exchange rq rs (dc_format self) request stream of
             (_, Inl error) \<Rightarrow> (self1, w1, Inl error)
           | (stream', Inr response) \<Rightarrow>
               ((if \<not> fatal_response response \<and> matching_response request response
                 then self1\<lparr>dc_stream := Some stream'\<rparr> else self1),
                w1, Inr response)))"

definition verification_timed_out :: io_error where
  "verification_timed_out = io_error_new TimedOut ''disconnect verification timed out''"

text \<open>The one immediate retry after an explicit disconnect; a timeout drops the owned stream.\<close>

definition verify_call ::
    "'w transport_ops \<Rightarrow> ('ae, 'v, 'is) WireRequest wire_codec \<Rightarrow> ('ar, 'vr, 'ir, 'e, 'ie) WireResponse wire_codec \<Rightarrow>
     ('ae, 'v, 'is) WireRequest \<Rightarrow> DialerRaftConnection \<Rightarrow> 'w \<Rightarrow>
     DialerRaftConnection \<times> 'w \<times> (io_error, ('ar, 'vr, 'ir, 'e, 'ie) WireResponse) result" where
  "verify_call ops rq rs request self w =
     (case to_verify_times_out ops w of
        Some w' \<Rightarrow> (self\<lparr>dc_stream := None, dc_idle := None\<rparr>, w', Inl verification_timed_out)
      | None \<Rightarrow> try_call ops rq rs request self w)"

definition transport_call ::
    "'w transport_ops \<Rightarrow> ('ae, 'v, 'is) WireRequest wire_codec \<Rightarrow> ('ar, 'vr, 'ir, 'e, 'ie) WireResponse wire_codec \<Rightarrow>
     ('ae, 'v, 'is) WireRequest \<Rightarrow> DialerRaftConnection \<Rightarrow> PeerHealth \<Rightarrow> 'w \<Rightarrow>
     DialerRaftConnection \<times> PeerHealth \<times> 'w \<times> (string, ('ar, 'vr, 'ir, 'e, 'ie) WireResponse) result" where
  "transport_call ops rq rs request self health w =
     (case try_call ops rq rs request self w of
        (self1, w1, result1) \<Rightarrow>
          let health1 = observe (dc_target self) result1 (to_now ops w1) health in
          (case (case result1 of
                   Inl error \<Rightarrow>
                     if explicit_failure (ie_kind error)
                     then (case verify_call ops rq rs request self1 w1 of
                             (self2, w2, result2) \<Rightarrow>
                               (self2, observe (dc_target self) result2 (to_now ops w2) health1, w2, result2))
                     else (self1, health1, w1, result1)
                 | Inr _ \<Rightarrow> (self1, health1, w1, result1)) of
             (self3, health3, w3, result) \<Rightarrow>
               (case result of
                  Inl error \<Rightarrow> (self3\<lparr>dc_stream := None\<rparr>, health3, w3, Inl (ie_message error))
                | Inr response \<Rightarrow> (park_idle_stream health3 self3, health3, w3, Inr response))))"

text \<open>
  A call that is cancelled while it waits: the call owns the stream, so it goes with it.  \<open>observed\<close> is
  the explicit failure of its first attempt, when it was cancelled in the verification.
\<close>

definition cancel_call ::
    "(io_error \<times> nat) option \<Rightarrow> DialerRaftConnection \<Rightarrow> PeerHealth \<Rightarrow> DialerRaftConnection \<times> PeerHealth" where
  "cancel_call observed self health =
     (self\<lparr>dc_stream := None, dc_idle := None\<rparr>,
      case observed of
        None \<Rightarrow> health
      | Some (error, now) \<Rightarrow> observe (dc_target self) (Inl error :: (io_error, unit) result) now health)"

definition mismatched_response :: "u64 \<Rightarrow> 'e RPCError" where
  "mismatched_response target =
     Unreachable (''peer '' @ show_nat (unat target) @ '' answered with a mismatched response variant'')"

text \<open>The three calls of \<^verbatim>\<open>RaftNetwork\<close>; \<open>pick\<close> selects the response they expect.\<close>

definition connection_rpc ::
    "(('ar, 'vr, 'ir, 'e, 'ie) WireResponse \<Rightarrow> ('x RaftError, 'a) result option) \<Rightarrow>
     ('ae, 'v, 'is) WireRequest \<Rightarrow> 'w transport_ops \<Rightarrow> ('ae, 'v, 'is) WireRequest wire_codec \<Rightarrow>
     ('ar, 'vr, 'ir, 'e, 'ie) WireResponse wire_codec \<Rightarrow> DialerRaftConnection \<Rightarrow> PeerHealth \<Rightarrow> 'w \<Rightarrow>
     DialerRaftConnection \<times> PeerHealth \<times> 'w \<times> ('x RaftError RPCError, 'a) result" where
  "connection_rpc pick request ops rq rs self health w =
     (case transport_call ops rq rs request self health w of
        (self', health', w', Inl message) \<Rightarrow> (self', health', w', Inl (Unreachable message))
      | (self', health', w', Inr response) \<Rightarrow>
          (self', health', w',
           case pick response of
             Some (Inr answer) \<Rightarrow> Inr answer
           | Some (Inl error) \<Rightarrow> Inl (RemoteError (dc_target self) error)
           | None \<Rightarrow> Inl (mismatched_response (dc_target self))))"

definition connection_append_entries where
  "connection_append_entries rpc =
     connection_rpc (\<lambda>response. case response of RespAppendEntries result \<Rightarrow> Some result | _ \<Rightarrow> None)
       (ReqAppendEntries rpc)"

definition connection_install_snapshot where
  "connection_install_snapshot rpc =
     connection_rpc (\<lambda>response. case response of RespInstallSnapshot result \<Rightarrow> Some result | _ \<Rightarrow> None)
       (ReqInstallSnapshot rpc)"

definition connection_vote where
  "connection_vote rpc =
     connection_rpc (\<lambda>response. case response of RespVote result \<Rightarrow> Some result | _ \<Rightarrow> None) (ReqVote rpc)"

section \<open>What a stream has carried\<close>

text \<open>\<open>exchanged\<close>: from one state of a stream to another by complete exchanges, with what was asked and answered.\<close>

inductive exchanged ::
    "('ae, 'v, 'is) WireRequest wire_codec \<Rightarrow> ('ar, 'vr, 'ir, 'e, 'ie) WireResponse wire_codec \<Rightarrow> WireFormat \<Rightarrow> duplex \<Rightarrow>
     (('ae, 'v, 'is) WireRequest \<times> ('ar, 'vr, 'ir, 'e, 'ie) WireResponse) list \<Rightarrow> duplex \<Rightarrow> bool"
  for rq rs format stream where
  exchanged_none: "exchanged rq rs format stream [] stream"
| exchanged_one: "exchanged rq rs format stream qps s \<Longrightarrow> exchange rq rs format request s = (s', Inr response) \<Longrightarrow>
    exchanged rq rs format stream (qps @ [(request, response)]) s'"

definition answered :: "('ae, 'v, 'is) WireRequest \<Rightarrow> ('ar, 'vr, 'ir, 'e, 'ie) WireResponse \<Rightarrow> bool" where
  "answered request response \<longleftrightarrow> matching_response request response \<and> \<not> fatal_response response"

definition unused :: "duplex \<Rightarrow> bool" where
  "unused stream \<longleftrightarrow> du_output stream = []"

definition dials_unused :: "'w transport_ops \<Rightarrow> bool" where
  "dials_unused ops \<longleftrightarrow> (\<forall>addr w w' stream. to_dial ops addr w = (w', Inr stream) \<longrightarrow> unused stream)"

text \<open>
  A stream that can be used again: it is a stream the dialer returned for the peer's address, and has
  since carried nothing but complete exchanges, each with its own answer.  What the peer will send on a
  dialed stream is part of it, so a stream with a request written and its reply still to come is not
  such a stream, nor one from which more or less than the answers has been read.
\<close>

definition reusable ::
    "'w transport_ops \<Rightarrow> string \<Rightarrow> ('ae, 'v, 'is) WireRequest wire_codec \<Rightarrow> ('ar, 'vr, 'ir, 'e, 'ie) WireResponse wire_codec \<Rightarrow> WireFormat \<Rightarrow>
     duplex \<Rightarrow> bool" where
  "reusable ops addr rq rs format stream \<longleftrightarrow>
     (\<exists>w w' fresh qps. to_dial ops addr w = (w', Inr fresh) \<and> unused fresh
       \<and> exchanged rq rs format fresh qps stream \<and> (\<forall>(q, p) \<in> set qps. answered q p))"

lemma dialed_reusable:
  assumes "dials_unused ops" "to_dial ops addr w = (w', Inr stream)"
  shows "reusable ops addr rq rs format stream"
  unfolding reusable_def
  by (rule exI [of _ w], rule exI [of _ w'], rule exI [of _ stream], rule exI [of _ "[]"])
    (use assms in \<open>auto simp: dials_unused_def exchanged_none\<close>)

lemma answered_reusable:
  assumes "reusable ops addr rq rs format s" "exchange rq rs format q s = (s', Inr p)" "answered q p"
  shows "reusable ops addr rq rs format s'"
proof -
  obtain w w' fresh qps where "to_dial ops addr w = (w', Inr fresh)" "unused fresh"
    "exchanged rq rs format fresh qps s" "\<forall>(q, p) \<in> set qps. answered q p"
    using assms(1) by (auto simp: reusable_def)
  moreover from this have "exchanged rq rs format fresh (qps @ [(q, p)]) s'" using exchanged_one assms(2) by blast
  moreover have "\<forall>(q, p) \<in> set (qps @ [(q, p)]). answered q p" using calculation(4) assms(3) by auto
  ultimately show ?thesis unfolding reusable_def by blast
qed

text \<open>On the wire: what was sent on such a stream is exactly the frames of the requests answered on it.\<close>

lemma write_all_ok: "write_all bs s = (s', Inr ()) \<Longrightarrow> du_output s' = du_output s @ bs"
  by (auto simp: write_all_def split: option.splits if_splits)

lemma write_frame_ok:
  assumes "write_frame codec format x s = (s', Inr ())"
  shows "\<exists>body. wire_encode codec format x = Inr body \<and> fits_frame body
    \<and> du_output s' = du_output s @ frame_bytes format body"
proof (cases "wire_encode codec format x")
  case (Inr body)
  then have fits: "fits_frame body"
    using assms fits_frame_iff [of body] by (auto simp: write_frame_def Let_def split: if_splits)
  then have "then_io (write_all [wire_tag format] s)
      (\<lambda>_ s. then_io (write_all (to_be_bytes (of_nat (length body))) s)
        (\<lambda>_ s. then_io (write_all body s) (\<lambda>_ s. flush s))) = (s', Inr ())"
    using assms Inr fits_frame_iff [of body] by (simp add: write_frame_def Let_def)
  then have "du_output s' = du_output s @ frame_bytes format body"
    by (auto simp: then_io_def flush_def frame_bytes_def dest!: write_all_ok split: prod.splits sum.splits)
  then show ?thesis using Inr fits by blast
qed (use assms in \<open>simp add: write_frame_def\<close>)

lemma read_frame_output: "du_output (fst (read_frame codec s)) = du_output s"
  by (simp add: read_frame_def read_exact_def then_io_def Let_def split: sum.split)

lemma framed_snoc:
  "framed codec xs bs \<Longrightarrow> wire_encode codec format x = Inr body \<Longrightarrow> fits_frame body \<Longrightarrow>
    framed codec (xs @ [(format, x)]) (bs @ frame_bytes format body)"
  by (induction rule: framed.induct) (auto intro: framed.intros framed_Cons [OF _ _ framed_Nil, simplified])

lemma exchanged_sent:
  "exchanged rq rs format s0 qps s \<Longrightarrow>
    \<exists>bs. framed rq (map (\<lambda>(q, p). (format, q)) qps) bs \<and> du_output s = du_output s0 @ bs"
proof (induction rule: exchanged.induct)
  case exchanged_none
  then show ?case by (auto intro: framed_Nil)
next
  case (exchanged_one qps s q s' p)
  then obtain bs where bs: "framed rq (map (\<lambda>(q, p). (format, q)) qps) bs" "du_output s = du_output s0 @ bs" by blast
  obtain t where t: "write_frame rq format q s = (t, Inr ())" "read_frame rs t = (s', Inr p)"
    using exchanged_one.hyps(2) by (auto simp: exchange_def then_io_def split: prod.splits sum.splits)
  obtain body where "wire_encode rq format q = Inr body" "fits_frame body"
    "du_output t = du_output s @ frame_bytes format body" using write_frame_ok [OF t(1)] by blast
  moreover have "du_output s' = du_output t" using read_frame_output [of rs t] t(2) by simp
  ultimately show ?case using bs framed_snoc [OF bs(1)]
    by (intro exI [of _ "bs @ frame_bytes format body"]) simp
qed

section \<open>The life of a connection\<close>

text \<open>
  The states a connection reaches by calls, cancelled calls and events of its monitor, in any order
  and whatever the failure table and the outside world are at each of them.  A probe's stream comes from
  the dialer, like those of the calls.
\<close>

inductive conn_reach ::
    "'w transport_ops \<Rightarrow> ('ae, 'v, 'is) WireRequest wire_codec \<Rightarrow> ('ar, 'vr, 'ir, 'e, 'ie) WireResponse wire_codec \<Rightarrow>
     DialerRaftConnection \<Rightarrow> bool"
  for ops rq rs where
  conn_new: "conn_reach ops rq rs (factory_new_client target addr factory)"
| conn_call: "conn_reach ops rq rs self \<Longrightarrow>
    transport_call ops rq rs request self health w = (self', health', w', result) \<Longrightarrow> conn_reach ops rq rs self'"
| conn_cancel: "conn_reach ops rq rs self \<Longrightarrow> conn_reach ops rq rs (fst (cancel_call observed self health))"
| conn_idle: "conn_reach ops rq rs self \<Longrightarrow> connection_idle now event self health = Some (self', health') \<Longrightarrow>
    \<forall>stream. event = ProbeDialed (Inr stream) \<longrightarrow> (\<exists>w w'. to_dial ops (dc_addr self) w = (w', Inr stream)) \<Longrightarrow>
    conn_reach ops rq rs self'"

text \<open>The invariant: one owner of at most one stream, and that stream can be used again.\<close>

definition conn_ok ::
    "'w transport_ops \<Rightarrow> ('ae, 'v, 'is) WireRequest wire_codec \<Rightarrow> ('ar, 'vr, 'ir, 'e, 'ie) WireResponse wire_codec \<Rightarrow>
     DialerRaftConnection \<Rightarrow> bool" where
  "conn_ok ops rq rs self \<longleftrightarrow> (dc_stream self = None \<or> dc_idle self = None)
     \<and> (\<forall>stream. held_stream self = Some stream \<longrightarrow> reusable ops (dc_addr self) rq rs (dc_format self) stream)"

definition conn_empty :: "DialerRaftConnection \<Rightarrow> bool" where
  "conn_empty self \<longleftrightarrow> dc_stream self = None \<and> dc_idle self = None"

lemma conn_empty_ok [simp]: "conn_empty self \<Longrightarrow> conn_ok ops rq rs self" "conn_empty self \<Longrightarrow> held_stream self = None"
  by (simp_all add: conn_empty_def conn_ok_def held_stream_def)

text \<open>How one attempt ends: what \<open>try_call\<close> and the verification both promise.\<close>

definition attempt ::
    "'w transport_ops \<Rightarrow> ('ae, 'v, 'is) WireRequest wire_codec \<Rightarrow> ('ar, 'vr, 'ir, 'e, 'ie) WireResponse wire_codec \<Rightarrow>
     ('ae, 'v, 'is) WireRequest \<Rightarrow> DialerRaftConnection \<Rightarrow> DialerRaftConnection \<Rightarrow>
     (io_error, ('ar, 'vr, 'ir, 'e, 'ie) WireResponse) result \<Rightarrow> bool" where
  "attempt ops rq rs request self self' result \<longleftrightarrow>
     dc_target self' = dc_target self \<and> dc_addr self' = dc_addr self \<and> dc_format self' = dc_format self
     \<and> (case result of
          Inl error \<Rightarrow> conn_empty self'
        | Inr response \<Rightarrow> dc_idle self' = None
            \<and> (\<exists>stream stream'. reusable ops (dc_addr self) rq rs (dc_format self) stream
                 \<and> exchange rq rs (dc_format self) request stream = (stream', Inr response)
                 \<and> dc_stream self' = (if answered request response then Some stream' else None)))"

lemma try_call_attempt:
  assumes dial: "dials_unused ops" and ok: "conn_ok ops rq rs self"
    and t: "try_call ops rq rs request self w = (self', w', result)"
  shows "attempt ops rq rs request self self' result"
proof -
  define start where "start = (case held_stream self of Some stream \<Rightarrow> (w, Inr stream)
    | None \<Rightarrow> to_dial ops (dc_addr self) w)"
  obtain w1 started where s: "start = (w1, started)" by fastforce
  have clean: "reusable ops (dc_addr self) rq rs (dc_format self) stream" if "started = Inr stream" for stream
  proof (cases "held_stream self")
    case None
    then show ?thesis using s that dialed_reusable [OF dial] by (simp add: start_def)
  qed (use s that ok in \<open>simp add: start_def conn_ok_def\<close>)
  note t' = t [unfolded try_call_def Let_def start_def [symmetric] s]
  show ?thesis
  proof (cases started)
    case (Inl error)
    then show ?thesis using t' by (auto simp: attempt_def conn_empty_def)
  next
    case (Inr stream)
    obtain stream' answer where e: "exchange rq rs (dc_format self) request stream = (stream', answer)" by fastforce
    show ?thesis
    proof (cases answer)
      case (Inl error)
      then show ?thesis using t' \<open>started = Inr stream\<close> e by (auto simp: attempt_def conn_empty_def)
    next
      case (Inr response)
      have "\<exists>stream stream'. reusable ops (dc_addr self) rq rs (dc_format self) stream
          \<and> exchange rq rs (dc_format self) request stream = (stream', Inr response)
          \<and> dc_stream self' = (if answered request response then Some stream' else None)"
        using t' \<open>started = Inr stream\<close> e Inr clean
        by (intro exI [of _ stream] exI [of _ stream']) (auto simp: answered_def)
      moreover have "dc_idle self' = None" "result = Inr response" "dc_target self' = dc_target self"
          "dc_addr self' = dc_addr self" "dc_format self' = dc_format self"
        using t' \<open>started = Inr stream\<close> e Inr by (auto split: if_splits)
      ultimately show ?thesis by (simp add: attempt_def)
    qed
  qed
qed

lemma verify_call_attempt:
  assumes "dials_unused ops" "conn_ok ops rq rs self" "verify_call ops rq rs request self w = (self', w', result)"
  shows "attempt ops rq rs request self self' result"
proof (cases "to_verify_times_out ops w")
  case None
  then show ?thesis using assms(3) try_call_attempt [OF assms(1,2)] by (simp add: verify_call_def)
qed (use assms(3) in \<open>auto simp: verify_call_def attempt_def conn_empty_def\<close>)

lemma observe_success_clears: "bt_get (ph_failures (observe peer (Inr x) now health)) peer = None"
  by (simp add: observe_def health_record_def record_failures_def bt_get_remove)

lemma park_attempt:
  assumes "attempt ops rq rs request self self' (Inr response)"
  shows "\<exists>stream stream'. reusable ops (dc_addr self) rq rs (dc_format self) stream
      \<and> exchange rq rs (dc_format self) request stream = (stream', Inr response)
      \<and> held_stream (park_idle_stream health self') = (if answered request response then Some stream' else None)"
    "conn_ok ops rq rs (park_idle_stream health self')" "dc_format (park_idle_stream health self') = dc_format self"
proof -
  obtain s s' where s: "reusable ops (dc_addr self) rq rs (dc_format self) s" "exchange rq rs (dc_format self) request s = (s', Inr response)"
    "dc_stream self' = (if answered request response then Some s' else None)" "dc_idle self' = None"
    "dc_format self' = dc_format self" "dc_addr self' = dc_addr self" using assms by (auto simp: attempt_def)
  have h: "held_stream (park_idle_stream health self') = dc_stream self'"
    "dc_stream (park_idle_stream health self') = None \<or> dc_idle (park_idle_stream health self') = None"
    "dc_format (park_idle_stream health self') = dc_format self'" "dc_addr (park_idle_stream health self') = dc_addr self'"
    using s(4) by (auto simp: park_idle_stream_def held_stream_def split: option.splits)
  show "\<exists>stream stream'. reusable ops (dc_addr self) rq rs (dc_format self) stream
      \<and> exchange rq rs (dc_format self) request stream = (stream', Inr response)
      \<and> held_stream (park_idle_stream health self') = (if answered request response then Some stream' else None)"
    using s(1,2,3) h(1) by (intro exI [of _ s] exI [of _ s']) simp
  show "conn_ok ops rq rs (park_idle_stream health self')" "dc_format (park_idle_stream health self') = dc_format self"
    using h s answered_reusable [OF s(1,2)] by (auto simp: conn_ok_def split: if_splits)
qed

text \<open>How a call ends.\<close>

lemma transport_call_ends:
  assumes dial: "dials_unused ops" and ok: "conn_ok ops rq rs self"
    and t: "transport_call ops rq rs request self health w = (self', health', w', outcome)"
  obtains (failed) message where "outcome = Inl message" "conn_empty self'"
  | (replied) response self1 where "outcome = Inr response" "attempt ops rq rs request self self1 (Inr response)"
      "self' = park_idle_stream health' self1" "bt_get (ph_failures health') (dc_target self) = None"
proof -
  obtain self1 w1 result1 where t1: "try_call ops rq rs request self w = (self1, w1, result1)" by (metis prod_cases3)
  note a1 = try_call_attempt [OF dial ok t1]
  show ?thesis
  proof (cases result1)
    case (Inr response)
    then show ?thesis using t t1 a1
      by (intro replied [of response self1]) (auto simp: transport_call_def Let_def observe_success_clears)
  next
    case (Inl error)
    then have empty: "conn_empty self1" using a1 by (simp add: attempt_def)
    obtain self2 w2 result2 where t2: "verify_call ops rq rs request self1 w1 = (self2, w2, result2)" by (metis prod_cases3)
    note a2 = verify_call_attempt [OF dial conn_empty_ok(1) [OF empty] t2]
    show ?thesis
    proof (cases "explicit_failure (ie_kind error)")
      case False
      then show ?thesis using t t1 Inl empty
        by (intro failed [of "ie_message error"]) (auto simp: transport_call_def Let_def conn_empty_def)
    next
      case True
      show ?thesis
      proof (cases result2)
        case (Inl error2)
        then show ?thesis using t t1 t2 \<open>result1 = Inl error\<close> True a2
          by (intro failed [of "ie_message error2"])
            (auto simp: transport_call_def Let_def conn_empty_def attempt_def)
      next
        case (Inr response)
        have "attempt ops rq rs request self self2 (Inr response)" using a1 a2 Inr by (simp add: attempt_def)
        then show ?thesis using t t1 t2 \<open>result1 = Inl error\<close> True Inr
          by (intro replied [of response self2]) (auto simp: transport_call_def Let_def observe_success_clears)
      qed
    qed
  qed
qed

lemma connection_idle_ok:
  assumes dial: "dials_unused ops" and ok: "conn_ok ops rq rs self"
    and step: "connection_idle now event self health = Some (self', health')"
    and fresh: "\<forall>stream. event = ProbeDialed (Inr stream) \<longrightarrow> (\<exists>w w'. to_dial ops (dc_addr self) w = (w', Inr stream))"
  shows "conn_ok ops rq rs self'"
proof -
  obtain task task' where task: "dc_idle self = Some task" "self' = self\<lparr>dc_idle := Some task'\<rparr>"
    "idle_step (dc_target self) now event task health = Some (task', health')"
    using step by (auto simp: connection_idle_def split: option.splits)
  have "reusable ops (dc_addr self) rq rs (dc_format self) stream" if "idle_acquire task' = Some stream" for stream
    using task(3) that fresh
    by (cases "(event, task)" rule: prod.exhaust; cases event; cases task)
      (auto simp: idle_read_returned_def idle_probe_dialed_def dest: dialed_reusable [OF dial] split: sum.splits option.splits if_splits)
  then show ?thesis using ok task(1,2) by (simp add: conn_ok_def held_stream_def)
qed

lemma conn_reach_ok:
  assumes dial: "dials_unused ops" and "conn_reach ops rq rs self"
  shows "conn_ok ops rq rs self"
  using assms(2)
proof (induction rule: conn_reach.induct)
  case (conn_new target addr factory)
  show ?case by (simp add: factory_new_client_def conn_empty_def)
next
  case (conn_call self request health w self' health' w' outcome)
  from dial conn_call.IH conn_call.hyps(2) show ?case
    by (rule transport_call_ends) (simp_all add: park_attempt(2))
next
  case (conn_cancel self observed health)
  show ?case by (simp add: cancel_call_def conn_empty_def)
next
  case (conn_idle self now event health self' health')
  then show ?case using connection_idle_ok [OF dial] by blast
qed

section \<open>Properties\<close>

text \<open>
  C31. A late reply never answers another request.  Whatever calls, cancelled calls and monitor events a
  connection has been through, it holds at most one stream, in hand or with the monitor, and that stream
  is one the dialer returned for the peer's address on which every request so far got its own complete
  answer of its kind and nothing else was sent or read, so no reply is still to come.  A call that returns
  a response read it from such a stream right after its own request, cleared the peer's failure record
  and keeps the stream exactly if the response was of the kind asked for and not fatal; after a failed call
  nothing is held, and the next one dials.
\<close>

theorem replies_never_cross:
  assumes "dials_unused ops" "conn_reach ops rq rs self"
  shows "(dc_stream self = None \<or> dc_idle self = None)
    \<and> (\<forall>stream. held_stream self = Some stream \<longrightarrow> reusable ops (dc_addr self) rq rs (dc_format self) stream)
    \<and> (case transport_call ops rq rs request self health w of
         (self', health', w', Inl message) \<Rightarrow> dc_stream self' = None \<and> dc_idle self' = None
       | (self', health', w', Inr response) \<Rightarrow>
           bt_get (ph_failures health') (dc_target self) = None
           \<and> (\<exists>stream stream'. reusable ops (dc_addr self) rq rs (dc_format self) stream
                \<and> exchange rq rs (dc_format self) request stream = (stream', Inr response)
                \<and> held_stream self' =
                    (if matching_response request response \<and> \<not> fatal_response response
                     then Some stream' else None)))"
proof -
  note ok = conn_reach_ok [OF assms]
  obtain self' health' w' outcome where t: "transport_call ops rq rs request self health w = (self', health', w', outcome)"
    using prod_cases4 by blast
  from assms(1) ok t show ?thesis
  proof (rule transport_call_ends)
    fix message
    assume "outcome = Inl message" "conn_empty self'"
    then show ?thesis using ok t by (simp add: conn_ok_def conn_empty_def)
  next
    fix response self1
    assume "outcome = Inr response" "attempt ops rq rs request self self1 (Inr response)"
      "self' = park_idle_stream health' self1" "bt_get (ph_failures health') (dc_target self) = None"
    then show ?thesis using ok t park_attempt(1) [of ops rq rs request self self1 response health']
      by (simp add: conn_ok_def answered_def)
  qed
qed

text \<open>
  The loss of an idle peer is reported without another call.  When the watched stream of a parked
  connection ends or breaks, the stream is given up and the peer is in the failure table at once,
  with the kind of the loss and one attempt more than before; a probe that reaches the peer or times out
  adds nothing, and hands the fresh stream to the next call or nothing; a refused probe counts once more.
\<close>

theorem idle_loss_reported:
  assumes parked: "dc_idle self = Some (IdleReading stream)"
    and lost: "lost = (case result of
        Inr n \<Rightarrow> io_error_new UnexpectedEof ''idle peer closed'' | Inl error \<Rightarrow> error)"
      "result \<in> range Inl \<or> result = Inr 0" "explicit_failure (ie_kind lost)"
    and room: "bt_contains_key (ph_failures health) (dc_target self) \<or> bt_len (ph_failures health) < max_observed_peers"
  defines "attempts \<equiv> (\<lambda>h. case bt_get (ph_failures h) (dc_target self) of Some f \<Rightarrow> pf_attempts f | None \<Rightarrow> 0)"
  shows "\<exists>self1 health1 failure. connection_idle now (ReadReturned result) self health = Some (self1, health1)
    \<and> held_stream self1 = None \<and> bt_get (ph_failures health1) (dc_target self) = Some failure
    \<and> pf_kind failure = ie_kind lost \<and> pf_latest failure = now
    \<and> attempts health1 = u64_saturating_add1 (attempts health)
    \<and> connection_idle later ProbeTimedOut self1 health1 = Some (self1\<lparr>dc_idle := Some (IdleFinished None)\<rparr>, health1)
    \<and> connection_idle later (ProbeDialed (Inr fresh)) self1 health1
        = Some (self1\<lparr>dc_idle := Some (IdleFinished (Some fresh))\<rparr>, health1)
    \<and> (explicit_failure (ie_kind error) \<longrightarrow> (\<exists>health2.
         connection_idle later (ProbeDialed (Inl error)) self1 health1
           = Some (self1\<lparr>dc_idle := Some (IdleFinished None)\<rparr>, health2)
         \<and> attempts health2 = u64_saturating_add1 (attempts health1)))"
proof -
  have counted: "\<exists>f. bt_get (ph_failures (observe (dc_target self) (Inl e :: (io_error, unit) result) t h)) (dc_target self) = Some f
      \<and> pf_kind f = ie_kind e \<and> pf_latest f = t \<and> pf_attempts f = u64_saturating_add1 (attempts h)"
    if "explicit_failure (ie_kind e)"
      "bt_contains_key (ph_failures h) (dc_target self) \<or> bt_len (ph_failures h) < max_observed_peers" for e t h
    using that by (auto simp: observe_def health_record_def record_failures_def Let_def attempts_def bt_get_insert
        split: option.split)
  let ?h = "observe (dc_target self) (Inl lost :: (io_error, unit) result) now health"
  have first: "connection_idle now (ReadReturned result) self health = Some (self\<lparr>dc_idle := Some IdleProbing\<rparr>, ?h)"
    using parked lost by (auto simp: connection_idle_def idle_read_returned_def)
  obtain f where f: "bt_get (ph_failures ?h) (dc_target self) = Some f" "pf_kind f = ie_kind lost" "pf_latest f = now"
    "pf_attempts f = u64_saturating_add1 (attempts health)" using counted [OF lost(3) room] by blast
  have "bt_contains_key (ph_failures ?h) (dc_target self)" using f(1) by (simp add: bt_contains_key_def)
  then have again: "explicit_failure (ie_kind error) \<Longrightarrow>
      attempts (observe (dc_target self) (Inl error :: (io_error, unit) result) later ?h)
        = u64_saturating_add1 (attempts ?h)" for error
    using counted [of error ?h later] by (auto simp: attempts_def)
  show ?thesis
    using first f again by (intro exI [of _ "self\<lparr>dc_idle := Some IdleProbing\<rparr>"] exI [of _ ?h] exI [of _ f])
      (simp add: held_stream_def connection_idle_def idle_probe_dialed_def attempts_def)
qed

section \<open>Witnesses\<close>

text \<open>A peer that answers one vote on every connection and then closes it.\<close>

definition one_answer :: duplex where
  "one_answer = quiet (frame_bytes Json ''x'')"

definition demo_ops :: "nat transport_ops" where
  "demo_ops = \<lparr>to_dial = (\<lambda>addr w. (w + 1, Inr one_answer)), to_now = id, to_verify_times_out = (\<lambda>w. None)\<rparr>"

lemma demo_dials: "dials_unused demo_ops"
  by (simp add: dials_unused_def demo_ops_def unused_def one_answer_def quiet_def)

lemma demo_exchange:
  "exchange demo_requests demo_responses MessagePack (ReqVote 4) one_answer
     = (one_answer\<lparr>du_input := [], du_output := frame_bytes MessagePack ''x''\<rparr>, Inr (RespVote (Inr 4)))"
proof -
  have q: "wire_encode demo_requests MessagePack (ReqVote 4) = Inr ''x''" by (simp add: demo_requests_def)
  have w: "write_frame demo_requests MessagePack (ReqVote 4) one_answer
      = (one_answer\<lparr>du_output := frame_bytes MessagePack ''x''\<rparr>, Inr ())"
    using write_frame_healthy [OF q, of one_answer] by (simp add: one_answer_def quiet_def short_fits)
  have d: "wire_decode demo_responses Json ''x'' = Inr (RespVote (Inr 4))"
    by (simp add: demo_responses_def two_point_def wire_decode_def Let_def)
  show ?thesis
    using read_frame_bytes [OF short_fits(1), of "one_answer\<lparr>du_output := frame_bytes MessagePack ''x''\<rparr>" Json "[]" demo_responses]
    by (simp add: exchange_def w d) (simp add: one_answer_def quiet_def)
qed

definition demo_parked :: DialerRaftConnection where
  "demo_parked = (factory_new_client 2 ''b:1'' DialerNetworkFactory_default)\<lparr>dc_idle :=
     Some (IdleReading (one_answer\<lparr>du_input := [], du_output := frame_bytes MessagePack ''x''\<rparr>))\<rparr>"

definition watching :: PeerHealth where
  "watching = set_monitor_idle True PeerHealth_default"

lemma demo_first_call:
  "transport_call demo_ops demo_requests demo_responses (ReqVote 4)
     (factory_new_client 2 ''b:1'' DialerNetworkFactory_default) watching 0
   = (demo_parked, observe 2 (Inr () :: (io_error, unit) result) 1 watching, 1, Inr (RespVote (Inr 4)))"
  by (simp add: transport_call_def try_call_def Let_def held_stream_def factory_new_client_def demo_ops_def
      DialerNetworkFactory_default_def WireFormat_default_def demo_exchange fatal_response_def matching_response_def
      park_idle_stream_def monitor_idle_def watching_def set_monitor_idle_def observe_def health_record_def
      record_failures_def demo_parked_def)

theorem replies_never_cross_witness:
  "conn_reach demo_ops demo_requests demo_responses demo_parked
   \<and> (\<exists>stream. held_stream demo_parked = Some stream \<and> du_output stream \<noteq> []
        \<and> reusable demo_ops ''b:1'' demo_requests demo_responses MessagePack stream)"
proof -
  have r: "conn_reach demo_ops demo_requests demo_responses demo_parked"
    by (rule conn_call [OF conn_new demo_first_call])
  then show ?thesis using replies_never_cross [OF demo_dials r]
    by (simp add: demo_parked_def held_stream_def factory_new_client_def DialerNetworkFactory_default_def
        WireFormat_default_def frame_bytes_def)
qed

text \<open>The peer closes the parked stream: the loss is reported, the probe's stream is used by the next call.\<close>

theorem idle_loss_reported_witness:
  "\<exists>self1 health1 failure. connection_idle 5 (ReadReturned (Inr 0)) demo_parked watching = Some (self1, health1)
     \<and> bt_get (ph_failures health1) 2 = Some failure \<and> pf_kind failure = UnexpectedEof \<and> pf_latest failure = 5"
proof -
  let ?lost = "io_error_new UnexpectedEof ''idle peer closed''"
  have parked: "dc_idle demo_parked
      = Some (IdleReading (one_answer\<lparr>du_input := [], du_output := frame_bytes MessagePack ''x''\<rparr>))"
    and target: "dc_target demo_parked = 2" by (simp_all add: demo_parked_def factory_new_client_def)
  have explicit: "explicit_failure (ie_kind ?lost)" by (simp add: io_error_new_def explicit_failure_def)
  have room: "bt_len (ph_failures watching) < max_observed_peers"
    by (simp add: watching_def set_monitor_idle_def PeerHealth_default_def max_observed_peers_def bt_len_def)
  obtain self1 health1 failure where "connection_idle 5 (ReadReturned (Inr 0)) demo_parked watching = Some (self1, health1)"
    "bt_get (ph_failures health1) 2 = Some failure" "pf_kind failure = ie_kind ?lost" "pf_latest failure = 5"
    using idle_loss_reported [OF parked _ _ explicit, of "Inr 0" watching 5 6 one_answer ?lost] room target by auto
  then show ?thesis by (auto simp: io_error_new_def)
qed

end
