(* ===== verification/Raft_Node.thy ===== *)
theory Raft_Node
  imports State_Machine Log_Store Wal_Store Peer_Connection
begin

text \<open>
  The runtime node of \<^verbatim>\<open>openraft_runtime/node.rs\<close>: the submission of commands and the mapping of
  their outcomes, the guarded controller iteration with its retries, the constructors over the
  durable storage, the bootstrap warning loop, the leader watch, topology and telemetry.

  The consensus engine is the record \<open>raft_engine\<close> of the calls the node makes, over the engine's
  state \<open>'r\<close> and the state machine it shares with the node: a call may apply entries of other writers
  before and after its own.  What the theorems rely on is stated as \<open>linearized\<close>, over the
  log the engine's state determines.
\<close>

section \<open>The engine\<close>

record 'lid RaftMetrics =
  rm_running :: bool
  rm_current_leader :: "u64 option"
  rm_last_applied :: "'lid LogId option"
  rm_snapshot :: "'lid LogId option"
  rm_voters :: "u64 list"
  rm_learners :: "u64 list"
  rm_nodes :: "(u64 \<times> string) list"

record ('lid, 'm, 'r) raft_engine =
  re_client_write :: "MetadataRaftCommand \<Rightarrow> 'r \<times> ('lid, 'm) GanglionStateMachine \<Rightarrow>
    ('r \<times> ('lid, 'm) GanglionStateMachine) \<times> (ClientWriteError, MetadataRaftResponse) result"
  re_initialize :: "(u64, string) btree \<Rightarrow> 'r \<times> ('lid, 'm) GanglionStateMachine \<Rightarrow>
    ('r \<times> ('lid, 'm) GanglionStateMachine) \<times> (string, unit) result"
  re_metrics :: "'r \<Rightarrow> 'lid RaftMetrics"
  re_current_leader :: "'r \<Rightarrow> u64 option"
  re_ensure_linearizable :: "'r \<times> ('lid, 'm) GanglionStateMachine \<Rightarrow>
    ('r \<times> ('lid, 'm) GanglionStateMachine) \<times> (string, unit) result"
  re_wait :: "nat \<Rightarrow> ('lid RaftMetrics \<Rightarrow> bool) \<Rightarrow> 'r \<times> ('lid, 'm) GanglionStateMachine \<Rightarrow>
    ('r \<times> ('lid, 'm) GanglionStateMachine) \<times> (string, 'lid RaftMetrics) result"
  re_add_learner :: "u64 \<Rightarrow> string \<Rightarrow> bool \<Rightarrow> 'r \<times> ('lid, 'm) GanglionStateMachine \<Rightarrow>
    ('r \<times> ('lid, 'm) GanglionStateMachine) \<times> (ClientWriteError, unit) result"
  re_change_membership :: "u64 btset \<Rightarrow> bool \<Rightarrow> 'r \<times> ('lid, 'm) GanglionStateMachine \<Rightarrow>
    ('r \<times> ('lid, 'm) GanglionStateMachine) \<times> (ClientWriteError, unit) result"
  re_shutdown :: "'r \<times> ('lid, 'm) GanglionStateMachine \<Rightarrow>
    ('r \<times> ('lid, 'm) GanglionStateMachine) \<times> (string, unit) result"

section \<open>The node\<close>

record ('lid, 'm, 'r) RaftMetadataNode =
  rn_id :: u64
  rn_raft :: 'r
  rn_state_machine :: "('lid, 'm) GanglionStateMachine"
  rn_log_telemetry :: "StorageTelemetry option"
  rn_peer_health :: PeerHealth
  rn_initialize_called :: bool

definition map_membership_error :: "ClientWriteError \<Rightarrow> OpenraftAdapterError" where
  "map_membership_error error =
     (if cw_forward_to_leader error \<noteq> None then NotLeader else Storage (cw_message error))"

text \<open>A call of the engine on the node's two shared parts, with its error mapped.\<close>

definition engine_call ::
    "('r \<times> ('lid, 'm) GanglionStateMachine \<Rightarrow> ('r \<times> ('lid, 'm) GanglionStateMachine) \<times> ('e, 'a) result) \<Rightarrow>
     ('e \<Rightarrow> OpenraftAdapterError) \<Rightarrow> ('a \<Rightarrow> 'b) \<Rightarrow> ('lid, 'm, 'r) RaftMetadataNode \<Rightarrow>
     ('lid, 'm, 'r) RaftMetadataNode \<times> (OpenraftAdapterError, 'b) result" where
  "engine_call call map_err f self =
     (case call (rn_raft self, rn_state_machine self) of
        ((raft, sm), result) \<Rightarrow>
          (self\<lparr>rn_raft := raft, rn_state_machine := sm\<rparr>,
           case result of Inl error \<Rightarrow> Inl (map_err error) | Inr x \<Rightarrow> Inr (f x)))"

definition initialize ::
    "('lid, 'm, 'r) raft_engine \<Rightarrow> (u64, string) btree \<Rightarrow> ('lid, 'm, 'r) RaftMetadataNode \<Rightarrow>
     ('lid, 'm, 'r) RaftMetadataNode \<times> (OpenraftAdapterError, unit) result" where
  "initialize engine members self =
     engine_call (re_initialize engine members) Config (\<lambda>x. x) (self\<lparr>rn_initialize_called := True\<rparr>)"

definition submit_command ::
    "('lid, 'm, 'r) raft_engine \<Rightarrow> MetadataRaftCommand \<Rightarrow> ('lid, 'm, 'r) RaftMetadataNode \<Rightarrow>
     ('lid, 'm, 'r) RaftMetadataNode \<times> (OpenraftAdapterError, MetadataRaftResponse) result" where
  "submit_command engine command self =
     (case engine_call (re_client_write engine command) map_membership_error (\<lambda>x. x) self of
        (self', Inl error) \<Rightarrow> (self', Inl error)
      | (self', Inr response) \<Rightarrow>
          (self',
           case mr_rejection response of
             None \<Rightarrow> Inr response
           | Some StaleGeneration \<Rightarrow> Inl StaleGenerationError
           | Some (GenerationMismatch expected actual) \<Rightarrow> Inl (GenerationMismatchError expected actual)
           | Some (AttributeMismatch key actual) \<Rightarrow> Inl (AttributeMismatchError key actual)))"

definition write_snapshot where
  "write_snapshot engine snapshot self = submit_command engine (ApplySnapshot snapshot) self"

definition write_snapshot_guarded where
  "write_snapshot_guarded engine expected_generation snapshot self =
     submit_command engine (ApplySnapshotGuarded expected_generation snapshot) self"

definition node_register_node where
  "node_register_node engine info self = submit_command engine (RegisterNode info) self"

definition node_deregister_node where
  "node_deregister_node engine node_id self = submit_command engine (DeregisterNode node_id) self"

definition submit_merge where
  "submit_merge engine command self = submit_command engine command self"

definition node_register_resource where
  "node_register_resource engine resource self = submit_command engine (RegisterResource resource) self"

definition node_deregister_resource where
  "node_deregister_resource engine resource self = submit_command engine (DeregisterResource resource) self"

definition node_set_attribute where
  "node_set_attribute engine key v self = submit_command engine (SetAttribute key v) self"

definition node_compare_and_set_attribute where
  "node_compare_and_set_attribute engine key expected v self =
     submit_command engine (CompareAndSetAttribute key expected v) self"

definition node_remove_attribute where
  "node_remove_attribute engine key self = submit_command engine (RemoveAttribute key) self"

definition node_read_committed :: "('lid, 'm, 'r) RaftMetadataNode \<Rightarrow> (CoordinationSnapshot \<Rightarrow> 'a) \<Rightarrow> 'a" where
  "node_read_committed self read = sm_read_committed (rn_state_machine self) read"

definition node_read_committed_at ::
    "('lid, 'm, 'r) RaftMetadataNode \<Rightarrow> ('lid LogId option \<Rightarrow> CoordinationSnapshot \<Rightarrow> 'a) \<Rightarrow> 'a" where
  "node_read_committed_at self read = sm_read_committed_at (rn_state_machine self) read"

definition node_committed_snapshot :: "('lid, 'm, 'r) RaftMetadataNode \<Rightarrow> CoordinationSnapshot" where
  "node_committed_snapshot self = sm_committed_snapshot (rn_state_machine self)"

definition node_watch_committed :: "('lid, 'm, 'r) RaftMetadataNode \<Rightarrow> CoordinationSnapshot" where
  "node_watch_committed self = sm_watch_committed (rn_state_machine self)"

definition peer_transport_failures :: "('lid, 'm, 'r) RaftMetadataNode \<Rightarrow> (u64, PeerTransportFailure) btree" where
  "peer_transport_failures self = health_subscribe (rn_peer_health self)"

definition set_monitor_idle_peer_connections ::
    "bool \<Rightarrow> ('lid, 'm, 'r) RaftMetadataNode \<Rightarrow> ('lid, 'm, 'r) RaftMetadataNode" where
  "set_monitor_idle_peer_connections enabled self =
     self\<lparr>rn_peer_health := set_monitor_idle enabled (rn_peer_health self)\<rparr>"

section \<open>The controller iteration\<close>

text \<open>The snapshot one attempt proposes for the committed snapshot it read.\<close>

definition desired_snapshot ::
    "(CoordinationSnapshot \<Rightarrow> CoordinationSnapshot) \<Rightarrow> CoordinationSnapshot \<Rightarrow> CoordinationSnapshot" where
  "desired_snapshot plan committed =
     fst (stamp_assignment_epochs committed ((plan committed)\<lparr>cs_generation := cs_generation committed + 1\<rparr>))"

text \<open>
  \<^verbatim>\<open>plan_and_propose_guarded\<close>: the last argument but one counts the retries that are left, so
  the call is made with \<^verbatim>\<open>max_retries\<close>.
\<close>

fun plan_and_propose_guarded ::
    "('lid, 'm, 'r) raft_engine \<Rightarrow> (CoordinationSnapshot \<Rightarrow> CoordinationSnapshot) \<Rightarrow> nat \<Rightarrow>
     ('lid, 'm, 'r) RaftMetadataNode \<Rightarrow>
     ('lid, 'm, 'r) RaftMetadataNode \<times> (OpenraftAdapterError, MetadataRaftResponse) result" where
  "plan_and_propose_guarded engine plan retries self =
     (let committed = node_committed_snapshot self;
          (self', result) =
            write_snapshot_guarded engine (cs_generation committed) (desired_snapshot plan committed) self
      in case (result, retries) of
           (Inl (GenerationMismatchError _ _), Suc n) \<Rightarrow> plan_and_propose_guarded engine plan n self'
         | _ \<Rightarrow> (self', result))"

declare plan_and_propose_guarded.simps [simp del]

section \<open>Leadership, membership and waiting\<close>

definition node_current_leader where
  "node_current_leader engine self = re_current_leader engine (rn_raft self)"

definition raft_is_leader :: "('lid, 'm, 'r) raft_engine \<Rightarrow> ('lid, 'm, 'r) RaftMetadataNode \<Rightarrow> bool" where
  "raft_is_leader engine self \<longleftrightarrow> re_current_leader engine (rn_raft self) = Some (rn_id self)"

definition ensure_linearizable where
  "ensure_linearizable engine = engine_call (re_ensure_linearizable engine) Storage (\<lambda>_. ())"

definition wait_for_leader where
  "wait_for_leader engine leader timeout =
     engine_call (re_wait engine timeout (\<lambda>metrics. rm_current_leader metrics = Some leader)) Config (\<lambda>_. ())"

definition wait_for_any_leader ::
    "('lid, 'm, 'r) raft_engine \<Rightarrow> nat \<Rightarrow> ('lid, 'm, 'r) RaftMetadataNode \<Rightarrow>
     ('lid, 'm, 'r) RaftMetadataNode \<times> (OpenraftAdapterError, u64) result" where
  "wait_for_any_leader engine timeout self =
     (case engine_call (re_wait engine timeout (\<lambda>metrics. rm_current_leader metrics \<noteq> None)) Config (\<lambda>x. x) self of
        (self', Inl error) \<Rightarrow> (self', Inl error)
      | (self', Inr metrics) \<Rightarrow>
          (self', case rm_current_leader metrics of
                    Some leader \<Rightarrow> Inr leader
                  | None \<Rightarrow> Inl (Config ''leader vanished after wait'')))"

definition applied_at_least :: "u64 \<Rightarrow> 'lid RaftMetrics \<Rightarrow> bool" where
  "applied_at_least index metrics \<longleftrightarrow>
     (case rm_last_applied metrics of None \<Rightarrow> False | Some l \<Rightarrow> index \<le> li_index l)"

definition wait_for_applied_index where
  "wait_for_applied_index engine index timeout =
     engine_call (re_wait engine timeout (applied_at_least index)) Config (\<lambda>_. ())"

definition add_learner where
  "add_learner engine node_id addr blocking =
     engine_call (re_add_learner engine node_id addr blocking) map_membership_error (\<lambda>_. ())"

definition change_membership where
  "change_membership engine voters retain =
     engine_call (re_change_membership engine (bs_of_list voters) retain) map_membership_error (\<lambda>_. ())"

definition node_shutdown where
  "node_shutdown engine = engine_call (re_shutdown engine) Storage (\<lambda>x. x)"

text \<open>The task of \<^verbatim>\<open>watch_leader\<close>: the watched value and its number of notifications.\<close>

definition forward_leader :: "u64 option \<Rightarrow> u64 option \<times> nat \<Rightarrow> u64 option \<times> nat" where
  "forward_leader leader st = (leader, if fst st \<noteq> leader then snd st + 1 else snd st)"

definition watch_leader :: "u64 option \<Rightarrow> u64 option list \<Rightarrow> u64 option \<times> nat" where
  "watch_leader initial changes = fold forward_leader changes (initial, 0)"

section \<open>Waiting for the bootstrap node\<close>

definition membership_is_empty :: "'lid RaftMetrics \<Rightarrow> bool" where
  "membership_is_empty metrics \<longleftrightarrow> rm_nodes metrics = []"

definition awaiting_bootstrap :: "'lid RaftMetrics \<Rightarrow> bool \<Rightarrow> bool" where
  "awaiting_bootstrap metrics initialize_called \<longleftrightarrow>
     \<not> initialize_called \<and> rm_running metrics \<and> membership_is_empty metrics"

definition BOOTSTRAP_WAIT_FIRST_WARNING :: nat where
  "BOOTSTRAP_WAIT_FIRST_WARNING = 10"

definition BOOTSTRAP_WAIT_WARNING_INTERVAL :: nat where
  "BOOTSTRAP_WAIT_WARNING_INTERVAL = 30"

text \<open>
  What wakes the loop: the timer, some seconds after the time it was set to, with the metrics and
  the flag of that moment; a change of the metrics; or the end of the metrics channel.
\<close>

datatype 'lid bootstrap_event =
    TimerFires nat "'lid RaftMetrics" bool
  | MetricsChanged "'lid RaftMetrics"
  | MetricsClosed

text \<open>The warnings logged, as the seconds waited, from a loop that started at time 0.\<close>

fun log_while_awaiting_bootstrap :: "nat \<Rightarrow> 'lid RaftMetrics \<Rightarrow> 'lid bootstrap_event list \<Rightarrow> nat list" where
  "log_while_awaiting_bootstrap next_warning current events =
     (if \<not> rm_running current \<or> \<not> membership_is_empty current then []
      else case events of
        [] \<Rightarrow> []
      | TimerFires delay metrics initialize_called # rest \<Rightarrow>
          (if awaiting_bootstrap metrics initialize_called then [next_warning + delay] else [])
          @ log_while_awaiting_bootstrap (next_warning + BOOTSTRAP_WAIT_WARNING_INTERVAL) metrics rest
      | MetricsChanged metrics # rest \<Rightarrow> log_while_awaiting_bootstrap next_warning metrics rest
      | MetricsClosed # _ \<Rightarrow> [])"

declare log_while_awaiting_bootstrap.simps [simp del]

section \<open>Views\<close>

record RaftTopology =
  tp_local_id :: u64
  tp_leader :: "u64 option"
  tp_voters :: "u64 list"
  tp_learners :: "u64 list"
  tp_nodes :: "(u64, string) btree"
  tp_last_applied_index :: "u64 option"
  tp_snapshot_index :: "u64 option"
  tp_committed_generation :: u64

definition topology :: "('lid, 'm, 'r) raft_engine \<Rightarrow> ('lid, 'm, 'r) RaftMetadataNode \<Rightarrow> RaftTopology" where
  "topology engine self =
     (let metrics = re_metrics engine (rn_raft self) in
      \<lparr>tp_local_id = rn_id self, tp_leader = rm_current_leader metrics, tp_voters = rm_voters metrics,
       tp_learners = rm_learners metrics, tp_nodes = bt_of_list (rm_nodes metrics),
       tp_last_applied_index = map_option li_index (rm_last_applied metrics),
       tp_snapshot_index = map_option li_index (rm_snapshot metrics),
       tp_committed_generation = cs_generation (sm_committed_snapshot (rn_state_machine self))\<rparr>)"

definition node_telemetry :: "('lid, 'm, 'r) RaftMetadataNode \<Rightarrow> StorageTelemetrySnapshot" where
  "node_telemetry self =
     (let sm = telemetry_snapshot (gs_telemetry (rn_state_machine self)) in
      case rn_log_telemetry self of
        None \<Rightarrow> sm
      | Some log \<Rightarrow>
          let log = telemetry_snapshot log in
          \<lparr>st_appended_records = st_appended_records log, st_appended_batches = st_appended_batches log,
           st_fsyncs = st_fsyncs log, st_compactions = st_compactions log,
           st_replayed_records_last_open = st_replayed_records_last_open log,
           st_snapshot_persists = st_snapshot_persists sm, st_snapshot_loads = st_snapshot_loads sm\<rparr>)"

section \<open>The engine's configuration\<close>

text \<open>The two fields the code sets, and the engine's defaults for the others.\<close>

record 'c raft_config =
  co_snapshot_logs_since_last :: u64
  co_max_in_snapshot_log_to_keep :: u64
  co_rest :: 'c

definition SNAPSHOT_LOGS_SINCE_LAST :: u64 where
  "SNAPSHOT_LOGS_SINCE_LAST = 256"

definition MAX_IN_SNAPSHOT_LOG_TO_KEEP :: u64 where
  "MAX_IN_SNAPSHOT_LOG_TO_KEEP = 64"

definition default_raft_config ::
    "('c raft_config \<Rightarrow> (string, 'c raft_config) result) \<Rightarrow> 'c \<Rightarrow>
     (OpenraftAdapterError, 'c raft_config) result" where
  "default_raft_config validate defaults =
     (case validate \<lparr>co_snapshot_logs_since_last = SNAPSHOT_LOGS_SINCE_LAST,
                      co_max_in_snapshot_log_to_keep = MAX_IN_SNAPSHOT_LOG_TO_KEEP, co_rest = defaults\<rparr> of
        Inl error \<Rightarrow> Inl (Config error)
      | Inr config \<Rightarrow> Inr config)"

section \<open>Constructors\<close>

text \<open>
  \<open>raft_new\<close> is the library's constructor, with its configuration, on a network factory, a log store
  and a state machine.  The text of a storage error is the library's, so it is the argument
  \<open>show_error\<close>.  The warning task that is spawned beside the node is \<open>log_while_awaiting_bootstrap\<close>
  with \<open>BOOTSTRAP_WAIT_FIRST_WARNING\<close> as its first deadline.
\<close>

definition start_with_network ::
    "(u64 \<Rightarrow> 'net \<Rightarrow> 'ls \<Rightarrow> ('lid, 'm) GanglionStateMachine \<Rightarrow>
        (string, 'r \<times> ('lid, 'm) GanglionStateMachine) result) \<Rightarrow>
     u64 \<Rightarrow> 'net \<Rightarrow> 'ls \<Rightarrow> ('lid, 'm) GanglionStateMachine \<Rightarrow>
     (OpenraftAdapterError, ('lid, 'm, 'r) RaftMetadataNode) result" where
  "start_with_network raft_new node_id network log_store state_machine =
     (case raft_new node_id network log_store state_machine of
        Inl error \<Rightarrow> Inl (Storage error)
      | Inr (raft, sm) \<Rightarrow>
          Inr \<lparr>rn_id = node_id, rn_raft = raft, rn_state_machine = sm, rn_log_telemetry = None,
               rn_peer_health = PeerHealth_default, rn_initialize_called = False\<rparr>)"

text \<open>Starting on the router registers the node's handle.\<close>

definition start_with_storage where
  "start_with_storage raft_new node_id router log_store state_machine =
     (case start_with_network raft_new node_id router log_store state_machine of
        Inl error \<Rightarrow> (router, Inl error)
      | Inr node \<Rightarrow> (router_register node_id (rn_raft node) router, Inr node))"

definition start_with_store where
  "start_with_store raft_new m0 node_id router log_store =
     start_with_storage raft_new node_id router log_store (state_machine_default m0)"

definition start_in_memory where
  "start_in_memory raft_new m0 node_id router =
     start_with_store raft_new m0 node_id router LogStoreInner_default"

text \<open>The files of a durable node's directory, and what fails while they are opened.\<close>

record durable_dir =
  dd_wal :: "wal_file option"
  dd_wal_tmp :: "string option"
  dd_snapshot :: "string option"
  dd_snapshot_tmp :: "string option"

record dir_faults =
  df_create_dir :: "string option"
  df_open_wal :: "open_fault option"
  df_writes :: "write_fault option list"
  df_read_snapshot :: "string option"

definition open_durable_storage ::
    "('lid, 'm, 'vote) wal_codec \<Rightarrow> ('lid, 'm) snapshot_codec \<Rightarrow> 'm \<Rightarrow> (StorageError \<Rightarrow> string) \<Rightarrow>
     dir_faults \<Rightarrow> durable_dir \<Rightarrow>
     (OpenraftAdapterError, ('lid, 'm, 'vote) FileRaftLogStore \<times> ('lid, 'm) GanglionStateMachine) result" where
  "open_durable_storage wcodec scodec m0 show_error faults dir =
     (case df_create_dir faults of
        Some error \<Rightarrow> Inl (Storage error)
      | None \<Rightarrow>
          (case fs_open wcodec (df_open_wal faults) (df_writes faults) (dd_wal dir) (dd_wal_tmp dir) of
             Inl error \<Rightarrow> Inl (Storage (show_error error))
           | Inr log_store \<Rightarrow>
               (case sm_persistent scodec m0 (df_read_snapshot faults) (dd_snapshot dir) (dd_snapshot_tmp dir) of
                  Inl error \<Rightarrow> Inl (Storage (show_error error))
                | Inr state_machine \<Rightarrow> Inr (log_store, state_machine))))"

definition start_durable where
  "start_durable raft_new wcodec scodec m0 show_error faults dir node_id router =
     (case open_durable_storage wcodec scodec m0 show_error faults dir of
        Inl error \<Rightarrow> (router, Inl error)
      | Inr (log_store, state_machine) \<Rightarrow>
          (case start_with_storage raft_new node_id router log_store state_machine of
             (router', Inl error) \<Rightarrow> (router', Inl error)
           | (router', Inr node) \<Rightarrow>
               (router', Inr (node\<lparr>rn_log_telemetry := Some (ww_telemetry (fs_wal log_store))\<rparr>))))"

definition bind_error :: "io_error \<Rightarrow> OpenraftAdapterError" where
  "bind_error error =
     (let hint =
        (if ie_kind error = AddrInUse
         then ''. Another process holds the port. A port inside the operating system's ''
              @ ''ephemeral range can be taken by an outgoing connection while the node is down''
         else [])
      in Config (''could not open the coordination listener: '' @ ie_message error @ hint))"

text \<open>
  \<open>bind\<close> is the outcome of binding the listener and serving the node's handle in the given format,
  with the server's handle as its result.  The factory starts with an empty failure table, and the
  node shares it.
\<close>

definition start_durable_tcp_with_transport where
  "start_durable_tcp_with_transport raft_new bind wcodec scodec m0 show_error faults dir node_id wire_format =
     (case open_durable_storage wcodec scodec m0 show_error faults dir of
        Inl error \<Rightarrow> Inl error
      | Inr (log_store, state_machine) \<Rightarrow>
          (case start_with_network raft_new node_id (with_dialer_format wire_format) log_store state_machine of
             Inl error \<Rightarrow> Inl error
           | Inr node \<Rightarrow>
               let node' = node\<lparr>rn_log_telemetry := Some (ww_telemetry (fs_wal log_store)),
                                rn_peer_health := PeerHealth_default\<rparr> in
               (case bind (rn_raft node') wire_format of
                  Inl error \<Rightarrow> Inl (bind_error error)
                | Inr server \<Rightarrow> Inr (node', server))))"

text \<open>The two shorter forms take the TCP transport, which \<open>raft_new\<close> and \<open>bind\<close> carry.\<close>

definition start_durable_tcp_with_format where
  "start_durable_tcp_with_format raft_new bind wcodec scodec m0 show_error faults dir node_id wire_format =
     start_durable_tcp_with_transport raft_new bind wcodec scodec m0 show_error faults dir node_id wire_format"

definition start_durable_tcp where
  "start_durable_tcp raft_new bind wcodec scodec m0 show_error faults dir node_id =
     start_durable_tcp_with_format raft_new bind wcodec scodec m0 show_error faults dir node_id WireFormat_default"

section \<open>What the engine promises\<close>

text \<open>
  The state and the reply a log determines: every copy of the machine starts from the default state
  and applies the same entries in the same order.
\<close>

definition log_inner :: "'m \<Rightarrow> ('lid, 'm) Entry list \<Rightarrow> ('lid, 'm) StateMachineInner" where
  "log_inner m0 es = run_inner (gs_inner (state_machine_default m0)) es"

definition state_after :: "'m \<Rightarrow> ('lid, 'm) Entry list \<Rightarrow> CoordinationSnapshot" where
  "state_after m0 es = in_state (log_inner m0 es)"

definition reply_after :: "'m \<Rightarrow> ('lid, 'm) Entry list \<Rightarrow> ('lid, 'm) Entry \<Rightarrow> MetadataRaftResponse" where
  "reply_after m0 es entry = fst (snd (apply_entry (log_inner m0 es) entry))"

text \<open>
  \<open>applied_log r\<close> is the committed log up to the entry the local machine has applied last, as the engine's
  state \<open>r\<close> determines it.  The machine is in step with it when its applied position, its membership
  and its state are those of the log; how it came there (entry by entry or from a snapshot), and which
  snapshot it holds, is left open, so the engine may build and install snapshots at any time.
\<close>

definition tracks :: "'m \<Rightarrow> ('r \<Rightarrow> ('lid, 'm) Entry list) \<Rightarrow> 'r \<Rightarrow> ('lid, 'm) GanglionStateMachine \<Rightarrow> bool" where
  "tracks m0 applied_log r sm \<longleftrightarrow> applied_view sm = applied_view (fst (sm_apply (state_machine_default m0) (applied_log r)))"

text \<open>
  The promise of \<^verbatim>\<open>client_write\<close>: the machine stays in step and the applied log only grows, whether the
  call succeeds or not.  A call that returns a response has put one entry with the command into that
  log, behind entries of other writers and in front of more of them, and the response is the machine's
  reply at that place.  Nothing is assumed about what the other writers put there.
\<close>

definition linearized ::
    "'m \<Rightarrow> ('r \<Rightarrow> ('lid, 'm) Entry list) \<Rightarrow> ('lid, 'm, 'r) raft_engine \<Rightarrow> bool" where
  "linearized m0 applied_log engine \<longleftrightarrow> (\<forall>command r sm r' sm' result.
     tracks m0 applied_log r sm \<longrightarrow> re_client_write engine command (r, sm) = ((r', sm'), result) \<longrightarrow>
     tracks m0 applied_log r' sm'
     \<and> (case result of
          Inl _ \<Rightarrow> \<exists>es. applied_log r' = applied_log r @ es
        | Inr response \<Rightarrow> \<exists>before entry rest. en_payload entry = Normal command
            \<and> applied_log r' = applied_log r @ before @ entry # rest
            \<and> response = reply_after m0 (applied_log r @ before) entry))"

lemma tracks_state: "tracks m0 applied_log r sm \<Longrightarrow> in_state (gs_inner sm) = state_after m0 (applied_log r)"
  by (simp add: tracks_def applied_view_def state_after_def log_inner_def)

lemma log_inner_append: "log_inner m0 (xs @ ys) = run_inner (log_inner m0 xs) ys"
  by (simp add: log_inner_def apply_entries_append)

lemma state_after_Normal:
  "en_payload entry = Normal c \<Longrightarrow> state_after m0 (es @ [entry]) = fst (snd (apply_command (state_after m0 es) c))"
  by (simp add: state_after_def log_inner_append apply_entry_Normal)

lemma reply_after_Normal:
  assumes "en_payload entry = Normal c"
  shows "mr_rejection (reply_after m0 es entry) = fst (apply_command (state_after m0 es) c)"
    and "mr_snapshot (reply_after m0 es entry) = state_after m0 (es @ [entry])"
  using assms by (simp_all add: reply_after_def state_after_def log_inner_append apply_entry_Normal)

lemma linearized_reply:
  assumes "linearized m0 applied_log engine" "tracks m0 applied_log r sm"
    and "re_client_write engine command (r, sm) = ((r', sm'), Inr response)"
  obtains before entry rest where "tracks m0 applied_log r' sm'" "en_payload entry = Normal command"
    "applied_log r' = applied_log r @ before @ entry # rest" "response = reply_after m0 (applied_log r @ before) entry"
  using assms unfolding linearized_def by fastforce

lemma linearized_run:
  assumes "linearized m0 applied_log engine" "tracks m0 applied_log r sm"
    and "re_client_write engine command (r, sm) = ((r', sm'), result)"
  shows "tracks m0 applied_log r' sm' \<and> (\<exists>es. applied_log r' = applied_log r @ es)"
  using assms unfolding linearized_def by (cases result) fastforce+

section \<open>Clients that keep to the protocol\<close>

text \<open>
  A condition on entries of the log: a snapshot is only replaced under a guard and with a greater
  generation, and the generation is not at the 64-bit maximum.  The controller iteration and the merge
  commands keep to it; the public unguarded \<^verbatim>\<open>write_snapshot\<close> does not, since it can replace the state
  without moving the generation, and no generation guard can see that.
\<close>

definition civil :: "MetadataRaftCommand \<Rightarrow> bool" where
  "civil c \<longleftrightarrow> (case c of
     ApplySnapshot _ \<Rightarrow> False
   | ApplySnapshotGuarded g s \<Rightarrow> g < cs_generation s
   | _ \<Rightarrow> True)"

fun civil_history :: "('lid, 'm) StateMachineInner \<Rightarrow> ('lid, 'm) Entry list \<Rightarrow> bool" where
  "civil_history inner [] \<longleftrightarrow> True"
| "civil_history inner (e # es) \<longleftrightarrow>
     (case en_payload e of Normal c \<Rightarrow> civil c | _ \<Rightarrow> True)
     \<and> cs_generation (in_state inner) \<noteq> u64_max \<and> civil_history (fst (apply_entry inner e)) es"

lemma civil_changes:
  assumes "civil c" "apply_command s c = (r, s', True)" "cs_generation s \<noteq> u64_max"
  shows "cs_generation s < cs_generation s'"
  using assms by (cases c) (auto simp: civil_def command_defs Let_def u64_less_succ
      split: if_splits option.splits prod.splits)

lemma erase_labels_generation:
  assumes "erase_labels a = erase_labels b"
  shows "cs_generation a = cs_generation b"
proof -
  have "cs_generation (erase_labels s) = cs_generation s" for s by (simp add: erase_labels_def)
  then show ?thesis using assms by metis
qed

lemma erase_labels_assignments:
  assumes "erase_labels a = erase_labels b"
  shows "assignment_for a = assignment_for b"
proof -
  have "assignment_for (erase_labels s) = assignment_for s" for s
    by (simp add: erase_labels_def assignment_for_def fun_eq_iff)
  then show ?thesis using assms by metis
qed

lemma civil_entry:
  assumes "case en_payload e of Normal c \<Rightarrow> civil c | _ \<Rightarrow> True" "cs_generation (in_state inner) \<noteq> u64_max"
  shows "cs_generation (in_state inner) < cs_generation (in_state (fst (apply_entry inner e)))
    \<or> erase_labels (in_state (fst (apply_entry inner e))) = erase_labels (in_state inner)"
proof (cases "en_payload e")
  case (Normal c)
  obtain r s' ch where a: "apply_command (in_state inner) c = (r, s', ch)" using prod_cases3 by blast
  have "in_state (fst (apply_entry inner e)) = s'" using a Normal by (simp add: apply_entry_Normal)
  then show ?thesis using civil_changes [of c _ r s'] unchanged_labels [of _ c r s'] a assms Normal by (cases ch) auto
qed (simp_all add: apply_entry_other)

lemma civil_run:
  "civil_history inner es \<Longrightarrow>
     cs_generation (in_state inner) \<le> cs_generation (in_state (run_inner inner es))
     \<and> (cs_generation (in_state (run_inner inner es)) = cs_generation (in_state inner) \<longrightarrow>
        erase_labels (in_state (run_inner inner es)) = erase_labels (in_state inner))"
proof (induction es arbitrary: inner)
  case (Cons e es)
  let ?i = "fst (apply_entry inner e)"
  have IH: "cs_generation (in_state ?i) \<le> cs_generation (in_state (run_inner ?i es))"
    "cs_generation (in_state (run_inner ?i es)) = cs_generation (in_state ?i) \<longrightarrow>
        erase_labels (in_state (run_inner ?i es)) = erase_labels (in_state ?i)"
    using Cons.IH [of ?i] Cons.prems by auto
  from Cons.prems have "cs_generation (in_state inner) < cs_generation (in_state ?i)
    \<or> erase_labels (in_state ?i) = erase_labels (in_state inner)"
    using civil_entry [of e inner] by simp
  then show ?case using IH erase_labels_generation [of "in_state ?i" "in_state inner"] by auto
qed simp

text \<open>The reasons for which a command is refused.\<close>

lemma rejection_expected: "fst (apply_command s c) = expected_rejection s c"
  by (cases c) (auto simp: command_defs Let_def expected_rejection_def attribute_rejection_def
      stale_rejection_def split: if_splits option.splits prod.splits)

lemma rejection_reasons:
  "expected_rejection s c = Some (GenerationMismatch e a) \<Longrightarrow>
     guard_generation c = Some e \<and> a = cs_generation s \<and> a \<noteq> e"
  "expected_rejection s c = Some (AttributeMismatch k v) \<Longrightarrow>
     \<exists>e. guard_attribute c = Some (k, e) \<and> v = bt_get (cs_attributes s) k \<and> v \<noteq> e"
  by (auto simp: expected_rejection_def attribute_rejection_def stale_rejection_def
      split: if_splits option.splits prod.splits)

section \<open>One attempt\<close>

lemma submit_command_cases:
  assumes "re_client_write engine c (rn_raft node, rn_state_machine node) = ((r', sm'), result)"
  shows "submit_command engine c node =
    (node\<lparr>rn_raft := r', rn_state_machine := sm'\<rparr>,
     case result of
       Inl error \<Rightarrow> Inl (map_membership_error error)
     | Inr response \<Rightarrow>
         (case mr_rejection response of
            None \<Rightarrow> Inr response
          | Some StaleGeneration \<Rightarrow> Inl StaleGenerationError
          | Some (GenerationMismatch expected actual) \<Rightarrow> Inl (GenerationMismatchError expected actual)
          | Some (AttributeMismatch key actual) \<Rightarrow> Inl (AttributeMismatchError key actual)))"
  using assms by (simp add: submit_command_def engine_call_def split: sum.split)

lemma submit_runs:
  assumes "linearized m0 applied_log engine" "tracks m0 applied_log (rn_raft node) (rn_state_machine node)"
    and "submit_command engine c node = (node', result)"
  shows "tracks m0 applied_log (rn_raft node') (rn_state_machine node')
    \<and> (\<exists>es. applied_log (rn_raft node') = applied_log (rn_raft node) @ es)"
proof -
  obtain r' sm' out where w: "re_client_write engine c (rn_raft node, rn_state_machine node) = ((r', sm'), out)"
    by (metis prod.collapse)
  have "rn_state_machine node' = sm'" "rn_raft node' = r'" using submit_command_cases [OF w] assms(3) by auto
  then show ?thesis using linearized_run [OF assms(1,2) w] by simp
qed

text \<open>A successful submission, at its place in the log.\<close>

lemma submit_accepted:
  assumes "linearized m0 applied_log engine" "tracks m0 applied_log (rn_raft node) (rn_state_machine node)"
    and "submit_command engine c node = (node', Inr response)"
  obtains before entry rest where "en_payload entry = Normal c"
    "applied_log (rn_raft node') = applied_log (rn_raft node) @ before @ entry # rest"
    "fst (apply_command (state_after m0 (applied_log (rn_raft node) @ before)) c) = None"
    "mr_snapshot response = state_after m0 (applied_log (rn_raft node) @ before @ [entry])"
proof -
  obtain r' sm' out where w: "re_client_write engine c (rn_raft node, rn_state_machine node) = ((r', sm'), out)"
    by (metis prod.collapse)
  have out: "out = Inr response" "mr_rejection response = None" "rn_raft node' = r'"
    using submit_command_cases [OF w] assms(3)
    by (auto split: sum.splits option.splits MetadataRejection.splits)
  obtain before entry rest where e: "en_payload entry = Normal c"
    "applied_log r' = applied_log (rn_raft node) @ before @ entry # rest"
    "response = reply_after m0 (applied_log (rn_raft node) @ before) entry"
    using linearized_reply [OF assms(1,2) w [unfolded out(1)]] by blast
  show thesis using that [OF e(1)] e(2,3) out(2,3) reply_after_Normal [OF e(1)] by simp
qed

lemma desired_generation [simp]: "cs_generation (desired_snapshot plan committed) = cs_generation committed + 1"
  by (simp add: desired_snapshot_def)

text \<open>The epochs of \<open>result\<close> follow those of \<open>previous\<close>, resource by resource.\<close>

definition fences :: "CoordinationSnapshot \<Rightarrow> CoordinationSnapshot \<Rightarrow> bool" where
  "fences previous result \<longleftrightarrow> (\<forall>r b. assignment_for result r = Some b \<longrightarrow>
     (case assignment_for previous r of
        None \<Rightarrow> pa_epoch b = 1
      | Some a \<Rightarrow> pa_epoch b = (if pa_owner a = pa_owner b then pa_epoch a else pa_epoch a + 1)))"

lemma desired_epochs:
  assumes "assignment_for committed r = Some a" "assignment_for (desired_snapshot plan committed) r = Some b"
  shows "pa_epoch b = (if pa_owner a = pa_owner b then pa_epoch a else pa_epoch a + 1)"
  using assms by (auto simp: desired_snapshot_def stamp_get next_assignment_epoch_def)

lemma desired_new_epochs:
  assumes "assignment_for committed r = None" "assignment_for (desired_snapshot plan committed) r = Some b"
  shows "pa_epoch b = 1"
  using assms by (auto simp: desired_snapshot_def stamp_get next_assignment_epoch_def)

lemma desired_fences: "fences committed (desired_snapshot plan committed)"
  unfolding fences_def using desired_epochs desired_new_epochs by (fastforce split: option.split)

lemma fences_labels:
  assumes "erase_labels a = erase_labels b"
  shows "fences a s = fences b s"
  by (simp add: fences_def erase_labels_assignments [OF assms])

text \<open>
  What an accepted attempt did: it read the state after \<open>seen\<close>, other writers put \<open>between\<close> behind it,
  and then came the entry of the attempt.
\<close>

definition fenced_commit ::
    "'m \<Rightarrow> (CoordinationSnapshot \<Rightarrow> CoordinationSnapshot) \<Rightarrow> ('lid, 'm) Entry list \<Rightarrow> ('lid, 'm) Entry list \<Rightarrow>
     ('lid, 'm) Entry \<Rightarrow> bool" where
  "fenced_commit m0 plan seen between entry \<longleftrightarrow>
     (let committed = state_after m0 seen; previous = state_after m0 (seen @ between);
          result = state_after m0 (seen @ between @ [entry]) in
      en_payload entry = Normal (ApplySnapshotGuarded (cs_generation committed) (desired_snapshot plan committed))
      \<and> result = desired_snapshot plan committed
      \<and> cs_generation previous = cs_generation committed
      \<and> cs_generation previous < cs_generation result
      \<and> fences committed result
      \<and> (civil_history (log_inner m0 seen) between \<longrightarrow>
           erase_labels previous = erase_labels committed \<and> fences previous result))"

lemma attempt_fenced:
  assumes "linearized m0 applied_log engine" "tracks m0 applied_log (rn_raft node) (rn_state_machine node)"
    and "write_snapshot_guarded engine (cs_generation committed) (desired_snapshot plan committed) node
      = (node', Inr response)"
    and committed: "committed = node_committed_snapshot node"
  shows "\<exists>between entry rest. applied_log (rn_raft node') = applied_log (rn_raft node) @ between @ entry # rest
    \<and> mr_snapshot response = state_after m0 (applied_log (rn_raft node) @ between @ [entry])
    \<and> fenced_commit m0 plan (applied_log (rn_raft node)) between entry"
proof -
  let ?log = "applied_log (rn_raft node)"
  let ?c = "ApplySnapshotGuarded (cs_generation committed) (desired_snapshot plan committed)"
  obtain between entry rest where e: "en_payload entry = Normal ?c"
    "applied_log (rn_raft node') = ?log @ between @ entry # rest"
    "fst (apply_command (state_after m0 (?log @ between)) ?c) = None"
    "mr_snapshot response = state_after m0 (?log @ between @ [entry])"
    using submit_accepted [OF assms(1,2) assms(3) [unfolded write_snapshot_guarded_def]] by blast
  let ?p = "state_after m0 (?log @ between)" and ?q = "state_after m0 (?log @ between @ [entry])"
  have read: "committed = state_after m0 ?log"
    using tracks_state [OF assms(2)] by (simp add: committed node_committed_snapshot_def sm_committed_snapshot_def)
  have same: "cs_generation ?p = cs_generation committed"
    using e(3) by (simp add: generation_guard_def split: if_splits)
  have q: "?q = desired_snapshot plan committed" and room: "cs_generation ?p \<le> cs_generation committed + 1"
    using e(3) same state_after_Normal [OF e(1), of m0 "?log @ between"]
    by (auto simp: generation_guard_def replace_snapshot_def not_less split: if_splits)
  have up: "cs_generation ?p < cs_generation ?q" using room same by (simp add: q less_le)
  have labels: "erase_labels ?p = erase_labels committed" if "civil_history (log_inner m0 ?log) between"
    using civil_run [OF that] same by (simp add: read state_after_def log_inner_append)
  have "fences committed ?q" unfolding q by (rule desired_fences)
  moreover from this have "fences ?p ?q" if "civil_history (log_inner m0 ?log) between"
    using fences_labels [OF labels [OF that]] by simp
  ultimately have "fenced_commit m0 plan ?log between entry"
    using e(1) same up labels q unfolding fenced_commit_def Let_def read by simp
  then show ?thesis using e(2,4) by blast
qed

lemma guarded_run_fenced:
  assumes engine: "linearized m0 applied_log engine"
    and start: "tracks m0 applied_log (rn_raft node) (rn_state_machine node)"
    and run: "plan_and_propose_guarded engine plan retries node = (node', Inr response)"
  shows "\<exists>read between entry rest. applied_log (rn_raft node') = applied_log (rn_raft node) @ read @ between @ entry # rest
    \<and> mr_snapshot response = state_after m0 (applied_log (rn_raft node) @ read @ between @ [entry])
    \<and> fenced_commit m0 plan (applied_log (rn_raft node) @ read) between entry"
  using start run
proof (induction retries arbitrary: node)
  case (0 node)
  let ?c = "node_committed_snapshot node"
  have "write_snapshot_guarded engine (cs_generation ?c) (desired_snapshot plan ?c) node = (node', Inr response)"
    using 0(2) by (auto simp: plan_and_propose_guarded.simps [of engine plan 0 node] Let_def
        split: prod.splits sum.splits OpenraftAdapterError.splits)
  from attempt_fenced [OF engine 0(1) this refl] show ?case by - (rule exI [of _ "[]"], simp)
next
  case (Suc retries node)
  let ?c = "node_committed_snapshot node"
  obtain node1 result where w: "write_snapshot_guarded engine (cs_generation ?c) (desired_snapshot plan ?c) node
      = (node1, result)" by (cases "write_snapshot_guarded engine (cs_generation ?c) (desired_snapshot plan ?c) node")
  consider (again) "plan_and_propose_guarded engine plan retries node1 = (node', Inr response)"
    | (now) "node1 = node'" "result = Inr response"
    using Suc.prems(2) w by (auto simp: plan_and_propose_guarded.simps [of engine plan "Suc retries" node] Let_def
        split: sum.splits OpenraftAdapterError.splits)
  then show ?case
  proof cases
    case again
    obtain es where es: "applied_log (rn_raft node1) = applied_log (rn_raft node) @ es"
      and step: "tracks m0 applied_log (rn_raft node1) (rn_state_machine node1)"
      using submit_runs [OF engine Suc.prems(1) w [unfolded write_snapshot_guarded_def]] by blast
    obtain read between entry rest where
      "applied_log (rn_raft node') = applied_log (rn_raft node1) @ read @ between @ entry # rest"
      "mr_snapshot response = state_after m0 (applied_log (rn_raft node1) @ read @ between @ [entry])"
      "fenced_commit m0 plan (applied_log (rn_raft node1) @ read) between entry"
      using Suc.IH [OF step again] by blast
    then show ?thesis by - (rule exI [of _ "es @ read"], auto simp: es)
  next
    case now
    from attempt_fenced [OF engine Suc.prems(1) w [unfolded now] refl] show ?thesis
      by - (rule exI [of _ "[]"], simp)
  qed
qed

section \<open>Properties\<close>

text \<open>
  C7. The controller iteration is race-safe.  When it succeeds after any number of lost races, its
  entry is in the node's committed log, and the log in front of it splits into what the successful
  attempt had read and what other writers put in between.  The entry proposes the snapshot planned
  from the state after the part read, guarded by that state's generation; the generation was still
  the same right before the entry and is greater after it; the response is the state after the entry; and against
  the state read every resource whose owner changes gets the old epoch plus one, unchanged owners keep
  their epoch and new resources start at 1.  If the entries in between keep to the protocol (snapshots
  only under a guard and with a greater generation, counter not exhausted), the state replaced is the
  state read up to the advisory node labels, and the same epochs hold against it.
\<close>

theorem guarded_iteration_fences:
  assumes engine: "linearized m0 applied_log engine"
    and start: "tracks m0 applied_log (rn_raft node) (rn_state_machine node)"
    and run: "plan_and_propose_guarded engine plan retries node = (node', Inr response)"
  shows "\<exists>read between entry rest. applied_log (rn_raft node') = applied_log (rn_raft node) @ read @ between @ entry # rest
    \<and> mr_snapshot response = state_after m0 (applied_log (rn_raft node) @ read @ between @ [entry])
    \<and> fenced_commit m0 plan (applied_log (rn_raft node) @ read) between entry"
  by (rule guarded_run_fenced [OF engine start run])

text \<open>
  An engine that always commits, with a bound on how often other writers can still get in between:
  a write either loses one of the \<open>rivals\<close> or is the next entry of the log.
\<close>

definition contended ::
    "'m \<Rightarrow> ('r \<Rightarrow> ('lid, 'm) Entry list) \<Rightarrow> ('lid, 'm, 'r) raft_engine \<Rightarrow> ('r \<Rightarrow> nat) \<Rightarrow> bool" where
  "contended m0 applied_log engine rivals \<longleftrightarrow> (\<forall>command r sm. tracks m0 applied_log r sm \<longrightarrow> (\<exists>r' sm' response.
     re_client_write engine command (r, sm) = ((r', sm'), Inr response)
     \<and> (if rivals r = 0
        then \<exists>entry rest. en_payload entry = Normal command \<and> applied_log r' = applied_log r @ entry # rest
          \<and> response = reply_after m0 (applied_log r) entry
        else rivals r' < rivals r)))"

lemma committed_after:
  assumes "tracks m0 applied_log (rn_raft node) (rn_state_machine node)"
  shows "node_committed_snapshot node = state_after m0 (applied_log (rn_raft node))"
  using tracks_state [OF assms] by (simp add: node_committed_snapshot_def sm_committed_snapshot_def)

lemma guarded_rejections:
  "fst (apply_command p (ApplySnapshotGuarded (cs_generation c) (desired_snapshot plan c))) =
     (if cs_generation p \<noteq> cs_generation c then Some (GenerationMismatch (cs_generation c) (cs_generation p))
      else if cs_generation c = u64_max then Some StaleGeneration else None)"
proof -
  have "cs_generation c + 1 < cs_generation c \<longleftrightarrow> cs_generation c = u64_max"
  proof (cases "cs_generation c = u64_max")
    case False
    then have "cs_generation c < cs_generation c + 1" by (simp add: u64_less_succ)
    then show ?thesis using False by (simp add: not_less order.strict_implies_order)
  next
    case True
    have "(0 :: u64) < u64_max" by code_simp
    then show ?thesis by (simp add: True)
  qed
  then show ?thesis by (simp add: generation_guard_def replace_snapshot_def)
qed

lemma attempt_outcome:
  assumes lin: "linearized m0 applied_log engine" and con: "contended m0 applied_log engine rivals"
    and start: "tracks m0 applied_log (rn_raft node) (rn_state_machine node)"
    and c: "c = node_committed_snapshot node"
    and w: "write_snapshot_guarded engine (cs_generation c) (desired_snapshot plan c) node = (node', result)"
  shows "(\<exists>response. result = Inr response)
    \<or> (result = Inl StaleGenerationError \<and> cs_generation c = u64_max)
    \<or> (\<exists>expected actual. result = Inl (GenerationMismatchError expected actual)
        \<and> rivals (rn_raft node') < rivals (rn_raft node))"
proof -
  let ?cmd = "ApplySnapshotGuarded (cs_generation c) (desired_snapshot plan c)"
  obtain r' sm' response where e: "re_client_write engine ?cmd (rn_raft node, rn_state_machine node)
      = ((r', sm'), Inr response)"
    and free: "if rivals (rn_raft node) = 0
        then \<exists>entry rest. en_payload entry = Normal ?cmd \<and> applied_log r' = applied_log (rn_raft node) @ entry # rest
          \<and> response = reply_after m0 (applied_log (rn_raft node)) entry
        else rivals r' < rivals (rn_raft node)"
    using con start unfolding contended_def by blast
  have r': "rn_raft node' = r'" using submit_command_cases [OF e] w by (auto simp: write_snapshot_guarded_def)
  obtain before entry where entry: "en_payload entry = Normal ?cmd"
    "response = reply_after m0 (applied_log (rn_raft node) @ before) entry"
    using linearized_reply [OF lin start e] by metis
  let ?p = "state_after m0 (applied_log (rn_raft node) @ before)"
  have rej: "mr_rejection response = fst (apply_command ?p ?cmd)"
    unfolding entry(2) by (rule reply_after_Normal(1) [OF entry(1)])
  have read: "c = state_after m0 (applied_log (rn_raft node))"
    using tracks_state [OF start] by (simp add: c node_committed_snapshot_def sm_committed_snapshot_def)
  have now: "mr_rejection response = fst (apply_command c ?cmd)" if "rivals (rn_raft node) = 0"
    using free that reply_after_Normal(1) unfolding read by fastforce
  show ?thesis
    using submit_command_cases [OF e] w rej now free r' guarded_rejections [of ?p c plan] guarded_rejections [of c c plan]
    by (cases "rivals (rn_raft node) = 0") (auto simp: write_snapshot_guarded_def split: if_splits)
qed

text \<open>
  C17. The controller iteration makes progress: when the engine commits every write and other writers
  get in between at most as often as retries are allowed, the call succeeds.  The only other end is
  the error for a stale generation, and then the 64-bit generation counter really is exhausted: the
  node's own log, from where it stood at the call, has a point with the maximal generation.
\<close>

theorem guarded_iteration_wins:
  assumes engine: "linearized m0 applied_log engine" "contended m0 applied_log engine rivals"
    and start: "tracks m0 applied_log (rn_raft node) (rn_state_machine node)"
    and bound: "rivals (rn_raft node) \<le> retries"
  shows "case plan_and_propose_guarded engine plan retries node of (node', result) \<Rightarrow>
    (\<exists>response. result = Inr response)
    \<or> result = Inl StaleGenerationError
      \<and> (\<exists>read rest. applied_log (rn_raft node') = applied_log (rn_raft node) @ read @ rest
          \<and> cs_generation (state_after m0 (applied_log (rn_raft node) @ read)) = u64_max)"
  using start bound
proof (induction retries arbitrary: node)
  case (0 node)
  let ?c = "node_committed_snapshot node"
  obtain node1 result where w: "write_snapshot_guarded engine (cs_generation ?c) (desired_snapshot plan ?c) node
      = (node1, result)" by (cases "write_snapshot_guarded engine (cs_generation ?c) (desired_snapshot plan ?c) node")
  obtain es where "applied_log (rn_raft node1) = applied_log (rn_raft node) @ es"
    using submit_runs [OF engine(1) 0(1) w [unfolded write_snapshot_guarded_def]] by blast
  then show ?case using attempt_outcome [OF engine 0(1) refl w] 0(2) w committed_after [OF 0(1)]
    by (auto simp: plan_and_propose_guarded.simps [of engine plan 0 node] Let_def intro: exI [of _ "[]"])
next
  case (Suc retries node)
  let ?c = "node_committed_snapshot node"
  obtain node1 result where w: "write_snapshot_guarded engine (cs_generation ?c) (desired_snapshot plan ?c) node
      = (node1, result)" by (cases "write_snapshot_guarded engine (cs_generation ?c) (desired_snapshot plan ?c) node")
  obtain es where es: "applied_log (rn_raft node1) = applied_log (rn_raft node) @ es"
    and step: "tracks m0 applied_log (rn_raft node1) (rn_state_machine node1)"
    using submit_runs [OF engine(1) Suc.prems(1) w [unfolded write_snapshot_guarded_def]] by blast
  consider (won) "\<exists>response. result = Inr response"
    | (full) "result = Inl StaleGenerationError" "cs_generation ?c = u64_max"
    | (lost) expected actual where "result = Inl (GenerationMismatchError expected actual)"
        "rivals (rn_raft node1) < rivals (rn_raft node)"
    using attempt_outcome [OF engine Suc.prems(1) refl w] by blast
  then show ?case
  proof cases
    case won
    then show ?thesis using w by (auto simp: plan_and_propose_guarded.simps [of engine plan "Suc retries" node] Let_def)
  next
    case full
    then show ?thesis using w es committed_after [OF Suc.prems(1)]
      by (auto simp: plan_and_propose_guarded.simps [of engine plan "Suc retries" node] Let_def intro: exI [of _ "[]"])
  next
    case lost
    then have "rivals (rn_raft node1) \<le> retries" using Suc.prems(2) by simp
    note later = Suc.IH [OF step this]
    obtain node' out where run: "plan_and_propose_guarded engine plan retries node1 = (node', out)" by force
    have whole: "plan_and_propose_guarded engine plan (Suc retries) node = (node', out)"
      using lost(1) w run by (simp add: plan_and_propose_guarded.simps [of engine plan "Suc retries" node] Let_def)
    show ?thesis
    proof (cases "\<exists>response. out = Inr response")
      case False
      then obtain read rest where "out = Inl StaleGenerationError"
        "applied_log (rn_raft node') = applied_log (rn_raft node1) @ read @ rest"
        "cs_generation (state_after m0 (applied_log (rn_raft node1) @ read)) = u64_max"
        using later run by auto
      then show ?thesis unfolding whole es by (auto intro: exI [of _ "es @ read"])
    qed (simp add: whole)
  qed
qed

text \<open>
  C18. An error names the value that beat the write.  A submitted command whose reply is a refusal is
  an entry of the node's log, and the error is the one due at that place: it carries the generation or
  the attribute committed right before the entry, which is not the one the command expected.  An
  accepted command is in the log as well, no refusal was due at its place, and the reply is the state
  right after it.  On every other error the applied log has only grown.
\<close>

theorem submit_reports_commit_point:
  assumes "linearized m0 applied_log engine" "tracks m0 applied_log (rn_raft node) (rn_state_machine node)"
  shows "case submit_command engine c node of (node', result) \<Rightarrow>
    (let decided = (\<lambda>before entry rest. en_payload entry = Normal c
           \<and> applied_log (rn_raft node') = applied_log (rn_raft node) @ before @ entry # rest);
         at = (\<lambda>before. state_after m0 (applied_log (rn_raft node) @ before)) in
     case result of
       Inr response \<Rightarrow> \<exists>before entry rest. decided before entry rest
         \<and> expected_rejection (at before) c = None \<and> mr_snapshot response = at (before @ [entry])
     | Inl (GenerationMismatchError expected actual) \<Rightarrow> \<exists>before entry rest. decided before entry rest
         \<and> actual = cs_generation (at before) \<and> guard_generation c = Some expected \<and> actual \<noteq> expected
     | Inl (AttributeMismatchError key actual) \<Rightarrow> \<exists>before entry rest expected. decided before entry rest
         \<and> actual = bt_get (cs_attributes (at before)) key
         \<and> guard_attribute c = Some (key, expected) \<and> actual \<noteq> expected
     | Inl StaleGenerationError \<Rightarrow> \<exists>before entry rest. decided before entry rest
         \<and> expected_rejection (at before) c = Some StaleGeneration
     | Inl _ \<Rightarrow> \<exists>es. applied_log (rn_raft node') = applied_log (rn_raft node) @ es)"
proof -
  let ?log = "applied_log (rn_raft node)"
  obtain r' sm' out where w: "re_client_write engine c (rn_raft node, rn_state_machine node) = ((r', sm'), out)"
    by (metis prod.collapse)
  note sub = submit_command_cases [OF w]
  show ?thesis
  proof (cases out)
    case (Inl error)
    then show ?thesis using linearized_run [OF assms w] by (simp add: sub map_membership_error_def)
  next
    case (Inr response)
    obtain before entry rest where e: "en_payload entry = Normal c" "applied_log r' = ?log @ before @ entry # rest"
      "response = reply_after m0 (?log @ before) entry"
      using linearized_reply [OF assms w [unfolded Inr]] by metis
    let ?p = "state_after m0 (?log @ before)"
    have rej: "mr_rejection response = expected_rejection ?p c"
      using e(3) reply_after_Normal(1) [OF e(1)] rejection_expected [of ?p c] by simp
    have snap: "mr_snapshot response = state_after m0 (?log @ before @ [entry])"
      using e(3) reply_after_Normal(2) [OF e(1)] by simp
    note place = Inr rej e(1,2)
    show ?thesis
    proof (cases "expected_rejection ?p c")
      case None
      then show ?thesis using place snap by (simp add: sub Let_def) blast
    next
      case (Some reason)
      show ?thesis
      proof (cases reason)
        case StaleGeneration
        then show ?thesis using place Some by (simp add: sub Let_def) blast
      next
        case (GenerationMismatch expected actual)
        then show ?thesis using place Some rejection_reasons(1) [of ?p c expected actual]
          by (simp add: sub Let_def) blast
      next
        case (AttributeMismatch key actual)
        then show ?thesis using place Some rejection_reasons(2) [of ?p c key actual]
          by (simp add: sub Let_def) blast
      qed
    qed
  qed
qed

text \<open>
  The leader watch wakes its reader only for changes: after any sequence of metrics updates it
  holds the latest leader, and it notified exactly once per change of leader.
\<close>

theorem watch_leader_exact:
  "watch_leader initial changes
     = (last (initial # changes), length (dedup (initial # changes)) - 1)"
proof -
  have "fold forward_leader changes (initial, n)
      = (last (initial # changes), n + (length (dedup (initial # changes)) - 1))" for n
  proof (induction changes arbitrary: initial n)
    case (Cons l changes)
    have "dedup (l # changes) \<noteq> []" by simp
    then have "0 < length (dedup (l # changes))" by (simp only: length_greater_0_conv not_False_eq_True)
    then show ?case using Cons [of l] by (auto simp: forward_leader_def)
  qed simp
  then show ?thesis by (simp add: watch_leader_def)
qed

text \<open>
  The bootstrap warning is rate-limited: the first one comes after at least ten seconds of waiting,
  each further one at least thirty seconds later on the schedule, and there are no more of them than
  times the node was found running, without membership and not initializing.
\<close>

definition justified_warnings :: "'lid bootstrap_event list \<Rightarrow> nat" where
  "justified_warnings events = length (filter (\<lambda>event. case event of
     TimerFires _ metrics initialize_called \<Rightarrow> awaiting_bootstrap metrics initialize_called | _ \<Rightarrow> False) events)"

lemma bootstrap_schedule:
  "list_all2 (\<le>) (map (\<lambda>i. t + 30 * i) [0..<length (log_while_awaiting_bootstrap t m events)])
     (log_while_awaiting_bootstrap t m events)
   \<and> length (log_while_awaiting_bootstrap t m events) \<le> justified_warnings events"
proof (induction events arbitrary: t m)
  case Nil
  then show ?case by (simp add: log_while_awaiting_bootstrap.simps [of t m])
next
  case (Cons event events)
  have later: "list_all2 (\<le>) (map (\<lambda>i. t + 30 * i) [0..<length ws]) ws"
    if "list_all2 (\<le>) (map (\<lambda>i. t + 30 + 30 * i) [0..<length ws]) ws" for ws
    using that by (auto simp: list_all2_conv_all_nth intro: order_trans [rotated])
  have first: "list_all2 (\<le>) (map (\<lambda>i. t + 30 * i) [0..<Suc (length ws)]) ((t + d) # ws)"
    if "list_all2 (\<le>) (map (\<lambda>i. t + 30 + 30 * i) [0..<length ws]) ws" for ws d
    using that by (auto simp: list_all2_conv_all_nth nth_Cons simp del: upt_Suc split: nat.split)
  show ?case
  proof (cases event)
    case (TimerFires d m' i)
    then show ?thesis using Cons.IH [of "t + 30" m'] later first
      by (auto simp: log_while_awaiting_bootstrap.simps [of t m] BOOTSTRAP_WAIT_WARNING_INTERVAL_def
          justified_warnings_def simp del: upt_Suc)
  next
    case (MetricsChanged m')
    then show ?thesis using Cons.IH [of t m']
      by (auto simp: log_while_awaiting_bootstrap.simps [of t m] justified_warnings_def)
  next
    case MetricsClosed
    then show ?thesis by (simp add: log_while_awaiting_bootstrap.simps [of t m])
  qed
qed

theorem bootstrap_warnings_limited:
  "case log_while_awaiting_bootstrap BOOTSTRAP_WAIT_FIRST_WARNING metrics events of warnings \<Rightarrow>
     list_all2 (\<le>) (map (\<lambda>i. 10 + 30 * i) [0..<length warnings]) warnings
   \<and> length warnings \<le> justified_warnings events"
  using bootstrap_schedule [of 10 metrics events] by (simp add: BOOTSTRAP_WAIT_FIRST_WARNING_def)

section \<open>Witnesses\<close>

text \<open>
  A single-member engine: its state is a queue of batches of other writers' entries and the log
  applied so far, and each write is applied behind the next batch.
\<close>

type_synonym queue_state = "(nat, nat) Entry list list \<times> (nat, nat) Entry list"

definition queued_batch :: "queue_state \<Rightarrow> (nat, nat) Entry list" where
  "queued_batch r = (case fst r of [] \<Rightarrow> [] | batch # _ \<Rightarrow> batch)"

definition queue_engine :: "(nat, nat, queue_state) raft_engine" where
  "queue_engine =
     \<lparr>re_client_write = (\<lambda>command (r, sm).
        let batch = queued_batch r; entry = demo_entry 9 command in
        (((drop 1 (fst r), snd r @ batch @ [entry]), fst (sm_apply sm (batch @ [entry]))),
         Inr (fst (snd (apply_entry (run_inner (gs_inner sm) batch) entry))))),
      re_initialize = (\<lambda>members st. (st, Inr ())),
      re_metrics = (\<lambda>r. \<lparr>rm_running = True, rm_current_leader = Some 1, rm_last_applied = None, rm_snapshot = None,
         rm_voters = [1], rm_learners = [], rm_nodes = []\<rparr>),
      re_current_leader = (\<lambda>r. Some 1),
      re_ensure_linearizable = (\<lambda>st. (st, Inr ())),
      re_wait = (\<lambda>timeout p st. (st, Inl ''timeout'')),
      re_add_learner = (\<lambda>node_id addr blocking st. (st, Inr ())),
      re_change_membership = (\<lambda>voters retain st. (st, Inr ())),
      re_shutdown = (\<lambda>st. (st, Inr ()))\<rparr>"

lemma queue_tracks:
  assumes "tracks m0 applied_log r sm" "applied_log r' = applied_log r @ es"
  shows "tracks m0 applied_log r' (fst (sm_apply sm es))"
proof -
  have "applied_view (fst (sm_apply sm es))
      = applied_view (fst (sm_apply (fst (sm_apply (state_machine_default m0) (applied_log r))) es))"
    using sm_apply_view assms(1) unfolding tracks_def by blast
  then show ?thesis by (simp add: tracks_def applied_view_def assms(2) apply_entries_append)
qed

lemma queue_reply:
  assumes "tracks m0 applied_log r sm"
  shows "fst (snd (apply_entry (run_inner (gs_inner sm) es) entry)) = reply_after m0 (applied_log r @ es) entry"
proof -
  have "in_last_membership (run_inner (gs_inner sm) es) = in_last_membership (log_inner m0 (applied_log r @ es))"
    "in_state (run_inner (gs_inner sm) es) = in_state (log_inner m0 (applied_log r @ es))"
    using assms run_view [of "gs_inner sm" "log_inner m0 (applied_log r)" es]
    by (simp_all add: tracks_def applied_view_def log_inner_def apply_entries_append)
  then show ?thesis unfolding reply_after_def using apply_entry_view(3) by metis
qed

lemma queue_write:
  assumes "tracks 0 snd r sm" "re_client_write queue_engine command (r, sm) = ((r', sm'), result)"
  shows "tracks 0 snd r' sm'" "fst r' = drop 1 (fst r)"
    "snd r' = snd r @ queued_batch r @ [demo_entry 9 command]"
    "result = Inr (reply_after 0 (snd r @ queued_batch r) (demo_entry 9 command))"
  using assms(2) queue_reply [OF assms(1)] queue_tracks [OF assms(1)]
  by (auto simp: queue_engine_def Let_def)

lemma queue_engine_linearized: "linearized 0 snd queue_engine"
  unfolding linearized_def
proof (intro allI impI)
  fix command and r :: queue_state and sm :: "(nat, nat) GanglionStateMachine" and r' sm' result
  assume "tracks 0 snd r sm" "re_client_write queue_engine command (r, sm) = ((r', sm'), result)"
  note w = queue_write [OF this]
  have "en_payload (demo_entry 9 command) = Normal command" by (simp add: demo_entry_def)
  then show "tracks 0 snd r' sm' \<and> (case result of
      Inl _ \<Rightarrow> \<exists>es. snd r' = snd r @ es
    | Inr response \<Rightarrow> \<exists>before entry rest. en_payload entry = Normal command
        \<and> snd r' = snd r @ before @ entry # rest \<and> response = reply_after 0 (snd r @ before) entry)"
    using w by auto
qed

lemma queue_engine_contended: "contended 0 snd queue_engine (length \<circ> fst)"
  unfolding contended_def
proof (intro allI impI)
  fix command and r :: queue_state and sm :: "(nat, nat) GanglionStateMachine"
  assume t: "tracks 0 snd r sm"
  obtain r' sm' result where e: "re_client_write queue_engine command (r, sm) = ((r', sm'), result)"
    by (metis prod.collapse)
  note w = queue_write [OF t e]
  have p: "en_payload (demo_entry 9 command) = Normal command" by (simp add: demo_entry_def)
  have "queued_batch r = []" if "fst r = []" using that by (simp add: queued_batch_def)
  then show "\<exists>r' sm' response. re_client_write queue_engine command (r, sm) = ((r', sm'), Inr response)
      \<and> (if (length \<circ> fst) r = 0
         then \<exists>entry rest. en_payload entry = Normal command \<and> snd r' = snd r @ entry # rest
           \<and> response = reply_after 0 (snd r) entry
         else (length \<circ> fst) r' < (length \<circ> fst) r)"
    using e w p by (cases "fst r") auto
qed

text \<open>A node whose first attempt loses against another writer's attribute update.\<close>

definition busy_node :: "(nat, nat, queue_state) RaftMetadataNode" where
  "busy_node = \<lparr>rn_id = 1, rn_raft = ([[demo_entry 5 (SetAttribute ''k'' ''v'')]], []),
     rn_state_machine = state_machine_default 0, rn_log_telemetry = None,
     rn_peer_health = PeerHealth_default, rn_initialize_called = True\<rparr>"

lemma busy_tracks: "tracks 0 snd (rn_raft busy_node) (rn_state_machine busy_node)"
  by (simp add: tracks_def busy_node_def applied_view_def)

definition take_over :: "CoordinationSnapshot \<Rightarrow> CoordinationSnapshot" where
  "take_over s = demo_snapshot ''b'' [] 0 0"

definition busy_outcome ::
    "(nat, nat, queue_state) RaftMetadataNode \<times> (OpenraftAdapterError, MetadataRaftResponse) result" where
  "busy_outcome = plan_and_propose_guarded queue_engine take_over 2 busy_node"

definition busy_reply :: "(nat, nat, queue_state) RaftMetadataNode \<times> MetadataRaftResponse" where
  "busy_reply = (fst busy_outcome, case snd busy_outcome of Inr response \<Rightarrow> response
     | Inl _ \<Rightarrow> \<lparr>mr_accepted = False, mr_rejection = None, mr_snapshot = CoordinationSnapshot_default\<rparr>)"

lemma busy_generation: "cs_generation (mr_snapshot (snd busy_reply)) = 2"
  by code_simp

lemma busy_won: "plan_and_propose_guarded queue_engine take_over 2 busy_node = (fst busy_reply, Inr (snd busy_reply))"
proof -
  obtain node' result where o: "busy_outcome = (node', result)" by (cases busy_outcome)
  show ?thesis
  proof (cases result)
    case (Inl error)
    then have "mr_snapshot (snd busy_reply) = CoordinationSnapshot_default" by (simp add: busy_reply_def o)
    then show ?thesis using busy_generation by (simp add: CoordinationSnapshot_default_def)
  next
    case (Inr response)
    have "busy_outcome = (fst busy_reply, Inr (snd busy_reply))" unfolding busy_reply_def o Inr by simp
    then show ?thesis by (simp only: busy_outcome_def)
  qed
qed

theorem guarded_iteration_wins_witness:
  "\<exists>node' response. plan_and_propose_guarded queue_engine take_over 2 busy_node = (node', Inr response)"
proof -
  have "(length \<circ> fst) (rn_raft busy_node) \<le> 2" by (simp add: busy_node_def)
  from guarded_iteration_wins [OF queue_engine_linearized queue_engine_contended busy_tracks this, of take_over]
  show ?thesis by (simp add: busy_won)
qed

text \<open>The log of the busy node: the rival's update, the lost attempt, and the attempt that won.\<close>

theorem guarded_iteration_fences_witness:
  "\<exists>read between entry rest. snd (rn_raft (fst busy_reply)) = read @ between @ entry # rest
     \<and> length (snd (rn_raft (fst busy_reply))) = 3
     \<and> cs_generation (state_after 0 (read @ between @ [entry])) = 2
     \<and> fenced_commit 0 take_over read between entry"
proof -
  have log: "snd (rn_raft busy_node) = []" by (simp add: busy_node_def)
  have "length (snd (rn_raft (fst busy_reply))) = 3" by code_simp
  then show ?thesis
    using guarded_iteration_fences [OF queue_engine_linearized busy_tracks busy_won] busy_generation
    unfolding log append_Nil by metis
qed

theorem submit_reports_commit_point_witness:
  "\<exists>before entry rest. snd (rn_raft (fst (submit_command queue_engine (CompareAndSetAttribute ''k'' None ''w'') busy_node)))
       = before @ entry # rest
     \<and> bt_get (cs_attributes (state_after 0 before)) ''k'' = Some ''v''
     \<and> snd (submit_command queue_engine (CompareAndSetAttribute ''k'' None ''w'') busy_node)
       = Inl (AttributeMismatchError ''k'' (Some ''v''))"
proof -
  obtain node' result where r: "submit_command queue_engine (CompareAndSetAttribute ''k'' None ''w'') busy_node
      = (node', result)" by (cases "submit_command queue_engine (CompareAndSetAttribute ''k'' None ''w'') busy_node")
  have log: "snd (rn_raft busy_node) = []" by (simp add: busy_node_def)
  have refused: "snd (submit_command queue_engine (CompareAndSetAttribute ''k'' None ''w'') busy_node)
      = Inl (AttributeMismatchError ''k'' (Some ''v''))" by code_simp
  then have "result = Inl (AttributeMismatchError ''k'' (Some ''v''))" by (simp add: r)
  then obtain before entry rest where "snd (rn_raft node') = before @ entry # rest"
    "Some ''v'' = bt_get (cs_attributes (state_after 0 before)) ''k''"
    using submit_reports_commit_point [OF queue_engine_linearized busy_tracks,
        where c = "CompareAndSetAttribute ''k'' None ''w''"] by (auto simp: Let_def r log)
  then show ?thesis using refused unfolding r fst_conv by metis
qed

end
