(* ===== verification/Cluster_Demo.thy ===== *)
theory Cluster_Demo
  imports Raft_Node
begin

text \<open>
  The interactive playground \<^verbatim>\<open>examples/cluster_demo.rs\<close>: several durable nodes of one process on
  one in-process router, the operations on this cluster, the command line, and the main program with
  its text output.

  While the program runs, the tasks of its nodes run too.  The record \<open>demo_env\<close> holds what is outside
  the file: the consensus engine and the constructor arguments of a node (theory \<open>Raft_Node\<close>), the
  files, and \<open>de_elapse\<close>, which says what the nodes' tasks have done by the next time the program
  looks at its nodes.  They may change any node's engine state and state machine, and the state
  \<open>'w\<close> of the outside world (files, clock), but neither add nor remove a node.
\<close>

section \<open>Text\<close>

text \<open>\<^verbatim>\<open>str::split_whitespace\<close>: the word read so far, and the rest.\<close>

function split_words :: "string \<Rightarrow> string \<Rightarrow> string list" where
  "split_words word [] = (if word = [] then [] else [word])"
| "split_words word (c # cs) =
     (case strip_any whitespace (c # cs) of
        None \<Rightarrow> split_words (word @ [c]) cs
      | Some rest \<Rightarrow> (if word = [] then [] else [word]) @ split_words [] rest)"
  by pat_completeness auto
termination
  by (relation "measure (\<lambda>(word, s). length s)") (auto dest: strip_any_shorter)

definition split_whitespace :: "string \<Rightarrow> string list" where
  "split_whitespace s = split_words [] s"

text \<open>\<^verbatim>\<open>str::split\<close> at a character: one piece more than the character occurs.\<close>

fun split_char :: "char \<Rightarrow> string \<Rightarrow> string list" where
  "split_char d [] = [[]]"
| "split_char d (c # cs) =
     (if c = d then [] # split_char d cs
      else case split_char d cs of [] \<Rightarrow> [[c]] | piece # pieces \<Rightarrow> (c # piece) # pieces)"

definition show_u64 :: "u64 \<Rightarrow> string" where
  "show_u64 n = show_nat (unat n)"

definition parse_u64 :: "string \<Rightarrow> u64 option" where
  "parse_u64 s = (case parse_usize s of Inl _ \<Rightarrow> None | Inr n \<Rightarrow> Some (of_nat n))"

definition debug_option_u64 :: "u64 option \<Rightarrow> string" where
  "debug_option_u64 v = (case v of None \<Rightarrow> ''None'' | Some n \<Rightarrow> ''Some('' @ show_u64 n @ '')'')"

fun join_comma :: "string list \<Rightarrow> string" where
  "join_comma [] = []"
| "join_comma [s] = s"
| "join_comma (s # ss) = s @ '', '' @ join_comma ss"

definition debug_vec_u64 :: "u64 list \<Rightarrow> string" where
  "debug_vec_u64 ns = ''['' @ join_comma (map show_u64 ns) @ '']''"

text \<open>\<^verbatim>\<open>Path::join\<close> with a relative path.\<close>

definition path_join :: "string \<Rightarrow> string \<Rightarrow> string" where
  "path_join base rel =
     (if base = [] \<or> last base = CHR ''/'' then base @ rel else base @ ''/'' @ rel)"

section \<open>The cluster\<close>

record ('lid, 'm, 'r, 'c) Cluster =
  cl_router :: "'r InProcessRouter"
  cl_config :: "'c raft_config"
  cl_data_dir :: string
  cl_nodes :: "(u64, ('lid, 'm, 'r) RaftMetadataNode) btree"

record ('lid, 'm, 'vote, 'r, 'c, 'w) demo_env =
  de_engine :: "('lid, 'm, 'r) raft_engine"
  de_raft_new :: "'c raft_config \<Rightarrow> u64 \<Rightarrow> 'r InProcessRouter \<Rightarrow> ('lid, 'm, 'vote) FileRaftLogStore \<Rightarrow>
    ('lid, 'm) GanglionStateMachine \<Rightarrow> (string, 'r \<times> ('lid, 'm) GanglionStateMachine) result"
  de_wal_codec :: "('lid, 'm, 'vote) wal_codec"
  de_snapshot_codec :: "('lid, 'm) snapshot_codec"
  de_membership :: 'm
  de_show_error :: "StorageError \<Rightarrow> string"
  de_debug_str :: "string \<Rightarrow> string"
  de_validate :: "'c raft_config \<Rightarrow> (string, 'c raft_config) result"
  de_defaults :: 'c
  de_dir :: "'w \<Rightarrow> string \<Rightarrow> durable_dir"
  de_faults :: "'w \<Rightarrow> string \<Rightarrow> dir_faults"
  de_elapse :: "'w \<Rightarrow> (u64, ('lid, 'm, 'r) RaftMetadataNode) btree \<Rightarrow>
    'w \<times> (u64 \<Rightarrow> 'r \<times> ('lid, 'm) GanglionStateMachine)"
  de_dropped :: "('lid, 'm, 'r) RaftMetadataNode \<Rightarrow> 'w \<Rightarrow> 'w"

text \<open>The state of the program: the cluster, what it has printed, and the outside world.\<close>

record ('lid, 'm, 'r, 'c, 'w) demo_state =
  ds_cluster :: "('lid, 'm, 'r, 'c) Cluster"
  ds_stdout :: string
  ds_world :: 'w

definition say :: "string \<Rightarrow> ('lid, 'm, 'r, 'c, 'w) demo_state \<Rightarrow> ('lid, 'm, 'r, 'c, 'w) demo_state" where
  "say text st = st\<lparr>ds_stdout := ds_stdout st @ text @ [CHR 0x0A]\<rparr>"

abbreviation demo_nodes :: "('lid, 'm, 'r, 'c, 'w) demo_state \<Rightarrow> (u64, ('lid, 'm, 'r) RaftMetadataNode) btree" where
  "demo_nodes st \<equiv> cl_nodes (ds_cluster st)"

definition set_nodes ::
    "(u64, ('lid, 'm, 'r) RaftMetadataNode) btree \<Rightarrow> ('lid, 'm, 'r, 'c, 'w) demo_state \<Rightarrow> ('lid, 'm, 'r, 'c, 'w) demo_state" where
  "set_nodes nodes st = st\<lparr>ds_cluster := (ds_cluster st)\<lparr>cl_nodes := nodes\<rparr>\<rparr>"

definition set_router :: "'r InProcessRouter \<Rightarrow> ('lid, 'm, 'r, 'c, 'w) demo_state \<Rightarrow> ('lid, 'm, 'r, 'c, 'w) demo_state" where
  "set_router router st = st\<lparr>ds_cluster := (ds_cluster st)\<lparr>cl_router := router\<rparr>\<rparr>"

definition elapse :: "('lid, 'm, 'vote, 'r, 'c, 'w) demo_env \<Rightarrow> ('lid, 'm, 'r, 'c, 'w) demo_state \<Rightarrow> ('lid, 'm, 'r, 'c, 'w) demo_state" where
  "elapse env st =
     (case de_elapse env (ds_world st) (demo_nodes st) of
        (world, now) \<Rightarrow>
          set_nodes (bt_map (\<lambda>node_id node.
              node\<lparr>rn_raft := fst (now node_id), rn_state_machine := snd (now node_id)\<rparr>) (demo_nodes st))
            (st\<lparr>ds_world := world\<rparr>))"

text \<open>
  A call on a running node, by then in the state its tasks have brought it to.  The calls below are
  made on nodes that the source holds a reference to, so that \<^const>\<open>None\<close> does not occur.
\<close>

definition with_node ::
    "('lid, 'm, 'vote, 'r, 'c, 'w) demo_env \<Rightarrow> u64 \<Rightarrow>
     (('lid, 'm, 'r) RaftMetadataNode \<Rightarrow> ('lid, 'm, 'r) RaftMetadataNode \<times> 'a) \<Rightarrow>
     ('lid, 'm, 'r, 'c, 'w) demo_state \<Rightarrow> ('lid, 'm, 'r, 'c, 'w) demo_state \<times> 'a option" where
  "with_node env node_id call st =
     (let st = elapse env st in
      case bt_get (demo_nodes st) node_id of
        None \<Rightarrow> (st, None)
      | Some node \<Rightarrow>
          (case call node of
             (node', result) \<Rightarrow> (set_nodes (bt_insert node_id node' (demo_nodes st)) st, Some result)))"

definition node_dir where
  "node_dir node_id st = path_join (cl_data_dir (ds_cluster st)) (''node-'' @ show_u64 node_id)"

fun find_leader where
  "find_leader env [] st = (st, None)"
| "find_leader env (node_id # ids) st =
     (case with_node env node_id (\<lambda>node. (node, raft_is_leader (de_engine env) node)) st of
        (st', Some True) \<Rightarrow> (st', Some node_id)
      | (st', _) \<Rightarrow> find_leader env ids st')"

definition cluster_leader where
  "cluster_leader env st = find_leader env (bt_keys (demo_nodes st)) st"

text \<open>The loop of \<^verbatim>\<open>wait_for_leader\<close> with the polls that are left.\<close>

fun poll_leader where
  "poll_leader env 0 st = (st, None)"
| "poll_leader env (Suc polls) st =
     (case cluster_leader env st of
        (st', Some node_id) \<Rightarrow> (st', Some node_id)
      | (st', None) \<Rightarrow> poll_leader env polls (elapse env st'))"

definition cluster_wait_for_leader where
  "cluster_wait_for_leader env st = poll_leader env 100 st"

section \<open>The operations on the cluster\<close>

definition status_line where
  "status_line node_id tp tm =
     ''node '' @ show_u64 node_id @ '': leader='' @ debug_option_u64 (tp_leader tp)
     @ '' voters='' @ debug_vec_u64 (tp_voters tp) @ '' learners='' @ debug_vec_u64 (tp_learners tp)
     @ '' generation='' @ show_u64 (tp_committed_generation tp)
     @ '' applied='' @ debug_option_u64 (tp_last_applied_index tp)
     @ '' appends='' @ show_u64 (st_appended_records tm) @ '' fsyncs='' @ show_u64 (st_fsyncs tm)
     @ '' compactions='' @ show_u64 (st_compactions tm)
     @ '' snap_persists='' @ show_u64 (st_snapshot_persists tm)"

fun status_nodes where
  "status_nodes env [] st = st"
| "status_nodes env (node_id # ids) st =
     (case with_node env node_id (\<lambda>node. (node, topology (de_engine env) node)) st of
        (st', None) \<Rightarrow> status_nodes env ids st'
      | (st', Some tp) \<Rightarrow>
          (case with_node env node_id (\<lambda>node. (node, node_telemetry node)) st' of
             (st'', None) \<Rightarrow> status_nodes env ids st''
           | (st'', Some tm) \<Rightarrow> status_nodes env ids (say (status_line node_id tp tm) st'')))"

definition cluster_status where
  "cluster_status env st =
     (case cluster_wait_for_leader env st of
        (st', Some leader_id) \<Rightarrow>
          status_nodes env (bt_keys (demo_nodes st')) (say (''leader: node '' @ show_u64 leader_id) st')
      | (st', None) \<Rightarrow>
          status_nodes env (bt_keys (demo_nodes st')) (say ''leader: none (no quorum?)'' st'))"

abbreviation show_adapter_error where
  "show_adapter_error env error \<equiv> display_OpenraftAdapterError (de_debug_str env) error"

definition cluster_write where
  "cluster_write env generation st =
     (case cluster_wait_for_leader env st of
        (st', None) \<Rightarrow> say ''write failed: no leader'' st'
      | (st', Some leader_id) \<Rightarrow>
          (case with_node env leader_id
                  (write_snapshot (de_engine env) (CoordinationSnapshot_default\<lparr>cs_generation := generation\<rparr>)) st' of
             (st'', Some (Inr response)) \<Rightarrow>
               say (''write committed via node '' @ show_u64 leader_id @ '': generation=''
                    @ show_u64 (cs_generation (mr_snapshot response))) st''
           | (st'', Some (Inl error)) \<Rightarrow> say (''write failed: '' @ show_adapter_error env error) st''
           | (st'', None) \<Rightarrow> st''))"

text \<open>Shutting down a node that has left the map, and dropping it.\<close>

definition stop_node where
  "stop_node env node st =
     (case node_shutdown (de_engine env) node of
        (node', result) \<Rightarrow> (st\<lparr>ds_world := de_dropped env node' (ds_world st)\<rparr>, result))"

definition cluster_kill where
  "cluster_kill env node_id st =
     (let st = elapse env st in
      case bt_get (demo_nodes st) node_id of
        None \<Rightarrow> say (''no such node: '' @ show_u64 node_id) st
      | Some node \<Rightarrow>
          (let st = set_nodes (bt_remove node_id (demo_nodes st)) st;
               st = set_router (router_deregister node_id (cl_router (ds_cluster st))) st
           in case stop_node env node st of
                (st', Inr _) \<Rightarrow> say (''node '' @ show_u64 node_id @ '' killed'') st'
              | (st', Inl error) \<Rightarrow>
                  say (''node '' @ show_u64 node_id @ '' shutdown error: '' @ show_adapter_error env error) st'))"

text \<open>\<^verbatim>\<open>RaftMetadataNode::start_durable\<close> in the node's directory.\<close>

definition start_node where
  "start_node env node_id st =
     (let st = elapse env st; dir = node_dir node_id st in
      case start_durable (de_raft_new env (cl_config (ds_cluster st))) (de_wal_codec env)
             (de_snapshot_codec env) (de_membership env) (de_show_error env)
             (de_faults env (ds_world st) dir) (de_dir env (ds_world st) dir)
             node_id (cl_router (ds_cluster st)) of
        (router, result) \<Rightarrow> (set_router router st, result))"

definition insert_node where
  "insert_node node_id node st = set_nodes (bt_insert node_id node (demo_nodes st)) st"

definition cluster_restart where
  "cluster_restart env node_id st =
     (if bt_contains_key (demo_nodes st) node_id
      then say (''node '' @ show_u64 node_id @ '' is already running'') st
      else case start_node env node_id st of
             (st', Inr node) \<Rightarrow>
               (let st' = insert_node node_id node st' in
                say (''node '' @ show_u64 node_id @ '' restarted from '' @ node_dir node_id st') st')
           | (st', Inl error) \<Rightarrow> say (''restart failed: '' @ show_adapter_error env error) st')"

definition promote_node where
  "promote_node env leader_id node_id st =
     (case with_node env leader_id (\<lambda>leader. (leader, tp_voters (topology (de_engine env) leader))) st of
        (st', None) \<Rightarrow> st'
      | (st', Some voters) \<Rightarrow>
          (case with_node env leader_id (change_membership (de_engine env) (voters @ [node_id]) False) st' of
             (st'', Some (Inr _)) \<Rightarrow> say (''node '' @ show_u64 node_id @ '' added and promoted to voter'') st''
           | (st'', Some (Inl error)) \<Rightarrow> say (''promotion failed: '' @ show_adapter_error env error) st''
           | (st'', None) \<Rightarrow> st''))"

definition cluster_add where
  "cluster_add env node_id st =
     (if bt_contains_key (demo_nodes st) node_id
      then say (''node '' @ show_u64 node_id @ '' already exists'') st
      else case start_node env node_id st of
             (st', Inl error) \<Rightarrow> say (''start failed: '' @ show_adapter_error env error) st'
           | (st', Inr node) \<Rightarrow>
               (case cluster_wait_for_leader env (insert_node node_id node st') of
                  (st'', None) \<Rightarrow> say ''add failed: no leader'' st''
                | (st'', Some leader_id) \<Rightarrow>
                    (case with_node env leader_id
                            (add_learner (de_engine env) node_id (''node-'' @ show_u64 node_id) True) st'' of
                       (st3, Some (Inl error)) \<Rightarrow> say (''add_learner failed: '' @ show_adapter_error env error) st3
                     | (st3, Some (Inr _)) \<Rightarrow> promote_node env leader_id node_id st3
                     | (st3, None) \<Rightarrow> st3)))"

definition cluster_remove where
  "cluster_remove env node_id st =
     (case cluster_wait_for_leader env st of
        (st', None) \<Rightarrow> say ''remove failed: no leader'' st'
      | (st', Some leader_id) \<Rightarrow>
          (case with_node env leader_id (\<lambda>leader. (leader, tp_voters (topology (de_engine env) leader))) st' of
             (st2, None) \<Rightarrow> st2
           | (st2, Some voters) \<Rightarrow>
               (case with_node env leader_id
                       (change_membership (de_engine env) (filter (\<lambda>voter. voter \<noteq> node_id) voters) False) st2 of
                  (st3, Some (Inl error)) \<Rightarrow> say (''remove failed: '' @ show_adapter_error env error) st3
                | (st3, Some (Inr _)) \<Rightarrow>
                    say (''node '' @ show_u64 node_id @ '' removed from the cluster'') (cluster_kill env node_id st3)
                | (st3, None) \<Rightarrow> st3)))"

fun shutdown_nodes where
  "shutdown_nodes env [] st = st"
| "shutdown_nodes env (node_id # ids) st =
     (let st = elapse env st in
      case bt_get (demo_nodes st) node_id of
        None \<Rightarrow> shutdown_nodes env ids st
      | Some node \<Rightarrow>
          shutdown_nodes env ids (fst (stop_node env node (set_nodes (bt_remove node_id (demo_nodes st)) st))))"

definition cluster_shutdown where
  "cluster_shutdown env st = shutdown_nodes env (bt_keys (demo_nodes st)) st"

section \<open>The command line\<close>

definition usage_text :: string where
  "usage_text =
     ''commands: status | write <gen> | kill <id> | restart <id> | add <id> | remove <id> | quit''"

text \<open>The flag says whether to go on.\<close>

definition run_command where
  "run_command env line st =
     (let parts = split_whitespace line;
          command = (case parts of [] \<Rightarrow> [] | c # _ \<Rightarrow> c);
          arg = (case parts of _ # a # _ \<Rightarrow> parse_u64 a | _ \<Rightarrow> None)
      in if command = [] then (st, True)
         else if command = ''status'' then (cluster_status env st, True)
         else if command = ''quit'' \<or> command = ''exit'' then (st, False)
         else case arg of
                None \<Rightarrow> (say usage_text st, True)
              | Some n \<Rightarrow>
                  (if command = ''write'' then cluster_write env n st
                   else if command = ''kill'' then cluster_kill env n st
                   else if command = ''restart'' then cluster_restart env n st
                   else if command = ''add'' then cluster_add env n st
                   else if command = ''remove'' then cluster_remove env n st
                   else say usage_text st, True))"

text \<open>
  \<^verbatim>\<open>parse_args\<close> on the arguments after the program name: a panic is \<^const>\<open>Inl\<close> with its message.
\<close>

record demo_args =
  da_nodes :: u64
  da_data_dir :: string
  da_script :: "string option"

fun parse_arg_list :: "demo_args \<Rightarrow> string list \<Rightarrow> (string, demo_args) result" where
  "parse_arg_list acc [] = Inr acc"
| "parse_arg_list acc (arg # args) =
     (if arg = ''--nodes'' then
        (case args of
           [] \<Rightarrow> Inl ''--nodes needs a number''
         | raw # rest \<Rightarrow>
             (case parse_u64 raw of
                None \<Rightarrow> Inl ''--nodes needs a number''
              | Some n \<Rightarrow> parse_arg_list (acc\<lparr>da_nodes := n\<rparr>) rest))
      else if arg = ''--data-dir'' then
        (case args of
           [] \<Rightarrow> Inl ''--data-dir needs a path''
         | dir # rest \<Rightarrow> parse_arg_list (acc\<lparr>da_data_dir := dir\<rparr>) rest)
      else if arg = ''--script'' then
        (case args of
           [] \<Rightarrow> Inl ''--script needs commands''
         | script # rest \<Rightarrow> parse_arg_list (acc\<lparr>da_script := Some script\<rparr>) rest)
      else Inl (''unknown argument: '' @ arg))"

definition parse_args :: "string \<Rightarrow> nat \<Rightarrow> string list \<Rightarrow> (string, demo_args) result" where
  "parse_args temp_dir process_id args =
     parse_arg_list
       \<lparr>da_nodes = 3, da_data_dir = path_join temp_dir (''ganglion-playground-'' @ show_nat process_id),
        da_script = None\<rparr> args"

section \<open>The main program\<close>

text \<open>Starting the nodes; a node that does not start is a panic.\<close>

fun start_nodes where
  "start_nodes env [] st = Inr st"
| "start_nodes env (node_id # ids) st =
     (case start_node env node_id st of
        (_, Inl error) \<Rightarrow> Inl ''node should start''
      | (st', Inr node) \<Rightarrow> start_nodes env ids (insert_node node_id node st'))"

definition node_ids :: "u64 \<Rightarrow> u64 list" where
  "node_ids node_count = map of_nat [1..<Suc (unat node_count)]"

text \<open>From the parsed arguments to the first status.\<close>

definition demo_start ::
    "('lid, 'm, 'vote, 'r, 'c, 'w) demo_env \<Rightarrow> demo_args \<Rightarrow> 'w \<Rightarrow>
     (string, ('lid, 'm, 'r, 'c, 'w) demo_state) result" where
  "demo_start env args world =
     (case default_raft_config (de_validate env) (de_defaults env) of
        Inl _ \<Rightarrow> Inl ''raft config''
      | Inr config \<Rightarrow>
          (let ids = node_ids (da_nodes args);
               st = \<lparr>ds_cluster = \<lparr>cl_router = InProcessRouter_new, cl_config = config,
                       cl_data_dir = da_data_dir args, cl_nodes = bt_empty\<rparr>,
                     ds_stdout = [], ds_world = world\<rparr>
           in case start_nodes env ids st of
                Inl panic \<Rightarrow> Inl panic
              | Inr st' \<Rightarrow>
                  (case ids of
                     [] \<Rightarrow> Inl ''index out of bounds: the len is 0 but the index is 0''
                   | first # _ \<Rightarrow>
                       (case with_node env first (initialize (de_engine env)
                               (bt_of_list (map (\<lambda>i. (i, ''node-'' @ show_u64 i)) ids))) st' of
                          (st'', Some (Inr _)) \<Rightarrow>
                            Inr (cluster_status env
                              (say (''started '' @ show_u64 (da_nodes args) @ '' durable nodes under ''
                                    @ cl_data_dir (ds_cluster st'')) st''))
                        | _ \<Rightarrow> Inl ''cluster should initialize''))))"

fun run_script where
  "run_script env [] st = st"
| "run_script env (piece # pieces) st =
     (case run_command env (trim piece) (say (''> '' @ trim piece) st) of
        (st', True) \<Rightarrow> run_script env pieces st'
      | (st', False) \<Rightarrow> st')"

definition prompt :: "('lid, 'm, 'r, 'c, 'w) demo_state \<Rightarrow> ('lid, 'm, 'r, 'c, 'w) demo_state" where
  "prompt st = st\<lparr>ds_stdout := ds_stdout st @ ''> ''\<rparr>"

text \<open>The lines of standard input, each read or a failure.\<close>

fun run_stdin where
  "run_stdin env [] st = Inr st"
| "run_stdin env (Inl _ # rest) st = Inl ''stdin read''"
| "run_stdin env (Inr line # rest) st =
     (case run_command env (trim line) st of
        (st', True) \<Rightarrow> run_stdin env rest (prompt st')
      | (st', False) \<Rightarrow> Inr st')"

definition demo_main where
  "demo_main env temp_dir process_id args stdin world =
     (case parse_args temp_dir process_id args of
        Inl panic \<Rightarrow> Inl panic
      | Inr parsed \<Rightarrow>
          (case demo_start env parsed world of
             Inl panic \<Rightarrow> Inl panic
           | Inr st \<Rightarrow>
               (case (case da_script parsed of
                        Some script \<Rightarrow> Inr (run_script env (split_char (CHR '';'') script) st)
                      | None \<Rightarrow> run_stdin env stdin (prompt st)) of
                  Inl panic \<Rightarrow> Inl panic
                | Inr st' \<Rightarrow> Inr (say ''playground stopped'' (cluster_shutdown env st')))))"

section \<open>The router and the nodes\<close>

text \<open>The ids of the running nodes, and of the nodes the router reaches.\<close>

definition running :: "('lid, 'm, 'r, 'c, 'w) demo_state \<Rightarrow> u64 set" where
  "running st = {node_id. bt_get (demo_nodes st) node_id \<noteq> None}"

definition routed :: "('lid, 'm, 'r, 'c, 'w) demo_state \<Rightarrow> u64 set" where
  "routed st = {node_id. router_lookup node_id (cl_router (ds_cluster st)) \<noteq> None}"

definition cluster_ok :: "('lid, 'm, 'r, 'c, 'w) demo_state \<Rightarrow> bool" where
  "cluster_ok st \<longleftrightarrow> routed st = running st
     \<and> (\<forall>node_id node. bt_get (demo_nodes st) node_id = Some node \<longrightarrow> rn_id node = node_id)"

text \<open>Everything but the printed text and the world is kept by printing and by waiting.\<close>

lemma say_simps [simp]: "ds_cluster (say text st) = ds_cluster st" "ds_world (say text st) = ds_world st"
  by (simp_all add: say_def)

lemma set_nodes_simps [simp]:
  "demo_nodes (set_nodes nodes st) = nodes" "cl_router (ds_cluster (set_nodes nodes st)) = cl_router (ds_cluster st)"
  "cl_data_dir (ds_cluster (set_nodes nodes st)) = cl_data_dir (ds_cluster st)"
  by (simp_all add: set_nodes_def)

lemma set_router_simps [simp]:
  "demo_nodes (set_router router st) = demo_nodes st" "cl_router (ds_cluster (set_router router st)) = router"
  by (simp_all add: set_router_def)

text \<open>Two states with the same node ids and routed ids, and only well-named nodes.\<close>

definition same_cluster where
  "same_cluster st st' \<longleftrightarrow> running st' = running st \<and> routed st' = routed st \<and> (cluster_ok st \<longrightarrow> cluster_ok st')"

lemma same_clusterD [dest?]:
  "same_cluster st st' \<Longrightarrow> running st' = running st" "same_cluster st st' \<Longrightarrow> routed st' = routed st"
  "same_cluster st st' \<Longrightarrow> cluster_ok st \<Longrightarrow> cluster_ok st'"
  by (simp_all add: same_cluster_def)

lemma same_cluster_refl [simp]: "same_cluster st st"
  by (simp add: same_cluster_def)

lemma same_cluster_trans [trans]: "same_cluster a b \<Longrightarrow> same_cluster b c \<Longrightarrow> same_cluster a c"
  by (simp add: same_cluster_def)

lemma same_cluster_say [simp]:
  "same_cluster st (say text st') \<longleftrightarrow> same_cluster st st'" "same_cluster (say text st) st' \<longleftrightarrow> same_cluster st st'"
  by (simp_all add: same_cluster_def running_def routed_def cluster_ok_def)

lemma cluster_say [simp]: "running (say line st) = running st" "cluster_ok (say line st) = cluster_ok st"
    "cluster_ok (prompt st) = cluster_ok st"
  by (simp_all add: running_def routed_def cluster_ok_def prompt_def)

lemma elapse_same [simp]: "same_cluster st (elapse env st)"
  by (auto simp: same_cluster_def elapse_def running_def routed_def cluster_ok_def bt_get_map split: prod.split)

lemma with_node_same:
  assumes "\<And>node. rn_id (fst (call node)) = rn_id node"
  shows "same_cluster st (fst (with_node env node_id call st))"
proof -
  let ?st = "elapse env st"
  have "same_cluster ?st (fst (with_node env node_id call st))"
  proof (cases "bt_get (demo_nodes ?st) node_id")
    case (Some node)
    then show ?thesis using assms [of node]
      by (auto simp: with_node_def Let_def same_cluster_def running_def routed_def cluster_ok_def bt_get_insert
          split: prod.split if_splits)
  qed (simp add: with_node_def)
  then show ?thesis using same_cluster_trans [OF elapse_same] by blast
qed

lemma with_node_case:
  assumes "with_node env node_id call st = (st', result)" "\<And>node. rn_id (fst (call node)) = rn_id node"
  shows "same_cluster st st'"
  using with_node_same [OF assms(2), of st env node_id] assms(1) by simp

lemma engine_call_id [simp]: "rn_id (fst (engine_call call map_err f node)) = rn_id node"
  by (simp add: engine_call_def split: prod.split)

lemma submit_command_id [simp]: "rn_id (fst (submit_command engine c node)) = rn_id node"
  by (auto simp: submit_command_def split: prod.split sum.split) (metis engine_call_id fst_conv)+

lemma find_leader_same: "same_cluster st (fst (find_leader env ids st))"
proof (induction ids arbitrary: st)
  case (Cons node_id ids)
  obtain st' b where w: "with_node env node_id (\<lambda>node. (node, raft_is_leader (de_engine env) node)) st = (st', b)"
    by force
  have "same_cluster st st'" by (rule with_node_case [OF w]) simp
  then show ?case using Cons.IH [of st'] same_cluster_trans w by (auto split: option.split bool.split)
qed simp

lemma poll_leader_same: "same_cluster st (fst (poll_leader env polls st))"
proof (induction polls arbitrary: st)
  case (Suc polls)
  obtain st' l where l: "cluster_leader env st = (st', l)" by force
  have "same_cluster st st'"
    using find_leader_same [of st env "bt_keys (demo_nodes st)"] l by (simp add: cluster_leader_def)
  moreover have "same_cluster st' (fst (poll_leader env polls (elapse env st')))"
    using Suc.IH [of "elapse env st'"] same_cluster_trans [OF elapse_same] by blast
  ultimately show ?case using l same_cluster_trans by (auto split: option.split)
qed simp

lemma wait_same:
  assumes "cluster_wait_for_leader env st = (st', l)"
  shows "same_cluster st st'"
  using poll_leader_same [of st env 100] assms by (simp add: cluster_wait_for_leader_def)

text \<open>A call on a running node is made, and a leader that was found is running.\<close>

lemma with_node_running:
  assumes "node_id \<in> running st"
  shows "\<exists>st' node. with_node env node_id call st = (st', Some (snd (call node)))"
proof -
  have "node_id \<in> running (elapse env st)" using assms same_clusterD(1) [OF elapse_same] by blast
  then obtain node where "bt_get (demo_nodes (elapse env st)) node_id = Some node" by (auto simp: running_def)
  then have "snd (with_node env node_id call st) = Some (snd (call node))"
    by (simp add: with_node_def Let_def split: prod.split)
  then show ?thesis by (metis prod.collapse)
qed

lemma with_node_Some:
  assumes "with_node env node_id call st = (st', Some result)"
  shows "node_id \<in> running st'"
  using assms by (auto simp: with_node_def Let_def running_def split: option.splits prod.splits)

lemma find_leader_running: "find_leader env ids st = (st', Some leader_id) \<Longrightarrow> leader_id \<in> running st'"
  by (induction ids arbitrary: st) (auto dest: with_node_Some split: prod.splits option.splits bool.splits)

lemma leader_found_running:
  assumes "cluster_wait_for_leader env st = (st', Some leader_id)"
  shows "leader_id \<in> running st'"
proof -
  have "poll_leader env polls st = (st', Some leader_id) \<Longrightarrow> leader_id \<in> running st'" for polls
    by (induction polls arbitrary: st)
      (auto simp: cluster_leader_def dest: find_leader_running split: prod.splits option.splits)
  then show ?thesis using assms by (simp add: cluster_wait_for_leader_def)
qed

lemma status_nodes_same: "same_cluster st (status_nodes env ids st)"
proof (induction ids arbitrary: st)
  case (Cons node_id ids)
  obtain st1 a where a: "with_node env node_id (\<lambda>node. (node, topology (de_engine env) node)) st = (st1, a)" by force
  obtain st2 b where b: "with_node env node_id (\<lambda>node. (node, node_telemetry node)) st1 = (st2, b)" by force
  have "same_cluster st st1" "same_cluster st1 st2"
    using with_node_case [OF a] with_node_case [OF b] by simp_all
  then have both: "same_cluster st st1" "same_cluster st st2" using same_cluster_trans by blast+
  have "same_cluster s (status_nodes env ids (say line s))" for s line using Cons.IH [of "say line s"] by simp
  then show ?case using Cons.IH both same_cluster_trans a b by (auto split: option.split) blast+
qed simp

lemma status_same: "same_cluster st (cluster_status env st)"
proof -
  obtain st' l where w: "cluster_wait_for_leader env st = (st', l)" by force
  have "same_cluster st (status_nodes env ids (say line st'))" for ids line
    using same_cluster_trans [OF wait_same [OF w]] status_nodes_same [of "say line st'" env ids] by simp
  then show ?thesis using w by (auto simp: cluster_status_def split: option.split)
qed

lemma write_same: "same_cluster st (cluster_write env generation st)"
proof -
  obtain st' l where w: "cluster_wait_for_leader env st = (st', l)" by force
  obtain st2 r where c: "with_node env (the l)
      (write_snapshot (de_engine env) (CoordinationSnapshot_default\<lparr>cs_generation := generation\<rparr>)) st' = (st2, r)"
    by force
  have "same_cluster st' st2" by (rule with_node_case [OF c]) (simp add: write_snapshot_def)
  then show ?thesis using wait_same [OF w] same_cluster_trans w c
    by (auto simp: cluster_write_def split: option.split sum.split)
qed

lemma promote_same: "same_cluster st (promote_node env leader_id node_id st)"
proof -
  obtain st1 v where v: "with_node env leader_id (\<lambda>leader. (leader, tp_voters (topology (de_engine env) leader))) st = (st1, v)"
    by force
  obtain st2 r where c: "with_node env leader_id (change_membership (de_engine env) (the v @ [node_id]) False) st1 = (st2, r)"
    by force
  have "same_cluster st st1" by (rule with_node_case [OF v]) simp
  moreover have "same_cluster st1 st2" by (rule with_node_case [OF c]) (simp add: change_membership_def)
  ultimately show ?thesis using same_cluster_trans v c
    by (auto simp: promote_node_def split: option.split sum.split)
qed

text \<open>Killing a node takes it from the map and from the router.\<close>

lemma stop_node_cluster [simp]: "ds_cluster (fst (stop_node env node st)) = ds_cluster st"
  by (simp add: stop_node_def split: prod.split)

lemma kill_cluster:
  "running (cluster_kill env node_id st) = running st - {node_id}"
  "cluster_ok st \<Longrightarrow> cluster_ok (cluster_kill env node_id st)"
proof -
  let ?st = "elapse env st"
  have same: "running ?st = running st" "cluster_ok st \<Longrightarrow> cluster_ok ?st"
    by (simp_all add: same_clusterD [OF elapse_same])
  have "running (cluster_kill env node_id st) = running ?st - {node_id}
    \<and> (cluster_ok ?st \<longrightarrow> cluster_ok (cluster_kill env node_id st))"
  proof (cases "bt_get (demo_nodes ?st) node_id")
    case None
    then show ?thesis by (auto simp: cluster_kill_def running_def routed_def cluster_ok_def)
  next
    case (Some node)
    let ?s = "set_router (router_deregister node_id (cl_router (ds_cluster ?st)))
      (set_nodes (bt_remove node_id (demo_nodes ?st)) ?st)"
    obtain s' r where s': "stop_node env node ?s = (s', r)" by force
    then have "ds_cluster s' = ds_cluster ?s" using stop_node_cluster [of env node ?s] by simp
    then have "ds_cluster (cluster_kill env node_id st) = ds_cluster ?s"
      using Some s' by (simp add: cluster_kill_def Let_def split: sum.split)
    then show ?thesis
      by (auto simp: running_def routed_def cluster_ok_def bt_get_remove router_deregister_def router_lookup_def
          split: if_splits)
  qed
  then show "running (cluster_kill env node_id st) = running st - {node_id}"
    "cluster_ok st \<Longrightarrow> cluster_ok (cluster_kill env node_id st)" using same by simp_all
qed

text \<open>Starting a node registers it, and a start that fails leaves the router as it was.\<close>

lemma start_durable_cases:
  assumes "start_durable raft_new wcodec scodec m0 show_error faults dir node_id router = (router', result)"
  shows "(case result of
      Inl _ \<Rightarrow> router' = router
    | Inr node \<Rightarrow> rn_id node = node_id \<and> router' = router_register node_id (rn_raft node) router)"
  using assms by (auto simp: start_durable_def start_with_storage_def start_with_network_def
      split: sum.splits prod.splits)

lemma start_node_cases:
  assumes "start_node env node_id st = (st', result)"
  shows "case result of
      Inl _ \<Rightarrow> same_cluster st st'
    | Inr node \<Rightarrow> running (insert_node node_id node st') = insert node_id (running st)
        \<and> (cluster_ok st \<longrightarrow> cluster_ok (insert_node node_id node st'))"
proof -
  let ?st = "elapse env st"
  have same: "running ?st = running st" "routed ?st = routed st" "cluster_ok st \<Longrightarrow> cluster_ok ?st"
    by (simp_all add: same_clusterD [OF elapse_same])
  obtain router where r: "st' = set_router router ?st" and s: "case result of
      Inl _ \<Rightarrow> router = cl_router (ds_cluster ?st)
    | Inr node \<Rightarrow> rn_id node = node_id \<and> router = router_register node_id (rn_raft node) (cl_router (ds_cluster ?st))"
    using assms by (auto simp: start_node_def Let_def dest!: start_durable_cases split: prod.splits)
  show ?thesis
  proof (cases result)
    case (Inl e)
    then have "same_cluster ?st st'"
      using r s by (simp add: same_cluster_def running_def routed_def cluster_ok_def)
    then show ?thesis using Inl same_cluster_trans [OF elapse_same] by simp
  next
    case (Inr node)
    then have "running (insert_node node_id node st') = insert node_id (running ?st)
      \<and> (cluster_ok ?st \<longrightarrow> cluster_ok (insert_node node_id node st'))"
      using r s by (auto simp: insert_node_def running_def routed_def cluster_ok_def bt_get_insert
          router_register_def router_lookup_def split: if_splits)
    then show ?thesis using Inr same by simp
  qed
qed

lemma restart_cluster:
  "running (cluster_restart env node_id st) \<subseteq> insert node_id (running st)
   \<and> running st \<subseteq> running (cluster_restart env node_id st)
   \<and> (cluster_ok st \<longrightarrow> cluster_ok (cluster_restart env node_id st))"
proof (cases "bt_contains_key (demo_nodes st) node_id")
  case True
  then show ?thesis
    using same_clusterD [of st "say (''node '' @ show_u64 node_id @ '' is already running'') st"]
    by (auto simp: cluster_restart_def)
next
  case False
  obtain st' r where s: "start_node env node_id st = (st', r)" by force
  show ?thesis
  proof (cases r)
    case (Inl e)
    then have "same_cluster st (cluster_restart env node_id st)"
      using start_node_cases [OF s] s False by (simp add: cluster_restart_def)
    then show ?thesis using same_clusterD by blast
  next
    case (Inr node)
    then have "same_cluster (insert_node node_id node st') (cluster_restart env node_id st)"
      using s False by (simp add: cluster_restart_def Let_def)
    then show ?thesis using start_node_cases [OF s] Inr same_clusterD by fastforce
  qed
qed

lemma add_cluster:
  "running (cluster_add env node_id st) \<subseteq> insert node_id (running st)
   \<and> running st \<subseteq> running (cluster_add env node_id st)
   \<and> (cluster_ok st \<longrightarrow> cluster_ok (cluster_add env node_id st))"
proof (cases "bt_contains_key (demo_nodes st) node_id")
  case True
  then show ?thesis
    using same_clusterD [of st "say (''node '' @ show_u64 node_id @ '' already exists'') st"]
    by (auto simp: cluster_add_def)
next
  case False
  obtain st' r where s: "start_node env node_id st = (st', r)" by force
  show ?thesis
  proof (cases r)
    case (Inl e)
    then have "same_cluster st (cluster_add env node_id st)"
      using start_node_cases [OF s] s False by (simp add: cluster_add_def)
    then show ?thesis using same_clusterD by blast
  next
    case (Inr node)
    let ?st = "insert_node node_id node st'"
    obtain st2 l where w: "cluster_wait_for_leader env ?st = (st2, l)" by force
    obtain st3 c where c: "with_node env (the l)
        (add_learner (de_engine env) node_id (''node-'' @ show_u64 node_id) True) st2 = (st3, c)" by force
    have st2: "same_cluster ?st st2" by (rule wait_same [OF w])
    have "same_cluster st2 st3" by (rule with_node_case [OF c]) (simp add: add_learner_def)
    then have st3: "same_cluster ?st st3" using same_cluster_trans [OF st2] by blast
    then have "same_cluster ?st (promote_node env (the l) node_id st3)"
      using same_cluster_trans [OF _ promote_same] by blast
    then have "same_cluster ?st (cluster_add env node_id st)"
      using s False Inr w c st2 st3 by (auto simp: cluster_add_def split: option.split sum.split)
    then show ?thesis using start_node_cases [OF s] Inr same_clusterD by fastforce
  qed
qed

lemma remove_cluster:
  "running (cluster_remove env node_id st) \<subseteq> running st
   \<and> running st - {node_id} \<subseteq> running (cluster_remove env node_id st)
   \<and> (cluster_ok st \<longrightarrow> cluster_ok (cluster_remove env node_id st))"
proof -
  obtain st1 l where w: "cluster_wait_for_leader env st = (st1, l)" by force
  obtain st2 v where v: "with_node env (the l)
      (\<lambda>leader. (leader, tp_voters (topology (de_engine env) leader))) st1 = (st2, v)" by force
  obtain st3 r where r: "with_node env (the l)
      (change_membership (de_engine env) (filter (\<lambda>voter. voter \<noteq> node_id) (the v)) False) st2 = (st3, r)" by force
  have 1: "same_cluster st st1" by (rule wait_same [OF w])
  have "same_cluster st1 st2" by (rule with_node_case [OF v]) simp
  then have 2: "same_cluster st st2" using same_cluster_trans [OF 1] by blast
  have "same_cluster st2 st3" by (rule with_node_case [OF r]) (simp add: change_membership_def)
  then have 3: "same_cluster st st3" using same_cluster_trans [OF 2] by blast
  have "same_cluster st (cluster_remove env node_id st)
    \<or> same_cluster (cluster_kill env node_id st3) (cluster_remove env node_id st)"
    using w v r 1 2 3 by (auto simp: cluster_remove_def split: option.split sum.split)
  then show ?thesis
    using same_clusterD [OF 3] kill_cluster [where st = st3 and env = env and node_id = node_id] same_clusterD
    by fastforce
qed

lemma run_command_cluster:
  assumes "cluster_ok st"
  shows "cluster_ok (fst (run_command env line st))"
proof -
  have "cluster_ok (cluster_status env st)" using same_clusterD(3) [OF status_same assms] .
  moreover have "cluster_ok (cluster_write env n st)" for n using same_clusterD(3) [OF write_same assms] .
  moreover have "cluster_ok (cluster_restart env n st)" for n using restart_cluster [of env n st] assms by blast
  moreover have "cluster_ok (cluster_add env n st)" for n using add_cluster [of env n st] assms by blast
  moreover have "cluster_ok (cluster_remove env n st)" for n using remove_cluster [of env n st] assms by blast
  moreover have "cluster_ok (cluster_kill env n st)" for n using kill_cluster(2) [OF assms] .
  ultimately show ?thesis using assms by (simp add: run_command_def Let_def split: option.split)
qed

lemma start_nodes_cluster:
  "start_nodes env ids st = Inr st' \<Longrightarrow> cluster_ok st \<Longrightarrow> cluster_ok st' \<and> running st' = running st \<union> set ids"
proof (induction ids arbitrary: st)
  case (Cons node_id ids)
  obtain st1 r where s: "start_node env node_id st = (st1, r)" by force
  then obtain node where r: "r = Inr node" using Cons.prems(1) by (cases r) simp_all
  then show ?case using start_node_cases [OF s] Cons.IH [of "insert_node node_id node st1"] Cons.prems s by auto
qed simp

lemma demo_start_cluster:
  assumes "demo_start env args world = Inr st"
  shows "cluster_ok st \<and> running st = set (node_ids (da_nodes args)) \<and> da_nodes args \<noteq> 0"
proof -
  obtain config where c: "default_raft_config (de_validate env) (de_defaults env) = Inr config"
    using assms by (cases "default_raft_config (de_validate env) (de_defaults env)") (simp_all add: demo_start_def)
  let ?ids = "node_ids (da_nodes args)"
  let ?st = "\<lparr>ds_cluster = \<lparr>cl_router = InProcessRouter_new, cl_config = config,
      cl_data_dir = da_data_dir args, cl_nodes = bt_empty\<rparr>, ds_stdout = [], ds_world = world\<rparr>"
  obtain st1 where st1: "start_nodes env ?ids ?st = Inr st1"
    using assms c by (cases "start_nodes env ?ids ?st") (simp_all add: demo_start_def Let_def)
  have start: "cluster_ok ?st" "running ?st = {}"
    by (simp_all add: cluster_ok_def running_def routed_def InProcessRouter_new_def router_lookup_def)
  have ok: "cluster_ok st1" "running st1 = set ?ids"
    using start_nodes_cluster [OF st1 start(1)] unfolding start(2) by simp_all
  obtain first rest where ids: "?ids = first # rest"
    using assms c st1 by (cases ?ids) (simp_all add: demo_start_def Let_def)
  obtain st2 r where w: "with_node env first (initialize (de_engine env)
      (bt_of_list (map (\<lambda>i. (i, ''node-'' @ show_u64 i)) ?ids))) st1 = (st2, r)" by force
  have st2: "same_cluster st1 st2" by (rule with_node_case [OF w]) (simp add: initialize_def)
  obtain line where "st = cluster_status env (say line st2)"
    using assms c st1 ids w by (auto simp: demo_start_def Let_def split: option.splits sum.splits)
  then have "same_cluster st1 st"
    using status_same [of "say line st2" env] same_cluster_trans [OF st2] by simp
  moreover have "da_nodes args \<noteq> 0" using ids by (auto simp: node_ids_def)
  ultimately show ?thesis using ok by (simp add: same_cluster_def)
qed

section \<open>The words of a command\<close>

definition printable :: "char \<Rightarrow> bool" where
  "printable c \<longleftrightarrow> CHR '' '' < c \<and> c \<le> CHR ''~''"

lemma strip_printable: "printable c \<Longrightarrow> strip_any whitespace (c # cs) = None"
proof (rule strip_any_other_head)
  assume "printable c"
  moreover have "list_all (\<lambda>w. w \<noteq> [] \<and> \<not> printable (hd w)) whitespace" by code_simp
  ultimately show "list_all (\<lambda>w. w \<noteq> [] \<and> hd w \<noteq> c) whitespace" by (auto simp: list_all_iff)
qed

lemma split_words_printable:
  "list_all printable cs \<Longrightarrow> split_words word (cs @ rest) = split_words (word @ cs) rest"
  by (induction cs arbitrary: word) (simp_all add: strip_printable)

lemma split_words_space: "split_words word (CHR '' '' # rest) = (if word = [] then [] else [word]) @ split_words [] rest"
  by (simp add: whitespace_def)

lemma split_whitespace_two:
  assumes "list_all printable a" "list_all printable b" "a \<noteq> []" "b \<noteq> []"
  shows "split_whitespace (a @ '' '' @ b) = [a, b]"
  using assms split_words_printable [of b "[]" "[]"]
  by (simp add: split_whitespace_def split_words_printable split_words_space del: split_words.simps(2))

lemma parse_show_u64 [simp]: "parse_u64 (show_u64 n) = Some n"
proof -
  have "unat n < 2 ^ 64" using unsigned_less [of n] by simp
  then have "unat n \<le> usize_max" by (simp add: usize_max_def)
  then show ?thesis by (simp add: parse_u64_def show_u64_def parse_usize_show_nat)
qed

lemma show_u64_printable: "list_all printable (show_u64 n)" "show_u64 n \<noteq> []"
proof -
  have "is_digit c \<Longrightarrow> printable c" for c by (auto simp: is_digit_def printable_def less_eq_char_def less_char_def)
  then show "list_all printable (show_u64 n)" by (auto simp: list_all_iff show_u64_def dest: show_nat_digits)
qed (simp add: show_u64_def)

text \<open>A command written with a number runs the operation on that number.\<close>

lemma run_command_words:
  assumes "list_all printable verb" "verb \<noteq> []"
  shows "split_whitespace (verb @ '' '' @ show_u64 n) = [verb, show_u64 n]"
  using split_whitespace_two [OF assms(1) show_u64_printable(1) assms(2) show_u64_printable(2)] .

lemma run_command_operations:
  "run_command env (''write '' @ show_u64 n) st = (cluster_write env n st, True)"
  "run_command env (''kill '' @ show_u64 n) st = (cluster_kill env n st, True)"
  "run_command env (''restart '' @ show_u64 n) st = (cluster_restart env n st, True)"
  "run_command env (''add '' @ show_u64 n) st = (cluster_add env n st, True)"
  "run_command env (''remove '' @ show_u64 n) st = (cluster_remove env n st, True)"
  using run_command_words [of "''write''" n] run_command_words [of "''kill''" n] run_command_words [of "''restart''" n]
    run_command_words [of "''add''" n] run_command_words [of "''remove''" n]
  by (simp_all add: run_command_def printable_def)

section \<open>Properties of the playground\<close>

text \<open>The states of a session, from the first status on.\<close>

inductive demo_reach ::
    "('lid, 'm, 'vote, 'r, 'c, 'w) demo_env \<Rightarrow> ('lid, 'm, 'r, 'c, 'w) demo_state \<Rightarrow> bool"
  for env :: "('lid, 'm, 'vote, 'r, 'c, 'w) demo_env" where
  started: "demo_start env args world = Inr st \<Longrightarrow> demo_reach env st"
| commanded: "demo_reach env st \<Longrightarrow> demo_reach env (fst (run_command env line st))"
| prompted: "demo_reach env st \<Longrightarrow> demo_reach env (prompt st)"
| echoed: "demo_reach env st \<Longrightarrow> demo_reach env (say line st)"
| waited: "demo_reach env st \<Longrightarrow> demo_reach env (elapse env st)"

lemma demo_reach_ok: "demo_reach env st \<Longrightarrow> cluster_ok st"
proof (induction rule: demo_reach.induct)
  case (waited st)
  then show ?case using same_clusterD(3) [OF elapse_same] by blast
qed (simp_all add: demo_start_cluster run_command_cluster)

text \<open>
  C40. The playground's bookkeeping is consistent.  In every state of a session the router reaches
  exactly the running nodes and each is kept under its own id, whatever the nodes' tasks do and
  whichever starts, shutdowns, writes and membership changes fail.  A \<^verbatim>\<open>kill\<close> command stops exactly
  the node it names, \<^verbatim>\<open>restart\<close> and \<^verbatim>\<open>add\<close> start no other node and stop none, \<^verbatim>\<open>remove\<close> stops at most the
  node it names, and \<^verbatim>\<open>write\<close> neither starts nor stops one.
\<close>

theorem demo_router_tracks_nodes:
  assumes "demo_reach env st"
  shows "routed st = running st
    \<and> list_all (\<lambda>node_id. map_option rn_id (bt_get (demo_nodes st) node_id) = Some node_id) (bt_keys (demo_nodes st))
    \<and> running (fst (run_command env (''kill '' @ show_u64 n) st)) = running st - {n}
    \<and> running (fst (run_command env (''restart '' @ show_u64 n) st)) \<in> {running st, insert n (running st)}
    \<and> running (fst (run_command env (''add '' @ show_u64 n) st)) \<in> {running st, insert n (running st)}
    \<and> running (fst (run_command env (''remove '' @ show_u64 n) st)) \<in> {running st, running st - {n}}
    \<and> running (fst (run_command env (''write '' @ show_u64 n) st)) = running st"
proof -
  have ok: "routed st = running st"
    "\<And>node_id node. bt_get (demo_nodes st) node_id = Some node \<Longrightarrow> rn_id node = node_id"
    using demo_reach_ok [OF assms] by (auto simp: cluster_ok_def)
  have names: "list_all (\<lambda>node_id. map_option rn_id (bt_get (demo_nodes st) node_id) = Some node_id) (bt_keys (demo_nodes st))"
    by (auto simp: list_all_iff bt_keys_iff ok(2))
  have restart: "running (cluster_restart env n st) \<in> {running st, insert n (running st)}"
    using restart_cluster [of env n st] by blast
  have add: "running (cluster_add env n st) \<in> {running st, insert n (running st)}"
    using add_cluster [of env n st] by blast
  have remove: "running (cluster_remove env n st) \<in> {running st, running st - {n}}"
    using remove_cluster [of env n st] by blast
  have "write": "running (cluster_write env n st) = running st" by (rule same_clusterD(1) [OF write_same])
  show ?thesis
    unfolding run_command_operations fst_conv
    by (intro conjI ok(1) names kill_cluster(1) restart add remove "write")
qed

text \<open>A session that returns has stopped every node.\<close>

lemma shutdown_nodes_running: "running (shutdown_nodes env ids st) = running st - set ids"
proof (induction ids arbitrary: st)
  case (Cons node_id ids)
  let ?st = "elapse env st"
  have "running ?st = running st" by (rule same_clusterD(1) [OF elapse_same])
  moreover have "running (fst (stop_node env node (set_nodes (bt_remove node_id (demo_nodes ?st)) ?st)))
      = running ?st - {node_id}" for node
    by (auto simp: running_def bt_get_remove)
  moreover have "bt_get (demo_nodes ?st) node_id = None \<Longrightarrow> node_id \<notin> running ?st" by (simp add: running_def)
  ultimately show ?case using Cons.IH by (auto simp: Let_def split: option.split)
qed simp

lemma demo_main_stops_all:
  assumes "demo_main env temp_dir process_id args stdin world = Inr st"
  shows "running st = {}"
proof -
  obtain st' where "st = say ''playground stopped'' (cluster_shutdown env st')"
    using assms by (auto simp: demo_main_def split: sum.splits option.splits)
  then show ?thesis by (auto simp: cluster_shutdown_def shutdown_nodes_running set_bt_keys running_def [of st'])
qed

text \<open>Without nodes the program panics: it asks the first of no nodes to initialize the cluster.\<close>

lemma demo_main_no_nodes:
  "\<exists>panic. demo_main env temp_dir process_id [''--nodes'', ''0''] stdin world = Inl panic"
proof -
  have "parse_u64 ''0'' = Some 0" by code_simp
  then obtain parsed where p: "parse_args temp_dir process_id [''--nodes'', ''0''] = Inr parsed" "da_nodes parsed = 0"
    by (simp add: parse_args_def)
  have "\<exists>panic. demo_start env parsed world = Inl panic"
    using demo_start_cluster [of env parsed world] p(2) by (cases "demo_start env parsed world") auto
  then show ?thesis using p(1) by (auto simp: demo_main_def)
qed

text \<open>
  Removing an id that no node runs under: once the membership change has gone through, the program
  prints that there is no such node and then that the node was removed.
\<close>

lemma kill_unknown:
  assumes "node_id \<notin> running st"
  shows "cluster_kill env node_id st = say (''no such node: '' @ show_u64 node_id) (elapse env st)"
proof -
  have "node_id \<notin> running (elapse env st)" using assms same_clusterD(1) [OF elapse_same] by blast
  then have "bt_get (demo_nodes (elapse env st)) node_id = None" by (simp add: running_def)
  then show ?thesis by (simp add: cluster_kill_def Let_def)
qed

lemma remove_unknown_reports_both:
  assumes "node_id \<notin> running st" and leader: "cluster_wait_for_leader env st = (st1, Some leader_id)"
    and voters: "with_node env leader_id (\<lambda>leader. (leader, tp_voters (topology (de_engine env) leader))) st1
      = (st2, Some voters)"
    and change: "with_node env leader_id
        (change_membership (de_engine env) (filter (\<lambda>voter. voter \<noteq> node_id) voters) False) st2 = (st3, Some (Inr ()))"
  shows "cluster_remove env node_id st =
    say (''node '' @ show_u64 node_id @ '' removed from the cluster'')
      (say (''no such node: '' @ show_u64 node_id) (elapse env st3))"
proof -
  have "same_cluster st st1" by (rule wait_same [OF leader])
  moreover have "same_cluster st1 st2" by (rule with_node_case [OF voters]) simp
  moreover have "same_cluster st2 st3" by (rule with_node_case [OF change]) (simp add: change_membership_def)
  ultimately have "node_id \<notin> running st3" using assms(1) by (simp add: same_cluster_def)
  then show ?thesis using leader voters change by (simp add: cluster_remove_def kill_unknown)
qed

section \<open>A session of one node\<close>

definition solo_engine :: "(nat, nat, unit) raft_engine" where
  "solo_engine =
     \<lparr>re_client_write = (\<lambda>command (r, sm). case apply_entry (gs_inner sm) (demo_entry 1 command) of
        (_, response, _) \<Rightarrow> ((r, fst (sm_apply sm [demo_entry 1 command])), Inr response)),
      re_initialize = (\<lambda>members st. (st, Inr ())),
      re_metrics = (\<lambda>r. \<lparr>rm_running = True, rm_current_leader = Some 1, rm_last_applied = None, rm_snapshot = None,
         rm_voters = [1], rm_learners = [], rm_nodes = [(1, ''node-1'')]\<rparr>),
      re_current_leader = (\<lambda>r. Some 1),
      re_ensure_linearizable = (\<lambda>st. (st, Inr ())),
      re_wait = (\<lambda>timeout p st. (st, Inl ''timeout'')),
      re_add_learner = (\<lambda>node_id addr blocking st. (st, Inr ())),
      re_change_membership = (\<lambda>voters retain st. (st, Inr ())),
      re_shutdown = (\<lambda>st. (st, Inr ()))\<rparr>"

definition solo_env :: "(nat, nat, nat, unit, unit, unit) demo_env" where
  "solo_env =
     \<lparr>de_engine = solo_engine, de_raft_new = (\<lambda>config node_id router log_store sm. Inr ((), sm)),
      de_wal_codec = \<lparr>enc_record = (\<lambda>r. Inl ''unused''), dec_record = (\<lambda>s. Inl ''unused'')\<rparr>,
      de_snapshot_codec = \<lparr>enc_state = (\<lambda>s. Inl ''unused''), dec_state = (\<lambda>s. Inl ''unused''),
        enc_stored = (\<lambda>s. Inl ''unused''), dec_stored = (\<lambda>s. Inl ''unused'')\<rparr>,
      de_membership = 0, de_show_error = (\<lambda>e. ''error''), de_debug_str = (\<lambda>s. s),
      de_validate = Inr, de_defaults = (),
      de_dir = (\<lambda>w path. \<lparr>dd_wal = None, dd_wal_tmp = None, dd_snapshot = None, dd_snapshot_tmp = None\<rparr>),
      de_faults = (\<lambda>w path. \<lparr>df_create_dir = None, df_open_wal = None, df_writes = [], df_read_snapshot = None\<rparr>),
      de_elapse = (\<lambda>w nodes. (w, \<lambda>node_id. case bt_get nodes node_id of
         Some node \<Rightarrow> (rn_raft node, rn_state_machine node) | None \<Rightarrow> ((), state_machine_default 0))),
      de_dropped = (\<lambda>node w. w)\<rparr>"

definition solo_args :: demo_args where
  "solo_args = \<lparr>da_nodes = 1, da_data_dir = ''/tmp/demo'', da_script = None\<rparr>"

lemma demo_start_returns:
  assumes config: "default_raft_config (de_validate env) (de_defaults env) = Inr config"
    and starts: "\<And>node_id st. \<exists>st' node. start_node env node_id st = (st', Inr node)"
    and init: "\<And>members node. snd (initialize (de_engine env) members node) = Inr ()"
    and ids: "node_ids (da_nodes args) \<noteq> []"
  shows "\<exists>st. demo_start env args world = Inr st"
proof -
  let ?ids = "node_ids (da_nodes args)"
  let ?st = "\<lparr>ds_cluster = \<lparr>cl_router = InProcessRouter_new, cl_config = config,
      cl_data_dir = da_data_dir args, cl_nodes = bt_empty\<rparr>, ds_stdout = [], ds_world = world\<rparr>"
  have "\<exists>st'. start_nodes env ids st = Inr st'" for ids st
  proof (induction ids arbitrary: st)
    case (Cons node_id ids)
    obtain st' node where "start_node env node_id st = (st', Inr node)" using starts by blast
    then show ?case using Cons.IH by simp
  qed simp
  then obtain st1 where st1: "start_nodes env ?ids ?st = Inr st1" by blast
  obtain first rest where first: "?ids = first # rest" using ids by (cases ?ids) simp_all
  have "cluster_ok ?st"
    by (simp add: cluster_ok_def running_def routed_def InProcessRouter_new_def router_lookup_def)
  from start_nodes_cluster [OF st1 this] first have "first \<in> running st1" by simp
  from with_node_running [OF this, of env "initialize (de_engine env)
      (bt_of_list (map (\<lambda>i. (i, ''node-'' @ show_u64 i)) ?ids))"]
  obtain st2 where "with_node env first (initialize (de_engine env)
      (bt_of_list (map (\<lambda>i. (i, ''node-'' @ show_u64 i)) ?ids))) st1 = (st2, Some (Inr ()))"
    unfolding init by blast
  then show ?thesis using config st1 first by (simp add: demo_start_def Let_def)
qed

lemma solo_started: "\<exists>st. demo_start solo_env solo_args () = Inr st"
proof (rule demo_start_returns)
  show "default_raft_config (de_validate solo_env) (de_defaults solo_env) = Inr \<lparr>co_snapshot_logs_since_last =
      SNAPSHOT_LOGS_SINCE_LAST, co_max_in_snapshot_log_to_keep = MAX_IN_SNAPSHOT_LOG_TO_KEEP, co_rest = ()\<rparr>"
    by (simp add: default_raft_config_def solo_env_def)
  show "\<exists>st' node. start_node solo_env node_id st = (st', Inr node)" for node_id st
    by (simp add: start_node_def start_durable_def open_durable_storage_def start_with_storage_def
        start_with_network_def solo_env_def fs_open_def sm_persistent_def Let_def)
  show "snd (initialize (de_engine solo_env) members node) = Inr ()" for members node
    by (simp add: initialize_def engine_call_def solo_env_def solo_engine_def)
  show "node_ids (da_nodes solo_args) \<noteq> []" by code_simp
qed

lemma solo_demo: "parse_args ''/tmp'' 7 [''--nodes'', ''2'', ''--script'', ''quit''] = Inr
    \<lparr>da_nodes = 2, da_data_dir = ''/tmp/ganglion-playground-7'', da_script = Some ''quit''\<rparr>"
  by code_simp

theorem demo_router_tracks_nodes_witness:
  "\<exists>st. demo_start solo_env solo_args () = Inr st \<and> routed st = {1}
     \<and> running (fst (run_command solo_env (''kill '' @ show_u64 1) st)) = {}"
proof -
  obtain st where st: "demo_start solo_env solo_args () = Inr st"
    using solo_started by blast
  have "node_ids 1 = [1]" by code_simp
  then have run: "running st = {1}" using demo_start_cluster [OF st] by (simp add: solo_args_def)
  have "routed st = running st \<and> running (fst (run_command solo_env (''kill '' @ show_u64 1) st)) = running st - {1}"
    using demo_router_tracks_nodes [OF demo_reach.started [OF st], of 1] by (intro conjI) (elim conjE, assumption)+
  then show ?thesis using st run by auto
qed

end
