(* ===== verification/Spec2Isabelle.thy ===== *)
theory Spec2Isabelle
  imports Local_Transitions Shared_Value Wal_Recovery Coordination Metadata_Consensus Keratin_Log Snapshot_File Read_Race Cluster_Demo
begin

text \<open>
  A verification development for \<^bold>\<open>ganglion\<close>, a coordination layer for brokers: a planner that assigns
  partitions to nodes, a replicated metadata state machine with its durable storage, and the
  transport and runtime node around an external consensus library.

  \<^bold>\<open>Parts and how they interact.\<close>  A controller reads the committed snapshot, plans placements
  (\<^verbatim>\<open>ganglion-core\<close>), stamps fencing epochs and proposes the result under a generation guard
  (\<^verbatim>\<open>node.rs\<close>).  The proposal is a command of the replicated state machine (\<^verbatim>\<open>mod.rs\<close>, \<^verbatim>\<open>storage.rs\<close>),
  which every node applies in log order; the log and the vote live in a write-ahead file
  (\<^verbatim>\<open>durable.rs\<close>), the applied state in a snapshot file.  Nodes exchange consensus messages through an
  in-process router (\<^verbatim>\<open>network.rs\<close>) or over framed TCP streams (\<^verbatim>\<open>tcp.rs\<close>) whose failures are recorded
  (\<^verbatim>\<open>peer_health.rs\<close>).  Each broker derives its local role changes from two successive snapshots.
  Beside the replicated path there are a single-process adapter with a leader flag and a metadata
  log (\<^verbatim>\<open>ganglion-openraft/src/lib.rs\<close>, \<^verbatim>\<open>ganglion-storage\<close>) and plain coordination providers
  (\<^verbatim>\<open>ganglion-coordination\<close>).  An interactive playground (\<^verbatim>\<open>examples/cluster_demo.rs\<close>) runs several durable
  nodes on one router.

  \<^bold>\<open>Theories.\<close>
  \<^item> \<open>Prelude\<close>: results, machine words, decimal text, white space, lines.  \<open>Ordered_Map\<close>:
    the ordered maps and sets of the standard library as sorted association lists.
  \<^item> \<open>Core_Model\<close> (\<^verbatim>\<open>ganglion-core/src/lib.rs\<close>): resources, nodes, assignments, snapshots, durability
    policies, epochs and \<^verbatim>\<open>stamp_assignment_epochs\<close>, the pair encoding of assignments.
    \<open>Placement\<close>: the deterministic and the least-loaded planner.  \<open>Local_Transitions\<close>: roles and
    \<^verbatim>\<open>plan_local_assignment_transitions\<close>.  \<open>Shared_Value\<close> (\<^verbatim>\<open>shared.rs\<close>): copy-on-write values over an
    explicit heap of reference counts.
  \<^item> \<open>Raft_Types\<close>, \<open>State_Machine\<close> (\<^verbatim>\<open>openraft_runtime/mod.rs\<close>, \<^verbatim>\<open>storage.rs\<close>): commands, rejections,
    \<^verbatim>\<open>apply\<close>, snapshot building, installation and persistence with every file failure, the
    watch channel.  \<open>Replicas\<close>: several copies of the machine fed from one log.  \<open>Snapshot_File\<close>: the snapshot
    file write by its system calls, with several writers.  \<open>Json_Model\<close>: the laws assumed of the serialization library, and a concrete
    encoder that satisfies them.
  \<^item> \<open>Log_Store\<close> (\<^verbatim>\<open>storage.rs\<close>): the in-memory raft log and the contract \<open>raft_log\<close>.  \<open>Wal_Store\<close>,
    \<open>Wal_Recovery\<close> (\<^verbatim>\<open>durable.rs\<close>): records, replay, the writer thread with group commit and
    fail-stop, rewriting, the store's operations; then the invariant and its consequences.
    \<open>Read_Race\<close> (\<^verbatim>\<open>step_down_read_race.rs\<close>): replication reads interleaved with the core's writes and
    truncations.
  \<^item> \<open>Metadata_Log\<close> (\<^verbatim>\<open>ganglion-storage/src/lib.rs\<close>): the in-memory and the file log and the contract
    \<open>metadata_log\<close>.  \<open>Keratin_Log\<close>: the same log over an external record store.
    \<open>Replay_Profile\<close>, \<open>Consensus_Node\<close>, \<open>Metadata_Consensus\<close> (\<^verbatim>\<open>ganglion-openraft/src/lib.rs\<close>): replay
    profiles, the local nodes, and the contract \<open>metadata_consensus\<close> with the control loop over it.  \<open>Coordination\<close> (\<^verbatim>\<open>ganglion-coordination/src/lib.rs\<close>): the providers.
  \<^item> \<open>Peer_Health\<close>, \<open>Wire_Frames\<close>, \<open>Raft_Transport\<close> (\<^verbatim>\<open>peer_health.rs\<close>, \<^verbatim>\<open>network.rs\<close>, \<^verbatim>\<open>tcp.rs\<close>): the
    failure table, frames over a stream with read and write failures, router, serving loop and
    forwarded writes.  \<open>Peer_Connection\<close> (\<^verbatim>\<open>tcp.rs\<close>): the connection to a peer with its idle monitor as a
    task of its own.  \<open>Raft_Node\<close> (\<^verbatim>\<open>node.rs\<close>): the runtime node.
    \<open>Cluster_Demo\<close> (\<^verbatim>\<open>cluster_demo.rs\<close>): the playground, its command line and its output; what the
    nodes do between two steps of the program is a parameter.

  \<^bold>\<open>Correspondence.\<close>  A struct is a record, an enum a datatype, \<^verbatim>\<open>u64\<close> and \<^verbatim>\<open>u32\<close> are words that wrap
  where the code adds without checking, \<^verbatim>\<open>usize\<close> counts are natural numbers, a \<^verbatim>\<open>BTreeMap\<close> is a sorted
  association list, text is a list of bytes.  A method on \<^verbatim>\<open>&self\<close> with interior mutability takes and
  returns the state.  An I/O call that may fail takes the failure as an argument (which step fails,
  after how many bytes), so every error path is a branch.  Loops are recursive functions with
  termination proofs; the serving loop ends because each turn consumes input, the retry loop
  because it counts its retries, white-space trimming because the text shrinks, the playground's wait for a leader because it polls
  a hundred times.  No fuel is used;
  the one loop that depends on an external store (\<open>Keratin_Log\<close>) is a partial function, and that
  it returns is proved.

  \<^bold>\<open>What is shown.\<close>  Planning: a plan is total, valid, stable under replanning and fences owner
  changes.  State machine: rejections are exact, generations never decrease, guarded writers exclude
  each other, heartbeats and repeated registrations are harmless, watchers are in step up to labels,
  snapshots transfer and survive failed writes (a file write is one step there; \<open>Snapshot_File\<close> shows that
  writers taking turns never leave a torn file and that a receipt overlapping a build can), and copies of the machine that have applied up to the
  same log id agree, whatever snapshots, failures and restarts led there.  Storage: the write-ahead log refines the in-memory
  log, recovers exactly after a crash at any byte, stops after a failed write, may be written in any
  grouping, and stays bounded; a replication read is atomic under every interleaving, and an empty one
  has a cause; the metadata logs refine one list.  Local nodes: proposals are judged
  exactly, restarts restore, terms and generations never go back, and the control loop publishes
  exactly what was committed.  Transport: frames round-trip and
  are bounded, a connection answers in order, a forwarded write returns the leader's reply, no
  reply reaches another request in any life of a connection, and the loss of an idle peer is reported
  without a call.  Runtime node: the guarded controller iteration
  commits what it planned from a state of its own log, under a guard that still held right before its
  entry, and wins once contention ends; a refused command is told the value committed at its place in the log.
  Playground: the router reaches exactly the running nodes.  This
  theory adds the properties that span components: the restart of a durable directory, its recovery after
  a crash in agreement with the other copies, and fenced hand-over from the controller down to the brokers' local transitions.

  \<^bold>\<open>Assumptions.\<close>  The consensus library is a record of the calls the code makes, together with \<open>applied_log\<close>, the
  committed log up to the entry the local machine has applied, which the library's state determines.  \<open>linearized\<close>
  says that the machine stays in step with that log (entry by entry or by a snapshot), that the log only
  grows, and that an acknowledged write is one entry of it, answered with the machine's reply at that place.
  Nothing is assumed about the entries of other clients; where a conclusion needs them to keep to the
  guarded protocol, the theorem says so of the entries in question (\<open>civil_history\<close>), since the public unguarded
  snapshot write does not.  The serializers are arguments
  with the laws of \<open>Json_Model\<close> and \<open>wire_codec_ok\<close> as hypotheses (round trip, one line, UTF-8); each is met by a concrete codec in the
  witnesses.  A completed sync keeps the bytes written before it, a rename is atomic.

  \<^bold>\<open>Scope of the storage theorems.\<close>  They are about stores reached from an open of a synced file that ends in a line
  feed, through purges that succeed (\<open>wal_reach\<close>); \<open>Wal_Recovery\<close> also shows what happens to a file without the
  final line feed and after a purge that failed past its rename.  The theorems on the record store are
  about one whose calls succeed (\<open>keratin_ok\<close>).

  \<^bold>\<open>Not modelled.\<close>  Elections, replication and membership changes (the consensus library); sockets,
  timers and task cancellation below the events the code reacts to; locks and threads other than
  the writer thread, the idle monitor, the two steps of a received snapshot, the writers of a snapshot file and the readers of
  \<open>Read_Race\<close>, which the code serializes with a mutex or a watch channel; logging output; the
  re-exporting facade crate; the test modules other than the read race.
\<close>

section \<open>Properties that span components\<close>

text \<open>
  Whenever the local transition plans for the step from \<open>prev\<close> to \<open>nxt\<close> demote one broker and promote
  another on a resource, the two differ, both are told the same new epoch, and it is the demoted
  broker's epoch plus one and greater than it (unless that epoch was the 64-bit maximum).
\<close>

definition fenced_handover :: "CoordinationSnapshot \<Rightarrow> CoordinationSnapshot \<Rightarrow> bool" where
  "fenced_handover prev nxt \<longleftrightarrow> (\<forall>r a b from_epoch to_epoch new_epoch. from_epoch \<noteq> u64_max \<longrightarrow>
     DemoteOwnerToFollower r from_epoch to_epoch \<in> set (plan_local_assignment_transitions a prev nxt) \<longrightarrow>
     PromoteFollowerToOwner r new_epoch \<in> set (plan_local_assignment_transitions b prev nxt) \<longrightarrow>
     a \<noteq> b \<and> to_epoch = from_epoch + 1 \<and> from_epoch < new_epoch \<and> new_epoch = to_epoch)"

lemma fences_handover:
  assumes "fences prev nxt"
  shows "fenced_handover prev nxt"
  unfolding fenced_handover_def
proof (intro allI impI)
  fix r a b and from_epoch to_epoch new_epoch :: u64
  assume room: "from_epoch \<noteq> u64_max"
    and demote: "DemoteOwnerToFollower r from_epoch to_epoch \<in> set (plan_local_assignment_transitions a prev nxt)"
    and promote: "PromoteFollowerToOwner r new_epoch \<in> set (plan_local_assignment_transitions b prev nxt)"
  show "a \<noteq> b \<and> to_epoch = from_epoch + 1 \<and> from_epoch < new_epoch \<and> new_epoch = to_epoch"
    using handover_epochs [OF demote promote] assms room by (fastforce simp: fences_def u64_less_succ)
qed

text \<open>
  C2. Ownership moves are fenced from the controller to the brokers.  When a controller iteration
  succeeds, its entry is in the node's committed log, behind what the successful attempt had read and
  what other writers put in between; the returned snapshot is the state of the log right after that
  entry, and its generation is greater than the one right before.  A broker that follows the log from
  the state the controller read to this snapshot gets fenced hand-overs: where the transition plans of
  two brokers demote the one and promote the other, both are told the same new epoch, the old one plus
  one.  If the entries in between keep to the protocol (snapshots only under a guard and with a greater
  generation, counter not exhausted), the same holds from the state right before the entry.
\<close>

theorem controller_handover_fenced:
  assumes engine: "linearized m0 applied_log engine"
    and start: "tracks m0 applied_log (rn_raft node) (rn_state_machine node)"
    and run: "plan_and_propose_guarded engine plan retries node = (node', Inr response)"
  shows "\<exists>read between entry rest. applied_log (rn_raft node') = applied_log (rn_raft node) @ read @ between @ entry # rest
    \<and> (let seen = applied_log (rn_raft node) @ read; committed = state_after m0 seen;
           prev = state_after m0 (seen @ between); nxt = state_after m0 (seen @ between @ [entry]) in
       en_payload entry = Normal (ApplySnapshotGuarded (cs_generation committed) (mr_snapshot response))
       \<and> mr_snapshot response = nxt \<and> cs_generation prev < cs_generation nxt
       \<and> fenced_handover committed nxt
       \<and> (civil_history (log_inner m0 seen) between \<longrightarrow> fenced_handover prev nxt))"
proof -
  obtain read between entry rest where
    log: "applied_log (rn_raft node') = applied_log (rn_raft node) @ read @ between @ entry # rest"
    and response: "mr_snapshot response = state_after m0 (applied_log (rn_raft node) @ read @ between @ [entry])"
    and commit: "fenced_commit m0 plan (applied_log (rn_raft node) @ read) between entry"
    using guarded_run_fenced [OF engine start run] by blast
  show ?thesis
    by (intro exI [of _ read] exI [of _ between] exI [of _ entry] exI [of _ rest] conjI log)
      (use response commit fences_handover in \<open>auto simp: fenced_commit_def Let_def\<close>)
qed

text \<open>
  C3. A durable node restarts where it stopped.  Given a store whose writes are all flushed, and a
  persistent state machine that built a snapshot and then applied entries the store holds, opening
  the directory they left behind succeeds; the reopened log has the same vote, the same log state and
  the same entries, and applying those entries to the reopened machine gives the same replies, applied
  position, membership and committed state.
\<close>

theorem durable_node_restart:
  assumes wal: "wal_codec_ok wcodec" "codec_total (enc_record wcodec)"
    and snapshots: "snapshot_codec_ok scodec"
    and store: "wal_reach wcodec store" "ww_failed (fs_wal store) = None" "ww_queue (fs_wal store) = []"
    and machine: "gs_persistent sm" "build_snapshot scodec show_leader fault sm = (sm', Inr (meta, data))"
    and tail: "fs_try_get_log_entries store lo hi = Some tail"
    and dir: "dd_wal dir = Some f" "wf_bytes f = wf_bytes (dk_wal (fs_disk store))"
      "dd_snapshot dir = gs_file (fst (sm_apply sm' tail))"
    and healthy: "df_create_dir faults = None" "df_open_wal faults = None" "df_read_snapshot faults = None"
  shows "\<exists>log_store state_machine.
      open_durable_storage wcodec scodec m0 show_error faults dir = Inr (log_store, state_machine)
    \<and> fs_read_vote log_store = fs_read_vote store \<and> fs_get_log_state log_store = fs_get_log_state store
    \<and> fs_try_get_log_entries log_store lo hi = Some tail
    \<and> snd (sm_apply state_machine tail) = snd (sm_apply sm' tail)
    \<and> applied_view (fst (sm_apply state_machine tail)) = applied_view (fst (sm_apply sm' tail))"
proof -
  obtain log_store where log: "fs_open wcodec None (df_writes faults) (Some f) (dd_wal_tmp dir) = Inr log_store"
    "fs_state log_store = fs_state store"
    using reopen_at_rest [OF wal store dir(2)] by blast
  obtain reopened where sm: "sm_persistent scodec m0 None (dd_snapshot dir) (dd_snapshot_tmp dir) = Inr reopened"
    "snd (sm_apply reopened tail) = snd (sm_apply sm' tail)"
    "applied_view (fst (sm_apply reopened tail)) = applied_view (fst (sm_apply sm' tail))"
    using reopen_built [OF snapshots machine] dir(3) by metis
  show ?thesis
    using log sm healthy dir(1) tail
    by (simp add: open_durable_storage_def fs_read_vote_def fs_get_log_state_def fs_try_get_log_entries_def)
qed

text \<open>
  C4. A durable node survives a crash.  Take a store whose writer has not failed, and let the node die
  with any part of the queued bytes in the write-ahead file and with any snapshot file.  Opening the
  directory fails exactly when the write-ahead file ends in a torn record or the snapshot file does not
  decode; otherwise the reopened log has every acknowledged record and a prefix of the queued ones.  If
  the snapshot file is the one a copy of the log had written, it does decode, and the reopened machine
  is again a copy of that log: it agrees with every other copy that has applied up to the same log id,
  in membership and committed state and in every further reply.
  The store is one reached from an open of a file that ends in a line feed, by operations whose purges
  succeed (\<open>wal_reach\<close>), and the copy's file writes took turns (\<open>replica\<close>); what happens outside these
  bounds is shown in \<open>Wal_Recovery\<close> and \<open>Snapshot_File\<close>.
\<close>

theorem durable_node_crash:
  assumes wal: "wal_codec_ok wcodec" "codec_total (enc_record wcodec)" "codec_braced (enc_record wcodec)"
      "codec_prefix_free (enc_record wcodec) (dec_record wcodec)"
    and snapshots: "snapshot_codec_ok scodec" and log: "distinct (map en_log_id log)"
    and store: "wal_reach wcodec store" "ww_failed (fs_wal store) = None"
    and machine: "replica scodec show_leader m0 log sm"
    and dir: "dd_wal dir = Some \<lparr>wf_bytes = wf_bytes (dk_wal (fs_disk store)) @ take j (queue_bytes (fs_wal store)),
        wf_synced = synced\<rparr>"
    and healthy: "df_create_dir faults = None" "df_open_wal faults = None" "df_read_snapshot faults = None"
  shows "\<exists>pending. encode_records wcodec pending = (queue_bytes (fs_wal store), None)
    \<and> (dd_snapshot dir = gs_file sm \<longrightarrow> \<not> snapshot_unreadable scodec (dd_snapshot dir))
    \<and> (case open_durable_storage wcodec scodec m0 show_error faults dir of
         Inl error \<Rightarrow> (\<forall>m. \<not> complete_records wcodec pending (take j (queue_bytes (fs_wal store))) m)
           \<or> snapshot_unreadable scodec (dd_snapshot dir)
       | Inr (log_store, state_machine) \<Rightarrow>
           (\<exists>m. complete_records wcodec pending (take j (queue_bytes (fs_wal store))) m
              \<and> fold apply_record (drop m pending) (fs_state log_store) = fs_state store)
           \<and> \<not> snapshot_unreadable scodec (dd_snapshot dir)
           \<and> (dd_snapshot dir = gs_file sm \<longrightarrow> copy_in_step scodec show_leader m0 log state_machine))"
    (is "\<exists>pending. _ \<and> _ \<and> ?outcome pending")
proof -
  obtain pending where p: "encode_records wcodec pending = (queue_bytes (fs_wal store), None)"
    and open_wal: "case fs_open wcodec None (df_writes faults) (dd_wal dir) (dd_wal_tmp dir) of
        Inr reopened \<Rightarrow> \<exists>m. complete_records wcodec pending (take j (queue_bytes (fs_wal store))) m
          \<and> fold apply_record (drop m pending) (fs_state reopened) = fs_state store
      | Inl error \<Rightarrow> (\<exists>message. error = ReadLogs message)
          \<and> (\<forall>m. \<not> complete_records wcodec pending (take j (queue_bytes (fs_wal store))) m)"
    using crash_cut [OF wal store, where j = j and synced = synced and script = "df_writes faults" and tmp = "dd_wal_tmp dir"] dir by auto
  let ?opened = "sm_persistent scodec m0 None (dd_snapshot dir) (dd_snapshot_tmp dir)"
  have readable: "\<not> snapshot_unreadable scodec (gs_file sm)"
    using replica_file_opens [OF snapshots replica_invariant [OF snapshots log machine], of "dd_snapshot_tmp dir"]
      open_fails_iff [of scodec m0 "gs_file sm"] by (metis isl_def Inl_Inr_False)
  have copy: "copy_in_step scodec show_leader m0 log reopened"
    if "dd_snapshot dir = gs_file sm" "?opened = Inr reopened" for reopened
    using replica.reopened [OF machine] replica_in_step [OF snapshots log] that by metis
  note iff = open_fails_iff [of scodec m0 "dd_snapshot dir" "dd_snapshot_tmp dir"]
  show ?thesis
  proof (intro exI [of _ pending] conjI p)
    show "dd_snapshot dir = gs_file sm \<longrightarrow> \<not> snapshot_unreadable scodec (dd_snapshot dir)" using readable by simp
  next
    show "?outcome pending"
    proof (cases "fs_open wcodec None (df_writes faults) (dd_wal dir) (dd_wal_tmp dir)")
      case (Inl error)
      then show ?thesis using open_wal healthy by (simp add: open_durable_storage_def)
    next
      case (Inr log_store)
      note log_opened = this
      show ?thesis
      proof (cases ?opened)
        case (Inl error)
        then show ?thesis using iff log_opened healthy by (simp add: open_durable_storage_def)
      next
        case (Inr reopened)
        have "\<not> snapshot_unreadable scodec (dd_snapshot dir)" using iff Inr by simp
        moreover have "dd_snapshot dir = gs_file sm \<longrightarrow> copy_in_step scodec show_leader m0 log reopened"
          using copy Inr by blast
        ultimately show ?thesis using log_opened Inr open_wal healthy by (simp add: open_durable_storage_def)
      qed
    qed
  qed
qed

section \<open>Witnesses\<close>

text \<open>A store that appended one entry and wrote it.\<close>

definition demo_queued :: "(nat, nat, nat) FileRaftLogStore" where
  "demo_queued = fst (fs_append unary_wal [demo_log_entry 1 1] 5 demo_store)"

definition demo_logged :: "(nat, nat, nat) FileRaftLogStore" where
  "demo_logged = set_wal (writer_round 1 (wal_of demo_queued)) demo_queued"

lemma demo_queued: "\<exists>b w. demo_queued = demo_store\<lparr>
      fs_state := DurableState_default\<lparr>du_log := insert_entry (demo_log_entry 1 1) bt_empty\<rparr>, fs_wal := w\<rparr>
    \<and> ww_queue w = [WriteJob b (Flushed 5)] \<and> ww_failed w = None \<and> ww_running w
    \<and> ww_script w = [] \<and> ww_file w = None"
proof -
  obtain t where "enc_record unary_wal (WEntry (demo_log_entry 1 1)) = Inr t"
    using unary_wal_ok(2) codec_total_def by metis
  then show ?thesis
    by (simp add: demo_queued_def fs_append_def queue_entries_def check_injected_failure_def demo_store_def
        encode_record_def WalWriter_start_def wal_submit_def DurableState_default_def Let_def)
qed

lemma demo_logged: "wal_reach unary_wal demo_logged" "ww_failed (fs_wal demo_logged) = None"
    "ww_queue (fs_wal demo_logged) = []"
    "fs_try_get_log_entries demo_logged Unbounded Unbounded = Some [demo_log_entry 1 1]"
proof -
  show "wal_reach unary_wal demo_logged"
    unfolding demo_logged_def demo_queued_def
    by (intro wal_reach.written wal_reach.appended wal_reach.opened [OF demo_store_opens]) simp
  obtain b w where q: "demo_queued = demo_store\<lparr>
      fs_state := DurableState_default\<lparr>du_log := insert_entry (demo_log_entry 1 1) bt_empty\<rparr>, fs_wal := w\<rparr>"
    and w: "ww_queue w = [WriteJob b (Flushed 5)]" "ww_failed w = None" "ww_running w" "ww_script w = []"
      "ww_file w = None" using demo_queued by blast
  have writer: "fs_wal demo_queued = w" by (simp add: q)
  have "list_all is_write (ww_queue w)" by (simp add: w)
  from round_clean [OF w(2,5,4,3) this, of 1 "dk_wal (fs_disk demo_queued)"] w(1,2) writer
  show "ww_failed (fs_wal demo_logged) = None" "ww_queue (fs_wal demo_logged) = []"
    by (auto simp: demo_logged_def set_wal_def)
  have "log_range Unbounded Unbounded (insert_entry (demo_log_entry 1 1) bt_empty) = Some [demo_log_entry 1 1]"
    by code_simp
  then show "fs_try_get_log_entries demo_logged Unbounded Unbounded = Some [demo_log_entry 1 1]"
    by (simp add: demo_logged_def set_wal_def fs_try_get_log_entries_def q)
qed

theorem durable_node_restart_witness:
  "\<exists>sm' meta data log_store state_machine.
      build_snapshot unary_codec show_nat None demo_machine = (sm', Inr (meta, data))
    \<and> open_durable_storage unary_wal unary_codec 0 (\<lambda>_. []) \<lparr>df_create_dir = None, df_open_wal = None,
         df_writes = [], df_read_snapshot = None\<rparr>
        \<lparr>dd_wal = Some (dk_wal (fs_disk demo_logged)), dd_wal_tmp = None,
         dd_snapshot = gs_file (fst (sm_apply sm' [demo_log_entry 1 1])), dd_snapshot_tmp = None\<rparr>
      = Inr (log_store, state_machine)
    \<and> fs_try_get_log_entries log_store Unbounded Unbounded = Some [demo_log_entry 1 1]
    \<and> applied_view (fst (sm_apply state_machine [demo_log_entry 1 1]))
      = applied_view (fst (sm_apply sm' [demo_log_entry 1 1]))"
proof -
  obtain sm' meta data where
    b: "build_snapshot unary_codec show_nat None demo_machine = (sm', Inr (meta, data))"
    using demo_build by blast
  have p: "gs_persistent demo_machine" by code_simp
  show ?thesis
    using durable_node_restart [OF unary_wal_ok unary_codec_ok demo_logged(1-3) p b demo_logged(4),
      of "\<lparr>dd_wal = Some (dk_wal (fs_disk demo_logged)), dd_wal_tmp = None,
         dd_snapshot = gs_file (fst (sm_apply sm' [demo_log_entry 1 1])), dd_snapshot_tmp = None\<rparr>"
         "dk_wal (fs_disk demo_logged)"
         "\<lparr>df_create_dir = None, df_open_wal = None, df_writes = [], df_read_snapshot = None\<rparr>" 0 "\<lambda>_. []"]
      b by auto
qed

text \<open>The node dies after the queued entry reached the file and before the write was acknowledged.\<close>

theorem durable_node_crash_witness:
  "\<exists>log_store state_machine. open_durable_storage unary_wal unary_codec 0 (\<lambda>_. []) \<lparr>df_create_dir = None,
         df_open_wal = None, df_writes = [], df_read_snapshot = None\<rparr>
        \<lparr>dd_wal = Some \<lparr>wf_bytes = wf_bytes (dk_wal (fs_disk demo_queued)) @ queue_bytes (fs_wal demo_queued),
           wf_synced = 0\<rparr>, dd_wal_tmp = None, dd_snapshot = gs_file demo_machine, dd_snapshot_tmp = None\<rparr>
      = Inr (log_store, state_machine)
    \<and> replica unary_codec show_nat 0 demo_entries state_machine"
proof -
  let ?queued = "queue_bytes (fs_wal demo_queued)"
  let ?dir = "\<lparr>dd_wal = Some \<lparr>wf_bytes = wf_bytes (dk_wal (fs_disk demo_queued)) @ ?queued, wf_synced = 0\<rparr>,
     dd_wal_tmp = None, dd_snapshot = gs_file demo_machine, dd_snapshot_tmp = None\<rparr>"
  let ?faults = "\<lparr>df_create_dir = None, df_open_wal = None, df_writes = [], df_read_snapshot = None\<rparr>"
  obtain w where q: "demo_queued = demo_store\<lparr>
      fs_state := DurableState_default\<lparr>du_log := insert_entry (demo_log_entry 1 1) bt_empty\<rparr>, fs_wal := w\<rparr>"
    and w: "ww_failed w = None" using demo_queued by blast
  have running: "ww_failed (fs_wal demo_queued) = None" by (simp add: q w)
  have reach: "wal_reach unary_wal demo_queued"
    unfolding demo_queued_def by (intro wal_reach.appended wal_reach.opened [OF demo_store_opens]) simp
  have log: "distinct (map en_log_id demo_entries)" by code_simp
  note laws = unary_wal_ok unary_wal_torn
  let ?opened = "open_durable_storage unary_wal unary_codec 0 (\<lambda>_. []) ?faults ?dir"
  note crash = durable_node_crash [OF laws unary_codec_ok log reach running demo_replica,
      where dir = ?dir and j = "length ?queued" and synced = 0 and faults = ?faults and show_error = "\<lambda>_. []"]
  show ?thesis
  proof (cases ?opened)
    case (Inl error)
    then obtain pending where "encode_records unary_wal pending = (?queued, None)"
      "\<not> complete_records unary_wal pending ?queued (length pending)" using crash by auto
    then show ?thesis by (simp add: complete_records_def)
  next
    case (Inr opened)
    then show ?thesis using crash by (cases opened) (auto simp: copy_in_step_def)
  qed
qed

text \<open>A controller that moves the resource from \<^verbatim>\<open>a\<close> to \<^verbatim>\<open>b\<close> on an engine without rivals.\<close>

definition moved_log :: "(nat, nat) Entry list" where
  "moved_log = [demo_entry 1 (ApplySnapshot (demo_snapshot ''a'' [''b''] 1 1))]"

definition moved_node :: "(nat, nat, queue_state) RaftMetadataNode" where
  "moved_node = busy_node\<lparr>rn_raft := ([], moved_log),
     rn_state_machine := fst (sm_apply (state_machine_default 0) moved_log)\<rparr>"

lemma moved_tracks: "tracks 0 snd (rn_raft moved_node) (rn_state_machine moved_node)"
  by (simp add: tracks_def moved_node_def)

definition move_to_b :: "CoordinationSnapshot \<Rightarrow> CoordinationSnapshot" where
  "move_to_b s = demo_snapshot ''b'' [''a''] 0 0"

definition move_outcome ::
    "(nat, nat, queue_state) RaftMetadataNode \<times> (OpenraftAdapterError, MetadataRaftResponse) result" where
  "move_outcome = plan_and_propose_guarded queue_engine move_to_b 0 moved_node"

lemma move_run: "plan_and_propose_guarded queue_engine move_to_b 0 moved_node
    = (fst move_outcome, Inr (projr (snd move_outcome)))"
proof -
  have "\<not> isl (snd move_outcome)" by code_simp
  then have "move_outcome = (fst move_outcome, Inr (projr (snd move_outcome)))" by (simp add: prod_eq_iff)
  then show ?thesis by (simp only: move_outcome_def)
qed

text \<open>The node's log ends up with one entry more, so the hand-over is the one from the state it had.\<close>

theorem controller_handover_fenced_witness:
  "fenced_handover (state_after 0 moved_log) (mr_snapshot (projr (snd move_outcome)))
   \<and> DemoteOwnerToFollower demo_resource 1 2 \<in> set (plan_local_assignment_transitions ''a''
        (state_after 0 moved_log) (mr_snapshot (projr (snd move_outcome))))
   \<and> PromoteFollowerToOwner demo_resource 2 \<in> set (plan_local_assignment_transitions ''b''
        (state_after 0 moved_log) (mr_snapshot (projr (snd move_outcome))))"
proof (intro conjI)
  have log: "snd (rn_raft moved_node) = moved_log" by (simp add: moved_node_def)
  have one: "length (snd (rn_raft (fst move_outcome))) = 2" "length moved_log = 1" by code_simp+
  obtain read between entry rest where
    h: "snd (rn_raft (fst move_outcome)) = moved_log @ read @ between @ entry # rest"
      "mr_snapshot (projr (snd move_outcome)) = state_after 0 ((moved_log @ read) @ between @ [entry])"
      "fenced_handover (state_after 0 (moved_log @ read)) (state_after 0 ((moved_log @ read) @ between @ [entry]))"
    using controller_handover_fenced [OF queue_engine_linearized moved_tracks move_run]
    unfolding log Let_def by blast
  have "length (snd (rn_raft (fst move_outcome))) = length moved_log + length read + length between + 1 + length rest"
    unfolding h(1) by simp
  then have "read = []" using one by simp
  then show "fenced_handover (state_after 0 moved_log) (mr_snapshot (projr (snd move_outcome)))"
    using h(2,3) by simp
qed code_simp+

end
